(* ===== verification/Prelude.thy ===== *)
theory Prelude
  imports Main "HOL-Library.Word"
begin

text \<open>
  Shared vocabulary of the development: the Rust integer operations the sources use
  (\<^verbatim>\<open>checked_*\<close>, \<^verbatim>\<open>saturating_*\<close>, \<^verbatim>\<open>as\<close> casts), slice access, \<^verbatim>\<open>RefCell\<close> borrow flags,
  and the state-and-error actions in which the instruction processors are written.  An action
  keeps the state it reached when it fails: Rust code that returns \<^verbatim>\<open>Err\<close> leaves the mutations
  it made before, and it is the caller that throws the state away.  The locale \<open>step_frame\<close>
  holds the composition rules for properties that every step of an action keeps.
\<close>

named_theorems frame_intros
named_theorems run_simps
named_theorems eval_simps

section \<open>Machine integers\<close>

type_synonym u8 = "8 word"
type_synonym u32 = "32 word"
type_synonym u64 = "64 word"
type_synonym u128 = "128 word"
type_synonym bytes = "u8 list"

definition checked_add :: "'a::len word \<Rightarrow> 'a word \<Rightarrow> 'a word option" where
  "checked_add a b = (if unat a + unat b < 2 ^ LENGTH('a) then Some (a + b) else None)"

definition checked_sub :: "'a::len word \<Rightarrow> 'a word \<Rightarrow> 'a word option" where
  "checked_sub a b = (if b \<le> a then Some (a - b) else None)"

definition checked_mul :: "'a::len word \<Rightarrow> 'a word \<Rightarrow> 'a word option" where
  "checked_mul a b = (if unat a * unat b < 2 ^ LENGTH('a) then Some (a * b) else None)"

definition saturating_add :: "'a::len word \<Rightarrow> 'a word \<Rightarrow> 'a word" where
  "saturating_add a b = (if unat a + unat b < 2 ^ LENGTH('a) then a + b else - 1)"

definition saturating_sub :: "'a::len word \<Rightarrow> 'a word \<Rightarrow> 'a word" where
  "saturating_sub a b = (if b \<le> a then a - b else 0)"

definition saturating_mul :: "'a::len word \<Rightarrow> 'a word \<Rightarrow> 'a word" where
  "saturating_mul a b = (if unat a * unat b < 2 ^ LENGTH('a) then a * b else - 1)"

text \<open>\<^verbatim>\<open>i64\<close> values are integers; saturating arithmetic clamps to the \<^verbatim>\<open>i64\<close> range.\<close>

definition sat_i64 :: "int \<Rightarrow> int" where
  "sat_i64 x = max (- (2 ^ 63)) (min (2 ^ 63 - 1) x)"

text \<open>
  Account indices (\<^verbatim>\<open>IndexOfAccount = u16\<close>) are naturals; the cast of a length and the saturating
  addition of the source are written out.
\<close>

definition as_u16 :: "nat \<Rightarrow> nat" where
  "as_u16 n = n mod 65536"

definition sat_add_u16 :: "nat \<Rightarrow> nat \<Rightarrow> nat" where
  "sat_add_u16 a b = min 65535 (a + b)"

lemma unat_checked_add:
  "checked_add a b = Some c \<Longrightarrow> unat c = unat a + unat b"
  by (auto simp: checked_add_def unat_word_ariths split: if_splits)

lemma checked_add_None:
  "checked_add (a :: 'a::len word) b = None \<longleftrightarrow> 2 ^ LENGTH('a) \<le> unat a + unat b"
  by (auto simp: checked_add_def not_less)

lemma unat_checked_sub:
  "checked_sub a b = Some c \<Longrightarrow> unat c = unat a - unat b \<and> unat b \<le> unat a"
  by (auto simp: checked_sub_def unat_sub word_le_nat_alt split: if_splits)

lemma checked_sub_None: "checked_sub a b = None \<longleftrightarrow> a < b"
  by (auto simp: checked_sub_def)

lemma checked_sub_le: "checked_sub a b = Some c \<Longrightarrow> c \<le> a"
  by (auto simp: word_le_nat_alt dest!: unat_checked_sub)

lemma checked_add_ge: "checked_add a b = Some c \<Longrightarrow> a \<le> c"
  by (auto simp: word_le_nat_alt dest!: unat_checked_add)

lemma unat_saturating_add:
  "unat (saturating_add (a :: 'a::len word) b) = min (2 ^ LENGTH('a) - 1) (unat a + unat b)"
  by (auto simp: saturating_add_def unat_word_ariths unsigned_minus_1_eq_mask mask_eq_exp_minus_1)

lemma unat_saturating_sub: "unat (saturating_sub a b) = unat a - unat b"
  by (auto simp: saturating_sub_def unat_sub word_le_nat_alt)

lemma unat_ucast_upward:
  assumes "LENGTH('a::len) \<le> LENGTH('b::len)"
  shows "unat (ucast (w :: 'a word) :: 'b word) = unat w"
proof -
  have "unat w < 2 ^ LENGTH('a)" by simp
  also have "\<dots> \<le> 2 ^ LENGTH('b)" using assms by simp
  finally show ?thesis by (simp add: unsigned_ucast_eq take_bit_nat_eq_self)
qed

lemma unat_u64_less: "unat (w :: u64) < 2 ^ 64"
  using unsigned_less [of w] by simp

lemma sat_i64_range: "- (2 ^ 63) \<le> sat_i64 x \<and> sat_i64 x < 2 ^ 63"
  by (auto simp: sat_i64_def)

lemma sat_i64_id: "- (2 ^ 63) \<le> x \<Longrightarrow> x < 2 ^ 63 \<Longrightarrow> sat_i64 x = x"
  by (auto simp: sat_i64_def)

lemma as_u16_id [simp]: "n < 65536 \<Longrightarrow> as_u16 n = n"
  by (simp add: as_u16_def)

lemma as_u16_le: "as_u16 n \<le> n"
  by (simp add: as_u16_def)

section \<open>Slices\<close>

text \<open>\<^verbatim>\<open>slice.get(i)\<close>, \<^verbatim>\<open>iter().position\<close>, \<^verbatim>\<open>iter().rposition\<close> and \<^verbatim>\<open>slice.last()\<close>.\<close>

definition get :: "'a list \<Rightarrow> nat \<Rightarrow> 'a option" where
  "get xs i = (if i < length xs then Some (xs ! i) else None)"

fun position :: "('a \<Rightarrow> bool) \<Rightarrow> 'a list \<Rightarrow> nat option" where
  "position P [] = None"
| "position P (x # xs) = (if P x then Some 0 else map_option Suc (position P xs))"

definition rposition :: "('a \<Rightarrow> bool) \<Rightarrow> 'a list \<Rightarrow> nat option" where
  "rposition P xs = map_option (\<lambda>i. length xs - 1 - i) (position P (rev xs))"

definition last_opt :: "'a list \<Rightarrow> 'a option" where
  "last_opt xs = (if xs = [] then None else Some (last xs))"

definition vec_resize :: "nat \<Rightarrow> 'a \<Rightarrow> 'a list \<Rightarrow> 'a list" where
  "vec_resize n v xs = take n xs @ replicate (n - length xs) v"

lemma get_Some: "get xs i = Some x \<longleftrightarrow> i < length xs \<and> xs ! i = x"
  by (auto simp: get_def)

lemma get_None: "get xs i = None \<longleftrightarrow> length xs \<le> i"
  by (auto simp: get_def)

lemma length_vec_resize [simp]: "length (vec_resize n v xs) = n"
  by (simp add: vec_resize_def)

lemma position_Some:
  "position P xs = Some i \<longleftrightarrow> i < length xs \<and> P (xs ! i) \<and> (\<forall>j < i. \<not> P (xs ! j))"
proof (induction xs arbitrary: i)
  case (Cons x xs)
  show ?case
    by (cases i) (auto simp: Cons.IH less_Suc_eq_0_disj nth_Cons')
qed simp

lemma position_None: "position P xs = None \<longleftrightarrow> (\<forall>x \<in> set xs. \<not> P x)"
  by (induction xs) auto

lemma rposition_Some:
  assumes "rposition P xs = Some i"
  shows "i < length xs \<and> P (xs ! i)"
proof -
  from assms obtain j where "position P (rev xs) = Some j" and i: "i = length xs - 1 - j"
    by (auto simp: rposition_def)
  then have j: "j < length xs" "P (rev xs ! j)"
    by (auto simp: position_Some)
  then show ?thesis
    by (auto simp: i rev_nth)
qed

section \<open>RefCell\<close>

text \<open>
  A \<^verbatim>\<open>RefCell\<close> carries its dynamic borrow state: unused, read by a number of \<^verbatim>\<open>Ref\<close>s, or
  written through one \<^verbatim>\<open>RefMut\<close>.
\<close>

datatype borrow_flag = Unused | Reading nat | Writing

record 'a ref_cell =
  rc_value :: 'a
  rc_borrow :: borrow_flag

definition ref_cell_new :: "'a \<Rightarrow> 'a ref_cell" where
  "ref_cell_new v = \<lparr>rc_value = v, rc_borrow = Unused\<rparr>"

definition can_borrow :: "'a ref_cell \<Rightarrow> bool" where
  "can_borrow c \<longleftrightarrow> rc_borrow c \<noteq> Writing"

definition can_borrow_mut :: "'a ref_cell \<Rightarrow> bool" where
  "can_borrow_mut c \<longleftrightarrow> rc_borrow c = Unused"

section \<open>Actions: state with errors\<close>

type_synonym ('s, 'e, 'a) action = "'s \<Rightarrow> ('e + 'a) \<times> 's"

definition ret :: "'a \<Rightarrow> ('s, 'e, 'a) action" where
  "ret a s = (Inr a, s)"

definition throw :: "'e \<Rightarrow> ('s, 'e, 'a) action" where
  "throw e s = (Inl e, s)"

definition bind :: "('s, 'e, 'a) action \<Rightarrow> ('a \<Rightarrow> ('s, 'e, 'b) action) \<Rightarrow> ('s, 'e, 'b) action" where
  "bind m f s = (case m s of (Inl e, t) \<Rightarrow> (Inl e, t) | (Inr a, t) \<Rightarrow> f a t)"

text \<open>\<open>reads f\<close> is the \<^verbatim>\<open>?\<close> of a call that inspects the state and may fail without changing it.\<close>

definition reads :: "('s \<Rightarrow> 'e + 'a) \<Rightarrow> ('s, 'e, 'a) action" where
  "reads f s = (f s, s)"

definition gets :: "('s \<Rightarrow> 'a) \<Rightarrow> ('s, 'e, 'a) action" where
  "gets f s = (Inr (f s), s)"

definition modify :: "('s \<Rightarrow> 's) \<Rightarrow> ('s, 'e, unit) action" where
  "modify f s = (Inr (), f s)"

definition require :: "bool \<Rightarrow> 'e \<Rightarrow> ('s, 'e, unit) action" where
  "require b e s = (if b then (Inr (), s) else (Inl e, s))"

definition ok_or :: "'e \<Rightarrow> 'a option \<Rightarrow> 'e + 'a" where
  "ok_or e x = (case x of None \<Rightarrow> Inl e | Some a \<Rightarrow> Inr a)"

definition and_then :: "'e + 'a \<Rightarrow> ('a \<Rightarrow> 'e + 'b) \<Rightarrow> 'e + 'b" where
  "and_then r f = (case r of Inl e \<Rightarrow> Inl e | Inr a \<Rightarrow> f a)"

definition unwrap_or :: "'a \<Rightarrow> 'e + 'a \<Rightarrow> 'a" where
  "unwrap_or d r = (case r of Inl _ \<Rightarrow> d | Inr a \<Rightarrow> a)"

lemma ok_or_simps [simp]: "ok_or e None = Inl e" "ok_or e (Some a) = Inr a"
  by (simp_all add: ok_or_def)

lemma and_then_simps [simp]: "and_then (Inl e) f = Inl e" "and_then (Inr a) f = f a"
  by (simp_all add: and_then_def)

lemma unwrap_or_simps [simp]: "unwrap_or d (Inl e) = d" "unwrap_or d (Inr a) = a"
  by (simp_all add: unwrap_or_def)

lemma ok_or_Inr: "ok_or e x = Inr a \<longleftrightarrow> x = Some a"
  by (cases x) auto

lemma ok_or_Inl: "ok_or e x = Inl e' \<longleftrightarrow> x = None \<and> e' = e"
  by (cases x) auto

lemma and_then_Inr: "and_then r f = Inr b \<longleftrightarrow> (\<exists>a. r = Inr a \<and> f a = Inr b)"
  by (cases r) auto

lemma run_ret [run_simps]: "ret a s = (Inr a, s)"
  by (simp add: ret_def)

lemma run_throw [run_simps]: "throw e s = (Inl e, s)"
  by (simp add: throw_def)

lemma run_reads [run_simps]: "reads f s = (f s, s)"
  by (simp add: reads_def)

lemma run_gets [run_simps]: "gets f s = (Inr (f s), s)"
  by (simp add: gets_def)

lemma run_modify [run_simps]: "modify f s = (Inr (), f s)"
  by (simp add: modify_def)

lemma run_require [run_simps]: "require b e s = (if b then (Inr (), s) else (Inl e, s))"
  by (simp add: require_def)

lemma run_bind [run_simps]:
  "bind m f s = (case fst (m s) of Inl e \<Rightarrow> (Inl e, snd (m s)) | Inr a \<Rightarrow> f a (snd (m s)))"
  by (simp add: bind_def split: prod.splits sum.splits)

lemma bind_assoc: "bind (bind m f) g = bind m (\<lambda>a. bind (f a) g)"
  by (rule ext) (simp add: bind_def split: prod.splits sum.splits)

lemma bind_InrE:
  assumes "bind m f s = (Inr b, t)"
  obtains a u where "m s = (Inr a, u)" and "f a u = (Inr b, t)"
  using assms by (auto simp: bind_def split: prod.splits sum.splits)

lemma reads_InrE:
  assumes "reads f s = (Inr a, t)"
  obtains "f s = Inr a" and "t = s"
proof -
  from assms have "f s = Inr a" and "t = s" by (auto simp: reads_def)
  then show thesis by (rule that)
qed

lemma require_InrE:
  assumes "require b e s = (Inr a, t)"
  obtains "b" and "t = s"
proof -
  from assms have "b" and "t = s" by (simp_all add: require_def split: if_splits)
  then show thesis by (rule that)
qed

lemma gets_InrE:
  assumes "gets f s = (Inr a, t)"
  obtains "a = f s" and "t = s"
proof -
  from assms have "a = f s" and "t = s" by (auto simp: gets_def)
  then show thesis by (rule that)
qed

text \<open>Collections: \<open>eval_simps\<close> unfolds the definitions that an evaluation on a concrete state goes through.\<close>

lemmas prelude_eval [eval_simps] = get_def last_opt_def sat_add_u16_def checked_add_def checked_sub_def
  can_borrow_def can_borrow_mut_def ref_cell_new_def

lemmas action_elims = bind_InrE reads_InrE require_InrE gets_InrE

section \<open>Relations kept by every step\<close>

text \<open>
  \<open>keeps R m\<close>: running \<open>m\<close>, whether it succeeds or fails, relates the state before to the
  state after by \<open>R\<close>.
\<close>

definition keeps :: "('s \<Rightarrow> 's \<Rightarrow> bool) \<Rightarrow> ('s, 'e, 'a) action \<Rightarrow> bool" where
  "keeps R m \<longleftrightarrow> (\<forall>s. R s (snd (m s)))"

lemma keepsD: "keeps R m \<Longrightarrow> m s = (r, t) \<Longrightarrow> R s t"
  by (metis keeps_def snd_conv)

lemma keepsI: "(\<And>s r t. m s = (r, t) \<Longrightarrow> R s t) \<Longrightarrow> keeps R m"
  unfolding keeps_def by (metis surjective_pairing)

locale step_frame =
  fixes R :: "'s \<Rightarrow> 's \<Rightarrow> bool"
  assumes frame_refl: "R s s"
    and frame_trans: "R s t \<Longrightarrow> R t u \<Longrightarrow> R s u"
begin

lemma keeps_ret [frame_intros]: "keeps R (ret a)"
  by (simp add: keeps_def ret_def frame_refl)

lemma keeps_throw [frame_intros]: "keeps R (throw e)"
  by (simp add: keeps_def throw_def frame_refl)

lemma keeps_reads [frame_intros]: "keeps R (reads f)"
  by (simp add: keeps_def reads_def frame_refl)

lemma keeps_gets [frame_intros]: "keeps R (gets f)"
  by (simp add: keeps_def gets_def frame_refl)

lemma keeps_require [frame_intros]: "keeps R (require b e)"
  by (simp add: keeps_def require_def frame_refl)

lemma keeps_bind [frame_intros]:
  assumes m: "keeps R m" and f: "\<And>a. keeps R (f a)"
  shows "keeps R (bind m f)"
proof (rule keepsI)
  fix s r t
  assume run: "bind m f s = (r, t)"
  obtain x u where mu: "m s = (x, u)" by fastforce
  from m mu have su: "R s u" by (rule keepsD)
  show "R s t"
  proof (cases x)
    case (Inl e)
    with run mu su show ?thesis by (simp add: bind_def)
  next
    case (Inr a)
    with run mu have "f a u = (r, t)" by (simp add: bind_def)
    with f have "R u t" by (rule keepsD)
    with su show ?thesis by (rule frame_trans)
  qed
qed

lemma keeps_if [frame_intros]:
  "(b \<Longrightarrow> keeps R m) \<Longrightarrow> (\<not> b \<Longrightarrow> keeps R n) \<Longrightarrow> keeps R (if b then m else n)"
  by simp

lemma keeps_case_option [frame_intros]:
  "keeps R m \<Longrightarrow> (\<And>a. x = Some a \<Longrightarrow> keeps R (f a)) \<Longrightarrow>
    keeps R (case x of None \<Rightarrow> m | Some a \<Rightarrow> f a)"
  by (cases x) simp_all

lemma keeps_let [frame_intros]: "keeps R (f a) \<Longrightarrow> keeps R (let x = a in f x)"
  by simp

end

end
