(* ===== verification/Rent.thy ===== *)
theory Rent
  imports Prelude
begin

text \<open>
  The network rent configuration, \<^verbatim>\<open>sdk/program/src/rent.rs\<close>.  The thresholds are \<^verbatim>\<open>f64\<close> in the
  source.  The first section models the finite non-negative part of IEEE-754 binary64 that the
  source uses: conversion from \<^verbatim>\<open>u64\<close>, multiplication, both rounding to nearest even at 53
  bits, and the saturating, truncating \<^verbatim>\<open>as u64\<close>.  Exponents are unbounded: a product of two
  values the code multiplies stays far from the overflow bound of the format, and a subnormal
  product truncates to 0 as an exact one does.  Plain \<^verbatim>\<open>u64\<close> arithmetic wraps, as in the release
  profile.
\<close>

section \<open>Binary64, finite and non-negative\<close>

text \<open>\<open>F64 m e\<close> is the number \<open>m * 2 ^ e\<close>.\<close>

datatype f64 = F64 nat int

fun bit_length :: "nat \<Rightarrow> nat" where
  "bit_length n = (if n = 0 then 0 else Suc (bit_length (n div 2)))"

declare bit_length.simps [simp del]

definition round_half_even :: "nat \<Rightarrow> nat \<Rightarrow> nat" where
  "round_half_even m k =
     (if k = 0 then m
      else let q = m div 2 ^ k; r = m mod 2 ^ k; h = 2 ^ (k - 1) in
        if h < r \<or> (r = h \<and> odd q) then q + 1 else q)"

definition f64_round :: "nat \<Rightarrow> int \<Rightarrow> f64" where
  "f64_round m e = (let k = bit_length m - 53 in F64 (round_half_even m k) (e + int k))"

definition f64_of_u64 :: "u64 \<Rightarrow> f64" where
  "f64_of_u64 w = f64_round (unat w) 0"

fun f64_mul :: "f64 \<Rightarrow> f64 \<Rightarrow> f64" where
  "f64_mul (F64 m e) (F64 n f) = f64_round (m * n) (e + f)"

fun u64_of_f64 :: "f64 \<Rightarrow> u64" where
  "u64_of_f64 (F64 m e) =
     of_nat (min (2 ^ 64 - 1) (if 0 \<le> e then m * 2 ^ nat e else m div 2 ^ nat (- e)))"

lemma bit_length_le: "n < 2 ^ k \<Longrightarrow> bit_length n \<le> k"
proof (induction k arbitrary: n)
  case 0
  then show ?case by (simp add: bit_length.simps)
next
  case (Suc k)
  then have "n div 2 < 2 ^ k" by auto
  then have "bit_length (n div 2) \<le> k" by (rule Suc.IH)
  then show ?case by (simp add: bit_length.simps [of n])
qed

lemma f64_round_exact: "m < 2 ^ 53 \<Longrightarrow> f64_round m e = F64 m e"
  using bit_length_le [of m 53] by (simp add: f64_round_def round_half_even_def)

section \<open>Rent\<close>

record rent =
  lamports_per_byte_year :: u64
  exemption_threshold :: f64
  burn_percent :: u8

definition DEFAULT_LAMPORTS_PER_BYTE_YEAR :: u64 where
  "DEFAULT_LAMPORTS_PER_BYTE_YEAR = 1000000000 div 100 * 365 div (1024 * 1024)"

definition DEFAULT_EXEMPTION_THRESHOLD :: f64 where
  "DEFAULT_EXEMPTION_THRESHOLD = F64 2 0"

definition DEFAULT_BURN_PERCENT :: u8 where
  "DEFAULT_BURN_PERCENT = 50"

definition ACCOUNT_STORAGE_OVERHEAD :: u64 where
  "ACCOUNT_STORAGE_OVERHEAD = 128"

definition rent_default :: rent where
  "rent_default =
     \<lparr>lamports_per_byte_year = DEFAULT_LAMPORTS_PER_BYTE_YEAR,
      exemption_threshold = DEFAULT_EXEMPTION_THRESHOLD,
      burn_percent = DEFAULT_BURN_PERCENT\<rparr>"

definition calculate_burn :: "rent \<Rightarrow> u64 \<Rightarrow> u64 \<times> u64" where
  "calculate_burn r rent_collected =
     (let burned_portion = (rent_collected * ucast (burn_percent r)) div 100
      in (burned_portion, rent_collected - burned_portion))"

definition minimum_balance :: "rent \<Rightarrow> nat \<Rightarrow> u64" where
  "minimum_balance r data_len =
     (let bytes = of_nat data_len in
      u64_of_f64 (f64_mul
        (f64_of_u64 ((ACCOUNT_STORAGE_OVERHEAD + bytes) * lamports_per_byte_year r))
        (exemption_threshold r)))"

definition rent_is_exempt :: "rent \<Rightarrow> u64 \<Rightarrow> nat \<Rightarrow> bool" where
  "rent_is_exempt r balance data_len \<longleftrightarrow> minimum_balance r data_len \<le> balance"

datatype rent_due = Exempt | Paying u64

definition due_amount :: "rent \<Rightarrow> nat \<Rightarrow> f64 \<Rightarrow> u64" where
  "due_amount r data_len years_elapsed =
     (let actual_data_len = of_nat data_len + ACCOUNT_STORAGE_OVERHEAD;
          lamports_per_year = lamports_per_byte_year r * actual_data_len
      in u64_of_f64 (f64_mul (f64_of_u64 lamports_per_year) years_elapsed))"

definition due :: "rent \<Rightarrow> u64 \<Rightarrow> nat \<Rightarrow> f64 \<Rightarrow> rent_due" where
  "due r balance data_len years_elapsed =
     (if rent_is_exempt r balance data_len then Exempt
      else Paying (due_amount r data_len years_elapsed))"

definition rent_free :: rent where
  "rent_free = rent_default\<lparr>lamports_per_byte_year := 0\<rparr>"

fun rent_due_lamports :: "rent_due \<Rightarrow> u64" where
  "rent_due_lamports Exempt = 0"
| "rent_due_lamports (Paying x) = x"

fun rent_due_is_exempt :: "rent_due \<Rightarrow> bool" where
  "rent_due_is_exempt Exempt = True"
| "rent_due_is_exempt (Paying x) = False"

lemma default_rate: "DEFAULT_LAMPORTS_PER_BYTE_YEAR = 3480"
  by (simp add: DEFAULT_LAMPORTS_PER_BYTE_YEAR_def)

text \<open>
  The default configuration is exact on every data length an account may have: no
  rounding and no wrap-around is involved, so the exemption threshold is linear in the length.
\<close>

lemma default_minimum_balance:
  assumes len: "data_len \<le> 10 * 1024 * 1024"
  shows "unat (minimum_balance rent_default data_len) = (128 + data_len) * 3480 * 2"
proof -
  define w where "w = (ACCOUNT_STORAGE_OVERHEAD + of_nat data_len) * (3480 :: u64)"
  have w: "unat w = (128 + data_len) * 3480"
  proof -
    have "unat (of_nat data_len :: u64) = data_len"
      using len by (simp add: unat_of_nat)
    then show ?thesis
      using len by (simp add: w_def ACCOUNT_STORAGE_OVERHEAD_def unat_word_ariths)
  qed
  have small: "unat w < 2 ^ 53" "unat w * 2 < 2 ^ 53"
    using len by (simp_all add: w)
  have "f64_mul (f64_of_u64 w) (F64 2 0) = F64 (unat w * 2) 0"
    using f64_round_exact [OF small(1), of 0] f64_round_exact [OF small(2), of 0]
    by (simp add: f64_of_u64_def)
  then have "minimum_balance rent_default data_len = of_nat (min (2 ^ 64 - 1) (unat w * 2))"
    unfolding minimum_balance_def rent_default_def Let_def rent.simps default_rate
      DEFAULT_EXEMPTION_THRESHOLD_def w_def [symmetric] by simp
  also have "min (2 ^ 64 - 1) (unat w * 2) = unat w * 2"
    using small by simp
  finally have "unat (minimum_balance rent_default data_len) = unat w * 2"
    using small by (simp only: unat_of_nat) simp
  then show ?thesis by (simp add: w)
qed

lemma rent_due_exempt_iff:
  "rent_due_is_exempt (due r balance data_len years) \<longleftrightarrow> rent_is_exempt r balance data_len"
  by (simp add: due_def)

text \<open>
  Burning splits what was collected without losing a lamport; as long as the product does not
  wrap, the burned part is the percentage, rounded down.
\<close>

lemma calculate_burn_split:
  "calculate_burn r c = (b, d) \<Longrightarrow> b + d = c"
  by (auto simp: calculate_burn_def Let_def)

lemma calculate_burn_amount:
  assumes "calculate_burn r c = (b, d)" and "unat c * unat (burn_percent r) < 2 ^ 64"
    and "unat (burn_percent r) \<le> 100"
  shows "unat b = unat c * unat (burn_percent r) div 100 \<and> unat b + unat d = unat c"
proof -
  have u: "unat (ucast (burn_percent r) :: u64) = unat (burn_percent r)"
    by (simp add: unat_ucast_upward)
  have b: "unat b = unat c * unat (burn_percent r) div 100"
    using assms(1,2) by (auto simp: calculate_burn_def Let_def unat_div unat_word_ariths u)
  have "unat c * unat (burn_percent r) div 100 \<le> unat c"
  proof -
    have "unat c * unat (burn_percent r) \<le> unat c * 100"
      using assms(3) by simp
    then show ?thesis
      by (metis div_le_mono nonzero_mult_div_cancel_right zero_neq_numeral)
  qed
  then have "b \<le> c" by (simp add: b word_le_nat_alt)
  moreover have "d = c - b" using assms(1) by (auto simp: calculate_burn_def Let_def)
  ultimately show ?thesis using b by (simp add: unat_sub word_le_nat_alt)
qed

section \<open>Properties\<close>

text \<open>
  For every account up to the largest permitted size, the default rent's minimum balance,
  computed through floating point, is exactly two years of 3480 lamports per byte of data and
  overhead.
\<close>

theorem minimum_balance_exact:
  assumes "data_len \<le> 10 * 1024 * 1024"
  shows "unat (minimum_balance rent_default data_len) = (128 + data_len) * 3480 * 2"
  using default_minimum_balance [OF assms] by simp

theorem minimum_balance_exact_witness:
  "(165 :: nat) \<le> 10 * 1024 * 1024 \<and> unat (minimum_balance rent_default 165) = 2039280"
  using minimum_balance_exact [of 165] by simp

text \<open>
  Burning splits the collected rent: the burned share is the percentage rounded down and the
  two shares add up to what was collected, whenever the percentage is at most 100 and the product
  fits 64 bits.
\<close>

theorem calculate_burn_conserves:
  assumes "calculate_burn r c = (b, d)" and "unat c * unat (burn_percent r) < 2 ^ 64"
    and "unat (burn_percent r) \<le> 100"
  shows "unat b = unat c * unat (burn_percent r) div 100 \<and> unat b + unat d = unat c"
  using assms by (rule calculate_burn_amount)

theorem calculate_burn_conserves_witness:
  "\<exists>b d. calculate_burn rent_default 1001 = (b, d) \<and> unat b = 500 \<and> unat d = 501"
proof -
  obtain b d where bd: "calculate_burn rent_default 1001 = (b, d)" by fastforce
  have "burn_percent rent_default = 50"
    by (simp add: rent_default_def DEFAULT_BURN_PERCENT_def)
  with calculate_burn_conserves [OF bd] bd show ?thesis by simp
qed

end
