(* ===== verification/Errors.thy ===== *)
theory Errors
  imports Prelude
begin

text \<open>
  The error types of the runtime and their integer encodings: \<^verbatim>\<open>InstructionError\<close>
  (\<^verbatim>\<open>sdk/program/src/instruction.rs\<close>), \<^verbatim>\<open>ProgramError\<close> and the conversions through \<^verbatim>\<open>u64\<close> in
  \<^verbatim>\<open>sdk/program/src/program_error.rs\<close> (a program hands its error to the runtime as a \<^verbatim>\<open>u64\<close>
  register), \<^verbatim>\<open>SystemError\<close> (\<^verbatim>\<open>sdk/program/src/system_instruction.rs\<close>), \<^verbatim>\<open>PubkeyError\<close>
  (\<^verbatim>\<open>sdk/program/src/pubkey.rs\<close>) and \<^verbatim>\<open>LamportsError\<close> (\<^verbatim>\<open>sdk/program/src/lamports.rs\<close>).
\<close>

section \<open>Instruction errors\<close>

datatype instruction_error =
    GenericError
  | InvalidArgument
  | InvalidInstructionData
  | InvalidAccountData
  | AccountDataTooSmall
  | InsufficientFunds
  | IncorrectProgramId
  | MissingRequiredSignature
  | AccountAlreadyInitialized
  | UninitializedAccount
  | UnbalancedInstruction
  | ModifiedProgramId
  | ExternalAccountLamportSpend
  | ExternalAccountDataModified
  | ReadonlyLamportChange
  | ReadonlyDataModified
  | DuplicateAccountIndex
  | ExecutableModified
  | RentEpochModified
  | NotEnoughAccountKeys
  | AccountDataSizeChanged
  | AccountNotExecutable
  | AccountBorrowFailed
  | AccountBorrowOutstanding
  | DuplicateAccountOutOfSync
  | Custom u32
  | InvalidError
  | ExecutableDataModified
  | ExecutableLamportChange
  | ExecutableAccountNotRentExempt
  | UnsupportedProgramId
  | CallDepth
  | MissingAccount
  | ReentrancyNotAllowed
  | MaxSeedLengthExceeded
  | InvalidSeeds
  | InvalidRealloc
  | ComputationalBudgetExceeded
  | PrivilegeEscalation
  | ProgramEnvironmentSetupFailure
  | ProgramFailedToComplete
  | ProgramFailedToCompile
  | Immutable
  | IncorrectAuthority
  | BorshIoError string
  | AccountNotRentExempt
  | InvalidAccountOwner
  | ArithmeticOverflow
  | UnsupportedSysvar
  | IllegalOwner
  | MaxAccountsDataAllocationsExceeded
  | MaxAccountsExceeded
  | MaxInstructionTraceLengthExceeded
  | BuiltinProgramsMustConsumeComputeUnits

section \<open>Program errors and their u64 encoding\<close>

datatype program_error =
    PE_Custom u32
  | PE_InvalidArgument
  | PE_InvalidInstructionData
  | PE_InvalidAccountData
  | PE_AccountDataTooSmall
  | PE_InsufficientFunds
  | PE_IncorrectProgramId
  | PE_MissingRequiredSignature
  | PE_AccountAlreadyInitialized
  | PE_UninitializedAccount
  | PE_NotEnoughAccountKeys
  | PE_AccountBorrowFailed
  | PE_MaxSeedLengthExceeded
  | PE_InvalidSeeds
  | PE_BorshIoError string
  | PE_AccountNotRentExempt
  | PE_UnsupportedSysvar
  | PE_IllegalOwner
  | PE_MaxAccountsDataAllocationsExceeded
  | PE_InvalidRealloc
  | PE_MaxInstructionTraceLengthExceeded
  | PE_BuiltinProgramsMustConsumeComputeUnits
  | PE_InvalidAccountOwner
  | PE_ArithmeticOverflow

definition to_builtin :: "u64 \<Rightarrow> u64" where
  "to_builtin n = push_bit 32 n"

abbreviation CUSTOM_ZERO :: u64 where
  "CUSTOM_ZERO \<equiv> to_builtin 1"

abbreviation INVALID_ARGUMENT :: u64 where
  "INVALID_ARGUMENT \<equiv> to_builtin 2"

abbreviation INVALID_INSTRUCTION_DATA :: u64 where
  "INVALID_INSTRUCTION_DATA \<equiv> to_builtin 3"

abbreviation INVALID_ACCOUNT_DATA :: u64 where
  "INVALID_ACCOUNT_DATA \<equiv> to_builtin 4"

abbreviation ACCOUNT_DATA_TOO_SMALL :: u64 where
  "ACCOUNT_DATA_TOO_SMALL \<equiv> to_builtin 5"

abbreviation INSUFFICIENT_FUNDS :: u64 where
  "INSUFFICIENT_FUNDS \<equiv> to_builtin 6"

abbreviation INCORRECT_PROGRAM_ID :: u64 where
  "INCORRECT_PROGRAM_ID \<equiv> to_builtin 7"

abbreviation MISSING_REQUIRED_SIGNATURES :: u64 where
  "MISSING_REQUIRED_SIGNATURES \<equiv> to_builtin 8"

abbreviation ACCOUNT_ALREADY_INITIALIZED :: u64 where
  "ACCOUNT_ALREADY_INITIALIZED \<equiv> to_builtin 9"

abbreviation UNINITIALIZED_ACCOUNT :: u64 where
  "UNINITIALIZED_ACCOUNT \<equiv> to_builtin 10"

abbreviation NOT_ENOUGH_ACCOUNT_KEYS :: u64 where
  "NOT_ENOUGH_ACCOUNT_KEYS \<equiv> to_builtin 11"

abbreviation ACCOUNT_BORROW_FAILED :: u64 where
  "ACCOUNT_BORROW_FAILED \<equiv> to_builtin 12"

abbreviation MAX_SEED_LENGTH_EXCEEDED :: u64 where
  "MAX_SEED_LENGTH_EXCEEDED \<equiv> to_builtin 13"

abbreviation INVALID_SEEDS :: u64 where
  "INVALID_SEEDS \<equiv> to_builtin 14"

abbreviation BORSH_IO_ERROR :: u64 where
  "BORSH_IO_ERROR \<equiv> to_builtin 15"

abbreviation ACCOUNT_NOT_RENT_EXEMPT :: u64 where
  "ACCOUNT_NOT_RENT_EXEMPT \<equiv> to_builtin 16"

abbreviation UNSUPPORTED_SYSVAR :: u64 where
  "UNSUPPORTED_SYSVAR \<equiv> to_builtin 17"

abbreviation ILLEGAL_OWNER :: u64 where
  "ILLEGAL_OWNER \<equiv> to_builtin 18"

abbreviation MAX_ACCOUNTS_DATA_ALLOCATIONS_EXCEEDED :: u64 where
  "MAX_ACCOUNTS_DATA_ALLOCATIONS_EXCEEDED \<equiv> to_builtin 19"

abbreviation INVALID_ACCOUNT_DATA_REALLOC :: u64 where
  "INVALID_ACCOUNT_DATA_REALLOC \<equiv> to_builtin 20"

abbreviation MAX_INSTRUCTION_TRACE_LENGTH_EXCEEDED :: u64 where
  "MAX_INSTRUCTION_TRACE_LENGTH_EXCEEDED \<equiv> to_builtin 21"

abbreviation BUILTIN_PROGRAMS_MUST_CONSUME_COMPUTE_UNITS :: u64 where
  "BUILTIN_PROGRAMS_MUST_CONSUME_COMPUTE_UNITS \<equiv> to_builtin 22"

abbreviation INVALID_ACCOUNT_OWNER :: u64 where
  "INVALID_ACCOUNT_OWNER \<equiv> to_builtin 23"

abbreviation ARITHMETIC_OVERFLOW :: u64 where
  "ARITHMETIC_OVERFLOW \<equiv> to_builtin 24"

fun u64_of_program_error :: "program_error \<Rightarrow> u64" where
  "u64_of_program_error PE_InvalidArgument = INVALID_ARGUMENT"
| "u64_of_program_error PE_InvalidInstructionData = INVALID_INSTRUCTION_DATA"
| "u64_of_program_error PE_InvalidAccountData = INVALID_ACCOUNT_DATA"
| "u64_of_program_error PE_AccountDataTooSmall = ACCOUNT_DATA_TOO_SMALL"
| "u64_of_program_error PE_InsufficientFunds = INSUFFICIENT_FUNDS"
| "u64_of_program_error PE_IncorrectProgramId = INCORRECT_PROGRAM_ID"
| "u64_of_program_error PE_MissingRequiredSignature = MISSING_REQUIRED_SIGNATURES"
| "u64_of_program_error PE_AccountAlreadyInitialized = ACCOUNT_ALREADY_INITIALIZED"
| "u64_of_program_error PE_UninitializedAccount = UNINITIALIZED_ACCOUNT"
| "u64_of_program_error PE_NotEnoughAccountKeys = NOT_ENOUGH_ACCOUNT_KEYS"
| "u64_of_program_error PE_AccountBorrowFailed = ACCOUNT_BORROW_FAILED"
| "u64_of_program_error PE_MaxSeedLengthExceeded = MAX_SEED_LENGTH_EXCEEDED"
| "u64_of_program_error PE_InvalidSeeds = INVALID_SEEDS"
| "u64_of_program_error (PE_BorshIoError s) = BORSH_IO_ERROR"
| "u64_of_program_error PE_AccountNotRentExempt = ACCOUNT_NOT_RENT_EXEMPT"
| "u64_of_program_error PE_UnsupportedSysvar = UNSUPPORTED_SYSVAR"
| "u64_of_program_error PE_IllegalOwner = ILLEGAL_OWNER"
| "u64_of_program_error PE_MaxAccountsDataAllocationsExceeded = MAX_ACCOUNTS_DATA_ALLOCATIONS_EXCEEDED"
| "u64_of_program_error PE_InvalidRealloc = INVALID_ACCOUNT_DATA_REALLOC"
| "u64_of_program_error PE_MaxInstructionTraceLengthExceeded = MAX_INSTRUCTION_TRACE_LENGTH_EXCEEDED"
| "u64_of_program_error PE_BuiltinProgramsMustConsumeComputeUnits = BUILTIN_PROGRAMS_MUST_CONSUME_COMPUTE_UNITS"
| "u64_of_program_error PE_InvalidAccountOwner = INVALID_ACCOUNT_OWNER"
| "u64_of_program_error PE_ArithmeticOverflow = ARITHMETIC_OVERFLOW"
| "u64_of_program_error (PE_Custom err) = (if err = 0 then CUSTOM_ZERO else ucast err)"

definition program_error_of_u64 :: "u64 \<Rightarrow> program_error" where
  "program_error_of_u64 err =
     (if err = CUSTOM_ZERO then PE_Custom 0
      else if err = INVALID_ARGUMENT then PE_InvalidArgument
      else if err = INVALID_INSTRUCTION_DATA then PE_InvalidInstructionData
      else if err = INVALID_ACCOUNT_DATA then PE_InvalidAccountData
      else if err = ACCOUNT_DATA_TOO_SMALL then PE_AccountDataTooSmall
      else if err = INSUFFICIENT_FUNDS then PE_InsufficientFunds
      else if err = INCORRECT_PROGRAM_ID then PE_IncorrectProgramId
      else if err = MISSING_REQUIRED_SIGNATURES then PE_MissingRequiredSignature
      else if err = ACCOUNT_ALREADY_INITIALIZED then PE_AccountAlreadyInitialized
      else if err = UNINITIALIZED_ACCOUNT then PE_UninitializedAccount
      else if err = NOT_ENOUGH_ACCOUNT_KEYS then PE_NotEnoughAccountKeys
      else if err = ACCOUNT_BORROW_FAILED then PE_AccountBorrowFailed
      else if err = MAX_SEED_LENGTH_EXCEEDED then PE_MaxSeedLengthExceeded
      else if err = INVALID_SEEDS then PE_InvalidSeeds
      else if err = BORSH_IO_ERROR then PE_BorshIoError ''Unknown''
      else if err = ACCOUNT_NOT_RENT_EXEMPT then PE_AccountNotRentExempt
      else if err = UNSUPPORTED_SYSVAR then PE_UnsupportedSysvar
      else if err = ILLEGAL_OWNER then PE_IllegalOwner
      else if err = MAX_ACCOUNTS_DATA_ALLOCATIONS_EXCEEDED then PE_MaxAccountsDataAllocationsExceeded
      else if err = INVALID_ACCOUNT_DATA_REALLOC then PE_InvalidRealloc
      else if err = MAX_INSTRUCTION_TRACE_LENGTH_EXCEEDED then PE_MaxInstructionTraceLengthExceeded
      else if err = BUILTIN_PROGRAMS_MUST_CONSUME_COMPUTE_UNITS then PE_BuiltinProgramsMustConsumeComputeUnits
      else if err = INVALID_ACCOUNT_OWNER then PE_InvalidAccountOwner
      else if err = ARITHMETIC_OVERFLOW then PE_ArithmeticOverflow
      else PE_Custom (ucast err))"

text \<open>
  The blanket conversion of a primitive error code.  The argument is what \<^verbatim>\<open>ToPrimitive::to_u64\<close>
  returned, \<^verbatim>\<open>None\<close> standing for an error that has no such value.
\<close>

definition instruction_error_of_primitive :: "u64 option \<Rightarrow> instruction_error" where
  "instruction_error_of_primitive code =
     (let err = (case code of None \<Rightarrow> 0xbadc0de | Some n \<Rightarrow> n) in
      if err = CUSTOM_ZERO then Custom 0
      else if err = INVALID_ARGUMENT then InvalidArgument
      else if err = INVALID_INSTRUCTION_DATA then InvalidInstructionData
      else if err = INVALID_ACCOUNT_DATA then InvalidAccountData
      else if err = ACCOUNT_DATA_TOO_SMALL then AccountDataTooSmall
      else if err = INSUFFICIENT_FUNDS then InsufficientFunds
      else if err = INCORRECT_PROGRAM_ID then IncorrectProgramId
      else if err = MISSING_REQUIRED_SIGNATURES then MissingRequiredSignature
      else if err = ACCOUNT_ALREADY_INITIALIZED then AccountAlreadyInitialized
      else if err = UNINITIALIZED_ACCOUNT then UninitializedAccount
      else if err = NOT_ENOUGH_ACCOUNT_KEYS then NotEnoughAccountKeys
      else if err = ACCOUNT_BORROW_FAILED then AccountBorrowFailed
      else if err = MAX_SEED_LENGTH_EXCEEDED then MaxSeedLengthExceeded
      else if err = INVALID_SEEDS then InvalidSeeds
      else if err = BORSH_IO_ERROR then BorshIoError ''Unknown''
      else if err = ACCOUNT_NOT_RENT_EXEMPT then AccountNotRentExempt
      else if err = UNSUPPORTED_SYSVAR then UnsupportedSysvar
      else if err = ILLEGAL_OWNER then IllegalOwner
      else if err = MAX_ACCOUNTS_DATA_ALLOCATIONS_EXCEEDED then MaxAccountsDataAllocationsExceeded
      else if err = INVALID_ACCOUNT_DATA_REALLOC then InvalidRealloc
      else if err = MAX_INSTRUCTION_TRACE_LENGTH_EXCEEDED then MaxInstructionTraceLengthExceeded
      else if err = BUILTIN_PROGRAMS_MUST_CONSUME_COMPUTE_UNITS then BuiltinProgramsMustConsumeComputeUnits
      else if err = INVALID_ACCOUNT_OWNER then InvalidAccountOwner
      else if err = ARITHMETIC_OVERFLOW then ArithmeticOverflow
      else if drop_bit 32 err = 0 then Custom (ucast err) else InvalidError)"

definition program_error_of_instruction_error :: "instruction_error \<Rightarrow> instruction_error + program_error" where
  "program_error_of_instruction_error err0 =
     (case err0 of
        Custom err \<Rightarrow> Inr (PE_Custom err)
      | InvalidArgument \<Rightarrow> Inr PE_InvalidArgument
      | InvalidInstructionData \<Rightarrow> Inr PE_InvalidInstructionData
      | InvalidAccountData \<Rightarrow> Inr PE_InvalidAccountData
      | AccountDataTooSmall \<Rightarrow> Inr PE_AccountDataTooSmall
      | InsufficientFunds \<Rightarrow> Inr PE_InsufficientFunds
      | IncorrectProgramId \<Rightarrow> Inr PE_IncorrectProgramId
      | MissingRequiredSignature \<Rightarrow> Inr PE_MissingRequiredSignature
      | AccountAlreadyInitialized \<Rightarrow> Inr PE_AccountAlreadyInitialized
      | UninitializedAccount \<Rightarrow> Inr PE_UninitializedAccount
      | NotEnoughAccountKeys \<Rightarrow> Inr PE_NotEnoughAccountKeys
      | AccountBorrowFailed \<Rightarrow> Inr PE_AccountBorrowFailed
      | MaxSeedLengthExceeded \<Rightarrow> Inr PE_MaxSeedLengthExceeded
      | InvalidSeeds \<Rightarrow> Inr PE_InvalidSeeds
      | BorshIoError err \<Rightarrow> Inr (PE_BorshIoError err)
      | AccountNotRentExempt \<Rightarrow> Inr PE_AccountNotRentExempt
      | UnsupportedSysvar \<Rightarrow> Inr PE_UnsupportedSysvar
      | IllegalOwner \<Rightarrow> Inr PE_IllegalOwner
      | MaxAccountsDataAllocationsExceeded \<Rightarrow> Inr PE_MaxAccountsDataAllocationsExceeded
      | InvalidRealloc \<Rightarrow> Inr PE_InvalidRealloc
      | MaxInstructionTraceLengthExceeded \<Rightarrow> Inr PE_MaxInstructionTraceLengthExceeded
      | BuiltinProgramsMustConsumeComputeUnits \<Rightarrow> Inr PE_BuiltinProgramsMustConsumeComputeUnits
      | InvalidAccountOwner \<Rightarrow> Inr PE_InvalidAccountOwner
      | ArithmeticOverflow \<Rightarrow> Inr PE_ArithmeticOverflow
      | _ \<Rightarrow> Inl err0)"

section \<open>System, pubkey and lamports errors\<close>

datatype system_error =
    SE_AccountAlreadyInUse
  | SE_ResultWithNegativeLamports
  | SE_InvalidProgramId
  | SE_InvalidAccountDataLength
  | SE_MaxSeedLengthExceeded
  | SE_AddressWithSeedMismatch
  | SE_NonceNoRecentBlockhashes
  | SE_NonceBlockhashNotExpired
  | SE_NonceUnexpectedBlockhashValue

fun system_error_to_u64 :: "system_error \<Rightarrow> u64" where
  "system_error_to_u64 SE_AccountAlreadyInUse = 0"
| "system_error_to_u64 SE_ResultWithNegativeLamports = 1"
| "system_error_to_u64 SE_InvalidProgramId = 2"
| "system_error_to_u64 SE_InvalidAccountDataLength = 3"
| "system_error_to_u64 SE_MaxSeedLengthExceeded = 4"
| "system_error_to_u64 SE_AddressWithSeedMismatch = 5"
| "system_error_to_u64 SE_NonceNoRecentBlockhashes = 6"
| "system_error_to_u64 SE_NonceBlockhashNotExpired = 7"
| "system_error_to_u64 SE_NonceUnexpectedBlockhashValue = 8"

definition of_system_error :: "system_error \<Rightarrow> instruction_error" where
  "of_system_error e = instruction_error_of_primitive (Some (system_error_to_u64 e))"

datatype pubkey_error =
    PK_MaxSeedLengthExceeded
  | PK_InvalidSeeds
  | PK_IllegalOwner

fun pubkey_error_to_u64 :: "pubkey_error \<Rightarrow> u64" where
  "pubkey_error_to_u64 PK_MaxSeedLengthExceeded = 0"
| "pubkey_error_to_u64 PK_InvalidSeeds = 1"
| "pubkey_error_to_u64 PK_IllegalOwner = 2"

text \<open>\<^verbatim>\<open>From<u64> for PubkeyError\<close>; \<^term>\<open>None\<close> is the panic of the last arm.\<close>

definition pubkey_error_of_u64 :: "u64 \<Rightarrow> pubkey_error option" where
  "pubkey_error_of_u64 err =
     (if err = 0 then Some PK_MaxSeedLengthExceeded
      else if err = 1 then Some PK_InvalidSeeds
      else None)"

definition of_pubkey_error :: "pubkey_error \<Rightarrow> instruction_error" where
  "of_pubkey_error e = instruction_error_of_primitive (Some (pubkey_error_to_u64 e))"

fun program_error_of_pubkey_error :: "pubkey_error \<Rightarrow> program_error" where
  "program_error_of_pubkey_error PK_MaxSeedLengthExceeded = PE_MaxSeedLengthExceeded"
| "program_error_of_pubkey_error PK_InvalidSeeds = PE_InvalidSeeds"
| "program_error_of_pubkey_error PK_IllegalOwner = PE_IllegalOwner"

datatype lamports_error = LE_ArithmeticUnderflow | LE_ArithmeticOverflow

fun of_lamports_error :: "lamports_error \<Rightarrow> instruction_error" where
  "of_lamports_error LE_ArithmeticOverflow = ArithmeticOverflow"
| "of_lamports_error LE_ArithmeticUnderflow = ArithmeticOverflow"

section \<open>The encodings\<close>

lemma program_error_of_small:
  assumes "w < 0x100000000"
  shows "program_error_of_u64 w = PE_Custom (ucast w)"
proof -
  have ne: "w \<noteq> n" if "0x100000000 \<le> n" for n using assms that by auto
  show ?thesis by (simp add: program_error_of_u64_def to_builtin_def ne)
qed

lemma instruction_error_of_small:
  assumes "w < 0x100000000"
  shows "instruction_error_of_primitive (Some w) = Custom (ucast w)"
proof -
  have "unat w < 2 ^ 32" using assms by (simp add: word_less_nat_alt)
  then have "drop_bit 32 w = 0"
    by (simp add: drop_bit_eq_div unat_div flip: unat_eq_0)
  moreover have ne: "w \<noteq> n" if "0x100000000 \<le> n" for n using assms that by auto
  ultimately show ?thesis
    by (simp add: instruction_error_of_primitive_def to_builtin_def ne)
qed

lemma ucast_u32_less: "(ucast (c :: u32) :: u64) < 0x100000000"
proof -
  have "unat c < 2 ^ LENGTH(32)" by (rule unsigned_less)
  then show ?thesis by (simp add: word_less_nat_alt unat_ucast_upward)
qed

lemma ucast_ucast_u32: "ucast (ucast (c :: u32) :: u64) = c"
  by (rule bit_word_eqI) (simp add: bit_ucast_iff)

text \<open>What survives of a program error once it has been a \<^verbatim>\<open>u64\<close>: all but a Borsh message.\<close>

fun forget_message :: "program_error \<Rightarrow> program_error" where
  "forget_message (PE_BorshIoError s) = PE_BorshIoError ''Unknown''"
| "forget_message e = e"

lemma custom_u64_round_trip:
  "program_error_of_u64 (u64_of_program_error (PE_Custom c)) = PE_Custom c"
  using program_error_of_small [OF ucast_u32_less, of c]
  by (simp add: ucast_ucast_u32) (simp add: program_error_of_u64_def)

lemma custom_instruction_round_trip:
  "instruction_error_of_primitive (Some (u64_of_program_error (PE_Custom c))) = Custom c"
  using instruction_error_of_small [OF ucast_u32_less, of c]
  by (simp add: ucast_ucast_u32) (simp add: instruction_error_of_primitive_def)

lemma program_error_u64_round_trip:
  "program_error_of_u64 (u64_of_program_error e) = forget_message e"
  by (cases e) (simp_all add: custom_u64_round_trip del: u64_of_program_error.simps(24),
      simp_all add: program_error_of_u64_def to_builtin_def)

lemma instruction_error_u64_round_trip:
  "program_error_of_instruction_error (instruction_error_of_primitive (Some (u64_of_program_error e)))
     = Inr (forget_message e)"
  by (cases e) (simp_all add: custom_instruction_round_trip del: u64_of_program_error.simps(24),
      simp_all add: instruction_error_of_primitive_def program_error_of_instruction_error_def
        to_builtin_def)

lemma system_error_Custom: "of_system_error e = Custom (ucast (system_error_to_u64 e))"
  unfolding of_system_error_def by (rule instruction_error_of_small) (cases e; simp)

lemma system_error_inj: "of_system_error e = of_system_error e' \<longleftrightarrow> e = e'"
  by (cases e; cases e'; simp add: system_error_Custom)

section \<open>Properties\<close>

text \<open>
  (C38) An error a program returns reaches its caller unchanged through the 64-bit return value:
  decoding the encoded error gives the error back, both as a program error and as the instruction
  error the runtime reports; only the message of a Borsh error is replaced.
\<close>

theorem program_error_survives_u64:
  "program_error_of_u64 (u64_of_program_error e) = forget_message e \<and>
   program_error_of_instruction_error (instruction_error_of_primitive (Some (u64_of_program_error e)))
     = Inr (forget_message e)"
  by (simp add: program_error_u64_round_trip instruction_error_u64_round_trip)

text \<open>
  The conversion of a numeric code back to a pubkey error is not the inverse of the numeric
  code: it panics on the code of the illegal-owner error, and inverts the other two.
\<close>

theorem pubkey_error_codes:
  "pubkey_error_of_u64 (pubkey_error_to_u64 e) = (if e = PK_IllegalOwner then None else Some e)"
  by (cases e) (simp_all add: pubkey_error_of_u64_def)

end
