(* ===== verification/Pubkeys.thy ===== *)
theory Pubkeys
  imports Errors
begin

text \<open>
  Addresses and hashes: \<^verbatim>\<open>sdk/program/src/pubkey.rs\<close> (parsing, derived addresses, program derived
  addresses and the bump search), the SHA-256 wrapper of \<^verbatim>\<open>sdk/program/src/hash.rs\<close>, and the ids
  of the programs and sysvars the rest of the development names, as the bytes their base58 strings
  denote.  SHA-256 itself (\<^verbatim>\<open>sha2\<close>), base58 (\<^verbatim>\<open>bs58\<close>) and the curve test (\<^verbatim>\<open>curve25519_dalek\<close>) are
  third-party crates and parameters here.
\<close>

section \<open>Keys and hashes\<close>

datatype pubkey = Pubkey (pk_bytes: bytes)

datatype hash = Hash (hash_bytes: bytes)

definition pubkey_default :: pubkey where
  "pubkey_default = Pubkey (replicate 32 0)"

definition hash_default :: hash where
  "hash_default = Hash (replicate 32 0)"

text \<open>
  A \<^verbatim>\<open>Hasher\<close> feeds every slice to one SHA-256 stream, so its result is the digest of their
  concatenation.
\<close>

definition hashv :: "(bytes \<Rightarrow> bytes) \<Rightarrow> bytes list \<Rightarrow> hash" where
  "hashv sha256 vals = Hash (sha256 (concat vals))"

abbreviation MAX_SEED_LEN :: nat where "MAX_SEED_LEN \<equiv> 32"
abbreviation MAX_SEEDS :: nat where "MAX_SEEDS \<equiv> 16"
abbreviation MAX_BASE58_LEN :: nat where "MAX_BASE58_LEN \<equiv> 44"

text \<open>The bytes of the literal \<^verbatim>\<open>ProgramDerivedAddress\<close>.\<close>

definition PDA_MARKER :: bytes where
  "PDA_MARKER = [80, 114, 111, 103, 114, 97, 109, 68, 101, 114, 105, 118, 101, 100,
     65, 100, 100, 114, 101, 115, 115]"

datatype parse_pubkey_error = WrongSize | Invalid

definition pubkey_of_bytes :: "bytes \<Rightarrow> pubkey option" where
  "pubkey_of_bytes v = (if length v = 32 then Some (Pubkey v) else None)"

definition pubkey_from_str :: "(string \<Rightarrow> bytes option) \<Rightarrow> string \<Rightarrow> parse_pubkey_error + pubkey" where
  "pubkey_from_str bs58_decode s =
     (if length s > MAX_BASE58_LEN then Inl WrongSize
      else case bs58_decode s of
        None \<Rightarrow> Inl Invalid
      | Some v \<Rightarrow> if length v \<noteq> 32 then Inl WrongSize else ok_or Invalid (pubkey_of_bytes v))"

section \<open>Derived addresses\<close>

definition create_with_seed ::
    "(bytes \<Rightarrow> bytes) \<Rightarrow> pubkey \<Rightarrow> bytes \<Rightarrow> pubkey \<Rightarrow> pubkey_error + pubkey" where
  "create_with_seed sha256 base seed owner =
     (if length seed > MAX_SEED_LEN then Inl PK_MaxSeedLengthExceeded
      else if length (pk_bytes owner) \<ge> length PDA_MARKER
           \<and> drop (length (pk_bytes owner) - length PDA_MARKER) (pk_bytes owner) = PDA_MARKER
      then Inl PK_IllegalOwner
      else Inr (Pubkey (hash_bytes (hashv sha256 [pk_bytes base, seed, pk_bytes owner]))))"

definition create_program_address ::
    "(bytes \<Rightarrow> bytes) \<Rightarrow> (bytes \<Rightarrow> bool) \<Rightarrow> bytes list \<Rightarrow> pubkey \<Rightarrow> pubkey_error + pubkey" where
  "create_program_address sha256 bytes_are_curve_point seeds program_id =
     (if length seeds > MAX_SEEDS then Inl PK_MaxSeedLengthExceeded
      else if list_ex (\<lambda>seed. length seed > MAX_SEED_LEN) seeds then Inl PK_MaxSeedLengthExceeded
      else let h = hashv sha256 (seeds @ [pk_bytes program_id, PDA_MARKER]) in
        if bytes_are_curve_point (hash_bytes h) then Inl PK_InvalidSeeds
        else Inr (Pubkey (hash_bytes h)))"

text \<open>
  The search loop: \<open>n\<close> iterations remain and the next bump seed is \<open>bump\<close>.  The source starts it
  with 255 iterations at bump 255.
\<close>

fun find_bump ::
    "(bytes \<Rightarrow> bytes) \<Rightarrow> (bytes \<Rightarrow> bool) \<Rightarrow> bytes list \<Rightarrow> pubkey \<Rightarrow> nat \<Rightarrow> u8 \<Rightarrow> (pubkey \<times> u8) option" where
  "find_bump sha256 on_curve seeds program_id 0 bump = None"
| "find_bump sha256 on_curve seeds program_id (Suc n) bump =
     (case create_program_address sha256 on_curve (seeds @ [[bump]]) program_id of
        Inr address \<Rightarrow> Some (address, bump)
      | Inl PK_InvalidSeeds \<Rightarrow> find_bump sha256 on_curve seeds program_id n (bump - 1)
      | Inl _ \<Rightarrow> None)"

definition try_find_program_address ::
    "(bytes \<Rightarrow> bytes) \<Rightarrow> (bytes \<Rightarrow> bool) \<Rightarrow> bytes list \<Rightarrow> pubkey \<Rightarrow> (pubkey \<times> u8) option" where
  "try_find_program_address sha256 on_curve seeds program_id =
     find_bump sha256 on_curve seeds program_id 255 255"

section \<open>Program and sysvar ids\<close>

definition system_program_id :: pubkey where
  "system_program_id = Pubkey
     (replicate 32 0)"

definition native_loader_id :: pubkey where
  "native_loader_id = Pubkey
     [5, 135, 132, 191, 20, 139, 164, 40, 47, 176, 18, 87, 72, 136, 169, 241,
      83, 160, 125, 173, 247, 101, 192, 69, 92, 154, 151, 3, 128, 0, 0, 0]"

definition bpf_loader_upgradeable_id :: pubkey where
  "bpf_loader_upgradeable_id = Pubkey
     [2, 168, 246, 145, 78, 136, 161, 176, 226, 16, 21, 62, 247, 99, 174, 43,
      0, 194, 185, 61, 22, 193, 36, 210, 192, 83, 122, 16, 4, 128, 0, 0]"

definition bpf_loader_id :: pubkey where
  "bpf_loader_id = Pubkey
     [2, 168, 246, 145, 78, 136, 161, 110, 57, 90, 225, 40, 148, 143, 250, 105,
      86, 147, 55, 104, 24, 221, 71, 67, 82, 33, 243, 198, 0, 0, 0, 0]"

definition bpf_loader_deprecated_id :: pubkey where
  "bpf_loader_deprecated_id = Pubkey
     [2, 168, 246, 145, 78, 136, 161, 107, 189, 35, 149, 133, 95, 100, 4, 217,
      180, 244, 86, 183, 130, 27, 176, 20, 87, 73, 66, 140, 0, 0, 0, 0]"

definition loader_v4_id :: pubkey where
  "loader_v4_id = Pubkey
     [5, 18, 180, 17, 81, 81, 227, 122, 173, 10, 139, 197, 211, 136, 46, 123,
      127, 218, 76, 243, 210, 192, 40, 200, 207, 131, 54, 24, 0, 0, 0, 0]"

definition config_program_id :: pubkey where
  "config_program_id = Pubkey
     [3, 6, 74, 163, 0, 47, 116, 220, 200, 110, 67, 49, 15, 12, 5, 42,
      248, 197, 218, 39, 246, 16, 64, 25, 163, 35, 239, 160, 0, 0, 0, 0]"

definition feature_id :: pubkey where
  "feature_id = Pubkey
     [3, 192, 160, 205, 203, 6, 210, 218, 239, 174, 130, 209, 111, 238, 122, 207,
      97, 236, 115, 123, 35, 72, 27, 33, 148, 106, 118, 112, 0, 0, 0, 0]"

definition stake_program_id :: pubkey where
  "stake_program_id = Pubkey
     [6, 161, 216, 23, 145, 55, 84, 42, 152, 52, 55, 189, 254, 42, 122, 178,
      85, 127, 83, 92, 138, 120, 114, 43, 104, 164, 157, 192, 0, 0, 0, 0]"

definition stake_config_id :: pubkey where
  "stake_config_id = Pubkey
     [6, 161, 216, 23, 165, 2, 5, 11, 104, 7, 145, 230, 206, 109, 184, 142,
      30, 91, 113, 80, 246, 31, 198, 121, 10, 78, 180, 209, 0, 0, 0, 0]"

definition fees_sysvar_id :: pubkey where
  "fees_sysvar_id = Pubkey
     [6, 167, 213, 23, 24, 226, 90, 141, 131, 80, 60, 37, 26, 122, 240, 113,
      38, 253, 114, 0, 223, 111, 196, 237, 82, 106, 156, 144, 0, 0, 0, 0]"

definition rewards_sysvar_id :: pubkey where
  "rewards_sysvar_id = Pubkey
     [6, 167, 213, 23, 25, 44, 97, 55, 206, 224, 146, 217, 182, 146, 62, 225,
      204, 214, 25, 3, 250, 130, 184, 161, 97, 145, 87, 141, 128, 0, 0, 0]"

definition slot_history_sysvar_id :: pubkey where
  "slot_history_sysvar_id = Pubkey
     [6, 167, 213, 23, 25, 47, 10, 175, 200, 117, 226, 225, 132, 87, 124, 80,
      105, 207, 200, 70, 73, 227, 235, 146, 120, 47, 149, 141, 72, 0, 0, 0]"

definition stake_history_sysvar_id :: pubkey where
  "stake_history_sysvar_id = Pubkey
     [6, 167, 213, 23, 25, 53, 132, 208, 254, 237, 155, 179, 67, 29, 19, 32,
      107, 229, 68, 40, 27, 87, 184, 86, 108, 197, 55, 95, 244, 0, 0, 0]"

definition secp256k1_program_id :: pubkey where
  "secp256k1_program_id = Pubkey
     [4, 198, 252, 32, 240, 80, 204, 240, 85, 132, 215, 33, 28, 159, 140, 245,
      158, 193, 71, 133, 187, 22, 106, 30, 40, 48, 232, 18, 32, 0, 0, 0]"

definition ed25519_program_id :: pubkey where
  "ed25519_program_id = Pubkey
     [3, 125, 70, 214, 124, 147, 251, 190, 18, 249, 66, 143, 131, 141, 64, 255,
      5, 112, 116, 73, 39, 244, 138, 100, 252, 202, 112, 68, 128, 0, 0, 0]"

definition compute_budget_program_id :: pubkey where
  "compute_budget_program_id = Pubkey
     [3, 6, 70, 111, 229, 33, 23, 50, 255, 236, 173, 186, 114, 195, 155, 231,
      188, 140, 229, 187, 197, 247, 18, 107, 44, 67, 155, 58, 64, 0, 0, 0]"

definition sonic_account_migrater_id :: pubkey where
  "sonic_account_migrater_id = Pubkey
     [6, 156, 108, 129, 67, 69, 216, 91, 5, 20, 189, 222, 133, 252, 106, 67,
      97, 245, 212, 125, 235, 215, 227, 137, 245, 31, 43, 90, 113, 128, 0, 0]"

definition vote_program_id :: pubkey where
  "vote_program_id = Pubkey
     [7, 97, 72, 29, 53, 116, 116, 187, 124, 77, 118, 36, 235, 211, 189, 179,
      216, 53, 94, 115, 209, 16, 67, 252, 13, 163, 83, 128, 0, 0, 0, 0]"

definition address_lookup_table_id :: pubkey where
  "address_lookup_table_id = Pubkey
     [2, 119, 166, 175, 151, 51, 155, 122, 200, 141, 24, 146, 201, 4, 70, 245,
      0, 2, 48, 146, 102, 246, 46, 83, 193, 24, 36, 73, 130, 0, 0, 0]"

definition sysvar_owner_id :: pubkey where
  "sysvar_owner_id = Pubkey
     [6, 167, 213, 23, 24, 117, 247, 41, 199, 61, 147, 64, 143, 33, 97, 32,
      6, 126, 216, 140, 118, 224, 140, 40, 127, 193, 148, 96, 0, 0, 0, 0]"

definition instructions_sysvar_id :: pubkey where
  "instructions_sysvar_id = Pubkey
     [6, 167, 213, 23, 24, 123, 209, 102, 53, 218, 212, 4, 85, 253, 194, 192,
      193, 36, 198, 143, 33, 86, 117, 165, 219, 186, 203, 95, 8, 0, 0, 0]"

definition clock_sysvar_id :: pubkey where
  "clock_sysvar_id = Pubkey
     [6, 167, 213, 23, 24, 199, 116, 201, 40, 86, 99, 152, 105, 29, 94, 182,
      139, 94, 184, 163, 155, 75, 109, 92, 115, 85, 91, 33, 0, 0, 0, 0]"

definition rent_sysvar_id :: pubkey where
  "rent_sysvar_id = Pubkey
     [6, 167, 213, 23, 25, 44, 92, 81, 33, 140, 201, 76, 61, 74, 241, 127,
      88, 218, 238, 8, 155, 161, 253, 68, 227, 219, 217, 138, 0, 0, 0, 0]"

definition recent_blockhashes_sysvar_id :: pubkey where
  "recent_blockhashes_sysvar_id = Pubkey
     [6, 167, 213, 23, 25, 44, 86, 142, 224, 138, 132, 95, 115, 210, 151, 136,
      207, 3, 92, 49, 69, 178, 26, 179, 68, 216, 6, 46, 169, 64, 0, 0]"

definition slot_hashes_sysvar_id :: pubkey where
  "slot_hashes_sysvar_id = Pubkey
     [6, 167, 213, 23, 25, 47, 10, 175, 198, 242, 101, 227, 251, 119, 204, 122,
      218, 130, 197, 41, 208, 190, 59, 19, 110, 45, 0, 85, 32, 0, 0, 0]"

definition epoch_schedule_sysvar_id :: pubkey where
  "epoch_schedule_sysvar_id = Pubkey
     [6, 167, 213, 23, 24, 220, 63, 238, 2, 211, 228, 127, 1, 0, 248, 176,
      84, 247, 148, 46, 96, 89, 30, 63, 80, 135, 25, 168, 5, 0, 0, 0]"

section \<open>Derived addresses are off the curve and reproducible\<close>

lemma create_program_address_off_curve:
  "create_program_address sha256 on_curve seeds pid = Inr a \<Longrightarrow> \<not> on_curve (pk_bytes a)"
  by (auto simp: create_program_address_def Let_def split: if_splits)

lemma create_program_address_bounds:
  "create_program_address sha256 on_curve seeds pid = Inr a \<Longrightarrow>
     length seeds \<le> MAX_SEEDS \<and> (\<forall>s \<in> set seeds. length s \<le> MAX_SEED_LEN)"
  by (auto simp: create_program_address_def list_ex_iff Let_def split: if_splits)

text \<open>A search of \<open>n\<close> steps from \<open>bump\<close> returns the first bump below it that is off the curve.\<close>

lemma find_bump_found:
  assumes "find_bump sha256 on_curve seeds pid n bump = Some (a, b)" and "n \<le> unat bump"
  shows "create_program_address sha256 on_curve (seeds @ [[b]]) pid = Inr a \<and>
    unat bump - n < unat b \<and> b \<le> bump \<and>
    (\<forall>c. b < c \<and> c \<le> bump \<longrightarrow>
      create_program_address sha256 on_curve (seeds @ [[c]]) pid = Inl PK_InvalidSeeds)"
  using assms
proof (induction n arbitrary: bump)
  case (Suc n)
  let ?r = "create_program_address sha256 on_curve (seeds @ [[bump]]) pid"
  from Suc.prems(2) have pos: "0 < unat bump" by simp
  then have dec: "unat (bump - 1) = unat bump - 1" by (intro unat_minus_one) auto
  consider "?r = Inr a" "b = bump"
    | "?r = Inl PK_InvalidSeeds" "find_bump sha256 on_curve seeds pid n (bump - 1) = Some (a, b)"
    using Suc.prems(1) by (auto split: sum.splits pubkey_error.splits)
  then show ?case
  proof cases
    case 1
    with Suc.prems(2) show ?thesis by auto
  next
    case 2
    with Suc.prems(2) dec have IH: "create_program_address sha256 on_curve (seeds @ [[b]]) pid = Inr a"
        "unat (bump - 1) - n < unat b" "b \<le> bump - 1"
        "\<forall>c. b < c \<and> c \<le> bump - 1 \<longrightarrow>
          create_program_address sha256 on_curve (seeds @ [[c]]) pid = Inl PK_InvalidSeeds"
      using Suc.IH [of "bump - 1"] by auto
    have "c \<le> bump - 1 \<or> c = bump" if "c \<le> bump" for c
      using that dec pos by (auto simp: word_le_nat_alt intro: word_unat_eq_iff [THEN iffD2])
    with IH dec 2(1) pos show ?thesis
      by (auto simp: word_le_nat_alt)
  qed
qed simp

text \<open>The search fails only when every bump from 255 down to 1 was rejected, or the seeds are out of bounds.\<close>

lemma find_bump_None:
  assumes "find_bump sha256 on_curve seeds pid n bump = None" and "n \<le> unat bump"
    and "unat bump - n < unat c" and "c \<le> bump"
  shows "\<exists>e. create_program_address sha256 on_curve (seeds @ [[c]]) pid = Inl e"
  using assms
proof (induction n arbitrary: bump)
  case (Suc n)
  let ?r = "\<lambda>c. create_program_address sha256 on_curve (seeds @ [[c]]) pid"
  from Suc.prems(2) have pos: "0 < unat bump" by simp
  then have dec: "unat (bump - 1) = unat bump - 1" by (intro unat_minus_one) auto
  have seeds_only: "?r bump = Inl PK_MaxSeedLengthExceeded \<Longrightarrow> ?r c = Inl PK_MaxSeedLengthExceeded"
    by (auto simp: create_program_address_def Let_def split: if_splits)
  have not_illegal: "?r bump \<noteq> Inl PK_IllegalOwner"
    by (auto simp: create_program_address_def Let_def)
  from Suc.prems(1) not_illegal consider "?r bump = Inl PK_MaxSeedLengthExceeded"
    | "?r bump = Inl PK_InvalidSeeds" "find_bump sha256 on_curve seeds pid n (bump - 1) = None"
    by (auto split: sum.splits pubkey_error.splits)
  then show ?case
  proof cases
    case 1
    with seeds_only show ?thesis by blast
  next
    case 2
    show ?thesis
    proof (cases "c = bump")
      case False
      with Suc.prems(4) dec pos have "c \<le> bump - 1"
        by (auto simp: word_le_nat_alt word_unat_eq_iff)
      with 2(2) Suc.prems(2,3) dec show ?thesis
        using Suc.IH [of "bump - 1"] by auto
    qed (use 2 in auto)
  qed
qed (simp add: word_le_nat_alt)

lemma u8_le_255: "(c :: u8) \<le> 255"
  using unsigned_less [of c, where 'a = nat] by (simp add: word_le_nat_alt)

section \<open>Properties\<close>

text \<open>
  (C39) The address search returns an address that lies off the curve and that
  \<^verbatim>\<open>create_program_address\<close> reproduces from the returned bump seed, and the returned bump is the
  largest one that works.
\<close>

theorem try_find_program_address_sound:
  assumes "try_find_program_address sha256 on_curve seeds pid = Some (a, bump)"
  shows "create_program_address sha256 on_curve (seeds @ [[bump]]) pid = Inr a \<and>
    \<not> on_curve (pk_bytes a) \<and> 0 < bump \<and>
    (\<forall>c. bump < c \<longrightarrow>
      create_program_address sha256 on_curve (seeds @ [[c]]) pid = Inl PK_InvalidSeeds)"
proof -
  from assms have "find_bump sha256 on_curve seeds pid 255 255 = Some (a, bump)"
    by (simp add: try_find_program_address_def)
  from find_bump_found [OF this] u8_le_255 show ?thesis
    by (auto simp: word_gt_0 create_program_address_off_curve)
qed

theorem try_find_program_address_sound_witness:
  "create_program_address (take 1) (\<lambda>b. b = [255]) [[254]] (Pubkey []) = Inr (Pubkey [254])"
proof -
  have one: "find_bump (take 1) (\<lambda>b. b = [255]) [] (Pubkey []) (Suc (Suc n)) 255 = Some (Pubkey [254], 254)" for n
    by (simp add: create_program_address_def hashv_def)
  have "try_find_program_address (take 1) (\<lambda>b. b = [255]) [] (Pubkey []) = Some (Pubkey [254], 254)"
    using one [of 253] by (simp add: try_find_program_address_def)
  from try_find_program_address_sound [OF this] show ?thesis by simp
qed

text \<open>
  (C40) The search gives up only when no bump seed from 1 to 255 yields an address.
\<close>

theorem try_find_program_address_complete:
  assumes "try_find_program_address sha256 on_curve seeds pid = None" and "0 < bump"
  shows "\<exists>e. create_program_address sha256 on_curve (seeds @ [[bump]]) pid = Inl e"
proof -
  from assms u8_le_255 [of bump] show ?thesis
    by (intro find_bump_None [where n = 255 and bump = 255])
      (simp_all add: try_find_program_address_def word_gt_0 unat_gt_0)
qed

theorem try_find_program_address_complete_witness:
  "\<exists>e. create_program_address (\<lambda>b. b) (\<lambda>_. False) (replicate 16 [] @ [[7]]) (Pubkey []) = Inl e"
proof -
  have "find_bump (\<lambda>b. b) (\<lambda>_. False) (replicate 16 []) (Pubkey []) (Suc n) 255 = None" for n
    by (simp add: create_program_address_def)
  from this [of 254] have "try_find_program_address (\<lambda>b. b) (\<lambda>_. False) (replicate 16 []) (Pubkey []) = None"
    by (simp add: try_find_program_address_def)
  from try_find_program_address_complete [OF this, of 7] show ?thesis by simp
qed

end
