(* ===== verification/Account.thy ===== *)
theory Account
  imports Pubkeys
begin

text \<open>
  Accounts (\<^verbatim>\<open>sdk/src/account.rs\<close>).  \<^verbatim>\<open>Account\<close> is a record and \<^verbatim>\<open>AccountSharedData\<close> extends it by the
  flag \<open>acct_remote\<close> that this fork adds; the traits \<^verbatim>\<open>ReadableAccount\<close> and \<^verbatim>\<open>WritableAccount\<close> are
  functions on the record scheme, so each models both implementations.  The data of a shared
  account sits behind an \<^verbatim>\<open>Arc\<close> with copy on write, which is a value.  The codec of a serialized state
  (\<^verbatim>\<open>bincode\<close>) is a parameter: an encoder and a decoder that may both fail.
\<close>

section \<open>The records\<close>

record account =
  acct_lamports :: u64
  acct_data :: bytes
  acct_owner :: pubkey
  acct_executable :: bool
  acct_rent_epoch :: u64

record account_shared_data = account +
  acct_remote :: bool

definition accounts_equal :: "'a account_scheme \<Rightarrow> 'b account_scheme \<Rightarrow> bool" where
  "accounts_equal me other \<longleftrightarrow>
     acct_lamports me = acct_lamports other \<and>
     acct_executable me = acct_executable other \<and>
     acct_rent_epoch me = acct_rent_epoch other \<and>
     acct_owner me = acct_owner other \<and>
     acct_data me = acct_data other"

definition account_of_shared :: "account_shared_data \<Rightarrow> account" where
  "account_of_shared other =
     \<lparr>acct_lamports = acct_lamports other, acct_data = acct_data other,
      acct_owner = acct_owner other, acct_executable = acct_executable other,
      acct_rent_epoch = acct_rent_epoch other\<rparr>"

definition shared_of_account :: "account \<Rightarrow> account_shared_data" where
  "shared_of_account other =
     \<lparr>acct_lamports = acct_lamports other, acct_data = acct_data other,
      acct_owner = acct_owner other, acct_executable = acct_executable other,
      acct_rent_epoch = acct_rent_epoch other, acct_remote = False\<rparr>"

definition account_create :: "u64 \<Rightarrow> bytes \<Rightarrow> pubkey \<Rightarrow> bool \<Rightarrow> u64 \<Rightarrow> account" where
  "account_create l d own exec epoch =
     \<lparr>acct_lamports = l, acct_data = d, acct_owner = own, acct_executable = exec,
      acct_rent_epoch = epoch\<rparr>"

definition shared_create :: "u64 \<Rightarrow> bytes \<Rightarrow> pubkey \<Rightarrow> bool \<Rightarrow> u64 \<Rightarrow> account_shared_data" where
  "shared_create l d own exec epoch =
     \<lparr>acct_lamports = l, acct_data = d, acct_owner = own, acct_executable = exec,
      acct_rent_epoch = epoch, acct_remote = False\<rparr>"

definition shared_default :: account_shared_data where
  "shared_default = shared_create 0 [] pubkey_default False 0"

text \<open>
  The three \<^verbatim>\<open>to_account_shared_data\<close>: the trait's default, the clone of the shared account, and
  the one of a borrowed \<^verbatim>\<open>Ref\<close>.
\<close>

definition to_account_shared_data :: "'a account_scheme \<Rightarrow> account_shared_data" where
  "to_account_shared_data a =
     shared_create (acct_lamports a) (acct_data a) (acct_owner a) (acct_executable a)
       (acct_rent_epoch a)"

definition shared_to_account_shared_data :: "account_shared_data \<Rightarrow> account_shared_data" where
  "shared_to_account_shared_data a = a"

definition ref_to_account_shared_data :: "account_shared_data \<Rightarrow> account_shared_data" where
  "ref_to_account_shared_data a =
     \<lparr>acct_lamports = acct_lamports a, acct_data = acct_data a, acct_owner = acct_owner a,
      acct_executable = acct_executable a, acct_rent_epoch = acct_rent_epoch a,
      acct_remote = False\<rparr>"

section \<open>Writable accounts\<close>

definition acct_checked_add_lamports :: "u64 \<Rightarrow> 'a account_scheme \<Rightarrow> lamports_error + 'a account_scheme" where
  "acct_checked_add_lamports l a =
     (case checked_add (acct_lamports a) l of
        None \<Rightarrow> Inl LE_ArithmeticOverflow
      | Some n \<Rightarrow> Inr (a\<lparr>acct_lamports := n\<rparr>))"

definition acct_checked_sub_lamports :: "u64 \<Rightarrow> 'a account_scheme \<Rightarrow> lamports_error + 'a account_scheme" where
  "acct_checked_sub_lamports l a =
     (case checked_sub (acct_lamports a) l of
        None \<Rightarrow> Inl LE_ArithmeticUnderflow
      | Some n \<Rightarrow> Inr (a\<lparr>acct_lamports := n\<rparr>))"

definition acct_saturating_add_lamports :: "u64 \<Rightarrow> 'a account_scheme \<Rightarrow> 'a account_scheme" where
  "acct_saturating_add_lamports l a = a\<lparr>acct_lamports := saturating_add (acct_lamports a) l\<rparr>"

definition acct_saturating_sub_lamports :: "u64 \<Rightarrow> 'a account_scheme \<Rightarrow> 'a account_scheme" where
  "acct_saturating_sub_lamports l a = a\<lparr>acct_lamports := saturating_sub (acct_lamports a) l\<rparr>"

definition acct_copy_into_owner_from_slice :: "bytes \<Rightarrow> 'a account_scheme \<Rightarrow> 'a account_scheme option" where
  "acct_copy_into_owner_from_slice source a =
     (if length source = length (pk_bytes (acct_owner a))
      then Some (a\<lparr>acct_owner := Pubkey source\<rparr>) else None)"

definition acct_resize :: "nat \<Rightarrow> u8 \<Rightarrow> 'a account_scheme \<Rightarrow> 'a account_scheme" where
  "acct_resize new_len v a = a\<lparr>acct_data := vec_resize new_len v (acct_data a)\<rparr>"

definition acct_extend_from_slice :: "bytes \<Rightarrow> 'a account_scheme \<Rightarrow> 'a account_scheme" where
  "acct_extend_from_slice d a = a\<lparr>acct_data := acct_data a @ d\<rparr>"

definition acct_set_data :: "bytes \<Rightarrow> 'a account_scheme \<Rightarrow> 'a account_scheme" where
  "acct_set_data d a = a\<lparr>acct_data := d\<rparr>"

text \<open>
  \<open>shared\<close> says that the buffer has another owner.  The in-place path empties the vector, copies the
  new bytes over the buffer and sets the length.
\<close>

definition acct_set_data_from_slice :: "bool \<Rightarrow> bytes \<Rightarrow> 'a account_scheme \<Rightarrow> 'a account_scheme" where
  "acct_set_data_from_slice shared new_data a =
     (if shared then acct_set_data new_data a
      else let new_len = length new_data;
               buffer = vec_resize (max new_len (length (acct_data a))) 0 (acct_data a);
               copied = new_data @ drop new_len buffer
           in a\<lparr>acct_data := take new_len copied\<rparr>)"

section \<open>Constructors\<close>

definition account_new :: "u64 \<Rightarrow> nat \<Rightarrow> pubkey \<Rightarrow> account" where
  "account_new l space own = account_create l (replicate space 0) own False 0"

definition shared_new :: "u64 \<Rightarrow> nat \<Rightarrow> pubkey \<Rightarrow> account_shared_data" where
  "shared_new l space own = shared_create l (replicate space 0) own False 0"

definition shared_new_rent_epoch :: "u64 \<Rightarrow> nat \<Rightarrow> pubkey \<Rightarrow> u64 \<Rightarrow> account_shared_data" where
  "shared_new_rent_epoch l space own epoch = shared_create l (replicate space 0) own False epoch"

section \<open>Serialized state\<close>

text \<open>
  A codec stands for \<^verbatim>\<open>bincode\<close> at one type.  \<open>c_encode\<close> is \<^verbatim>\<open>bincode::serialize\<close> and
  \<^verbatim>\<open>serialized_size\<close> is the length of its result; \<^verbatim>\<open>serialize_into\<close> a slice overwrites a prefix of it.
\<close>

record 'a codec =
  c_encode :: "'a \<Rightarrow> bytes option"
  c_decode :: "bytes \<Rightarrow> 'a option"

datatype bincode_error = BincodeSizeLimit | BincodeOther

text \<open>Documented behaviour of \<^verbatim>\<open>bincode::deserialize\<close>: it reads back what was written and ignores trailing bytes.\<close>

definition codec_round_trip :: "'a codec \<Rightarrow> bool" where
  "codec_round_trip c \<longleftrightarrow> (\<forall>s b rest. c_encode c s = Some b \<longrightarrow> c_decode c (b @ rest) = Some s)"

definition overwrite_prefix :: "bytes \<Rightarrow> bytes \<Rightarrow> bytes" where
  "overwrite_prefix b d = b @ drop (length b) d"

definition shared_new_data :: "'a codec \<Rightarrow> u64 \<Rightarrow> 'a \<Rightarrow> pubkey \<Rightarrow> bincode_error + account_shared_data" where
  "shared_new_data c l state own =
     (case c_encode c state of
        None \<Rightarrow> Inl BincodeOther
      | Some d \<Rightarrow> Inr (shared_create l d own False 0))"

definition shared_deserialize_data :: "'a codec \<Rightarrow> 'b account_scheme \<Rightarrow> bincode_error + 'a" where
  "shared_deserialize_data c a = ok_or BincodeOther (c_decode c (acct_data a))"

definition shared_serialize_data :: "'a codec \<Rightarrow> 'a \<Rightarrow> 'b account_scheme \<Rightarrow> bincode_error + 'b account_scheme" where
  "shared_serialize_data c state a =
     (case c_encode c state of
        None \<Rightarrow> Inl BincodeOther
      | Some b \<Rightarrow>
          if length b > length (acct_data a) then Inl BincodeSizeLimit
          else Inr (a\<lparr>acct_data := overwrite_prefix b (acct_data a)\<rparr>))"

definition shared_new_data_with_space ::
    "'a codec \<Rightarrow> u64 \<Rightarrow> 'a \<Rightarrow> nat \<Rightarrow> pubkey \<Rightarrow> bincode_error + account_shared_data" where
  "shared_new_data_with_space c l state space own = shared_serialize_data c state (shared_new l space own)"

section \<open>Facts\<close>

lemma length_overwrite_prefix [simp]:
  "length b \<le> length d \<Longrightarrow> length (overwrite_prefix b d) = length d"
  by (simp add: overwrite_prefix_def)

lemma codec_overwrite:
  "codec_round_trip c \<Longrightarrow> c_encode c s = Some b \<Longrightarrow> c_decode c (overwrite_prefix b d) = Some s"
  by (simp add: codec_round_trip_def overwrite_prefix_def)

lemma acct_set_data_from_slice_eq: "acct_set_data_from_slice shared d a = acct_set_data d a"
  by (simp add: acct_set_data_from_slice_def acct_set_data_def)

lemma shared_serialize_deserialize:
  assumes "codec_round_trip c" and "shared_serialize_data c s a = Inr a'"
  shows "shared_deserialize_data c a' = Inr s \<and> length (acct_data a') = length (acct_data a)"
  using assms
  by (auto simp: shared_serialize_data_def shared_deserialize_data_def codec_overwrite
      split: option.splits if_splits)

lemma shared_round_trip:
  "account_of_shared (shared_of_account a) = a"
  "shared_of_account (account_of_shared s) = s\<lparr>acct_remote := False\<rparr>"
  by (simp_all add: account_of_shared_def shared_of_account_def)

lemma ref_to_account_forgets_remote:
  "ref_to_account_shared_data a = a\<lparr>acct_remote := False\<rparr>"
  by (simp add: ref_to_account_shared_data_def)

end
