(* ===== verification/Transaction_Context.thy ===== *)
theory Transaction_Context
  imports Account Rent
begin

text \<open>
  \<^verbatim>\<open>sdk/src/transaction_context.rs\<close>: the accounts of a transaction, the stack and the trace of its
  instructions, and the accounts a program borrows from them.  The state is the record
  \<open>transaction_context\<close>; accounts are \<^verbatim>\<open>RefCell\<close>s with their borrow flag.  A \<^verbatim>\<open>BorrowedAccount\<close> is a
  handle (the instruction context and the two indices), its methods are actions on the transaction
  context, and \<open>with_borrowed\<close> is the scope of the handle: it takes the mutable borrow, runs the
  body and gives the borrow back, also when the body fails.  The \<^verbatim>\<open>RefCell\<close>s around the touched
  flags and the resize delta are never held across a call, so their borrows cannot fail and they
  are plain fields.  Vector lengths fit an \<^verbatim>\<open>isize\<close>, so \<^verbatim>\<open>len() as i64\<close> is the length.
  Debug assertions are left out, as in a release build.
\<close>

section \<open>State\<close>

record instruction_account =
  ia_index_in_transaction :: nat
  ia_index_in_caller :: nat
  ia_index_in_callee :: nat
  ia_is_signer :: bool
  ia_is_writable :: bool

record transaction_accounts =
  ta_accounts :: "account_shared_data ref_cell list"
  ta_touched_flags :: "bool list"

record instruction_context =
  ic_nesting_level :: nat
  ic_instruction_accounts_lamport_sum :: u128
  ic_program_accounts :: "nat list"
  ic_instruction_accounts :: "instruction_account list"
  ic_instruction_data :: bytes

definition instruction_context_default :: instruction_context where
  "instruction_context_default =
     \<lparr>ic_nesting_level = 0, ic_instruction_accounts_lamport_sum = 0, ic_program_accounts = [],
      ic_instruction_accounts = [], ic_instruction_data = []\<rparr>"

record transaction_return_data =
  rd_program_id :: pubkey
  rd_data :: bytes

record transaction_context =
  tc_account_keys :: "pubkey list"
  tc_accounts :: transaction_accounts
  tc_instruction_stack_capacity :: nat
  tc_instruction_trace_capacity :: nat
  tc_instruction_stack :: "nat list"
  tc_instruction_trace :: "instruction_context list"
  tc_return_data :: transaction_return_data
  tc_accounts_resize_delta :: int
  tc_rent :: rent

type_synonym 'a tx_action = "(transaction_context, instruction_error, 'a) action"

abbreviation MAX_PERMITTED_DATA_LENGTH :: nat where
  "MAX_PERMITTED_DATA_LENGTH \<equiv> 10 * 1024 * 1024"

abbreviation MAX_PERMITTED_ACCOUNTS_DATA_ALLOCATIONS_PER_TRANSACTION :: int where
  "MAX_PERMITTED_ACCOUNTS_DATA_ALLOCATIONS_PER_TRANSACTION \<equiv> int MAX_PERMITTED_DATA_LENGTH * 2"

section \<open>TransactionAccounts\<close>

definition ta_new :: "account_shared_data ref_cell list \<Rightarrow> transaction_accounts" where
  "ta_new accounts =
     \<lparr>ta_accounts = accounts, ta_touched_flags = replicate (length accounts) False\<rparr>"

definition ta_get :: "transaction_accounts \<Rightarrow> nat \<Rightarrow> account_shared_data ref_cell option" where
  "ta_get ta index = get (ta_accounts ta) index"

definition ta_touch :: "transaction_accounts \<Rightarrow> nat \<Rightarrow> instruction_error + transaction_accounts" where
  "ta_touch ta index =
     (if index < length (ta_touched_flags ta)
      then Inr (ta\<lparr>ta_touched_flags := (ta_touched_flags ta)[index := True]\<rparr>)
      else Inl NotEnoughAccountKeys)"

definition ta_touched_count :: "transaction_accounts \<Rightarrow> nat" where
  "ta_touched_count ta =
     foldl (\<lambda>accumulator was_touched. accumulator + of_bool was_touched) 0 (ta_touched_flags ta)"

definition ta_into_accounts :: "transaction_accounts \<Rightarrow> account_shared_data list" where
  "ta_into_accounts ta = map rc_value (ta_accounts ta)"

section \<open>TransactionContext: construction and lookup\<close>

definition transaction_context_new ::
    "(pubkey \<times> account_shared_data) list \<Rightarrow> rent \<Rightarrow> nat \<Rightarrow> nat \<Rightarrow> transaction_context" where
  "transaction_context_new transaction_accounts rent stack_capacity trace_capacity =
     \<lparr>tc_account_keys = map fst transaction_accounts,
      tc_accounts = ta_new (map (ref_cell_new \<circ> snd) transaction_accounts),
      tc_instruction_stack_capacity = stack_capacity,
      tc_instruction_trace_capacity = trace_capacity,
      tc_instruction_stack = [],
      tc_instruction_trace = [instruction_context_default],
      tc_return_data = \<lparr>rd_program_id = pubkey_default, rd_data = []\<rparr>,
      tc_accounts_resize_delta = 0,
      tc_rent = rent\<rparr>"

definition deconstruct_without_keys ::
    "transaction_context \<Rightarrow> instruction_error + account_shared_data list" where
  "deconstruct_without_keys tc =
     (if tc_instruction_stack tc \<noteq> [] then Inl CallDepth
      else Inr (ta_into_accounts (tc_accounts tc)))"

definition get_number_of_accounts :: "transaction_context \<Rightarrow> nat" where
  "get_number_of_accounts tc = as_u16 (length (ta_accounts (tc_accounts tc)))"

definition get_key_of_account_at_index :: "transaction_context \<Rightarrow> nat \<Rightarrow> instruction_error + pubkey" where
  "get_key_of_account_at_index tc index = ok_or NotEnoughAccountKeys (get (tc_account_keys tc) index)"

definition get_account_at_index ::
    "transaction_context \<Rightarrow> nat \<Rightarrow> instruction_error + account_shared_data ref_cell" where
  "get_account_at_index tc index = ok_or NotEnoughAccountKeys (ta_get (tc_accounts tc) index)"

definition find_index_of_account :: "transaction_context \<Rightarrow> pubkey \<Rightarrow> nat option" where
  "find_index_of_account tc pubkey =
     map_option as_u16 (position (\<lambda>key. key = pubkey) (tc_account_keys tc))"

definition find_index_of_program_account :: "transaction_context \<Rightarrow> pubkey \<Rightarrow> nat option" where
  "find_index_of_program_account tc pubkey =
     map_option as_u16 (rposition (\<lambda>key. key = pubkey) (tc_account_keys tc))"

definition get_instruction_trace_length :: "transaction_context \<Rightarrow> nat" where
  "get_instruction_trace_length tc = length (tc_instruction_trace tc) - 1"

definition get_instruction_context_at_index_in_trace ::
    "transaction_context \<Rightarrow> nat \<Rightarrow> instruction_error + instruction_context" where
  "get_instruction_context_at_index_in_trace tc index =
     ok_or CallDepth (get (tc_instruction_trace tc) index)"

definition get_instruction_context_at_nesting_level ::
    "transaction_context \<Rightarrow> nat \<Rightarrow> instruction_error + instruction_context" where
  "get_instruction_context_at_nesting_level tc level =
     and_then (ok_or CallDepth (get (tc_instruction_stack tc) level))
       (get_instruction_context_at_index_in_trace tc)"

definition get_instruction_context_stack_height :: "transaction_context \<Rightarrow> nat" where
  "get_instruction_context_stack_height tc = length (tc_instruction_stack tc)"

definition get_current_instruction_context ::
    "transaction_context \<Rightarrow> instruction_error + instruction_context" where
  "get_current_instruction_context tc =
     (if get_instruction_context_stack_height tc = 0 then Inl CallDepth
      else get_instruction_context_at_nesting_level tc (get_instruction_context_stack_height tc - 1))"

text \<open>\<^verbatim>\<open>get_next_instruction_context\<close> hands out the last entry of the trace for modification.\<close>

definition with_next_instruction_context ::
    "(instruction_context \<Rightarrow> instruction_context) \<Rightarrow> unit tx_action" where
  "with_next_instruction_context f =
     bind (reads (\<lambda>tc. ok_or CallDepth (last_opt (tc_instruction_trace tc)))) (\<lambda>ic.
     modify (\<lambda>tc. tc\<lparr>tc_instruction_trace := butlast (tc_instruction_trace tc) @ [f ic]\<rparr>))"

definition get_return_data :: "transaction_context \<Rightarrow> pubkey \<times> bytes" where
  "get_return_data tc = (rd_program_id (tc_return_data tc), rd_data (tc_return_data tc))"

definition set_return_data :: "pubkey \<Rightarrow> bytes \<Rightarrow> unit tx_action" where
  "set_return_data program_id d =
     modify (\<lambda>tc. tc\<lparr>tc_return_data := \<lparr>rd_program_id = program_id, rd_data = d\<rparr>\<rparr>)"

section \<open>InstructionContext\<close>

definition ic_configure ::
    "nat list \<Rightarrow> instruction_account list \<Rightarrow> bytes \<Rightarrow> instruction_context \<Rightarrow> instruction_context" where
  "ic_configure program_accounts instruction_accounts instruction_data ic =
     ic\<lparr>ic_program_accounts := program_accounts, ic_instruction_accounts := instruction_accounts,
        ic_instruction_data := instruction_data\<rparr>"

definition get_stack_height :: "instruction_context \<Rightarrow> nat" where
  "get_stack_height ic = ic_nesting_level ic + 1"

definition get_number_of_program_accounts :: "instruction_context \<Rightarrow> nat" where
  "get_number_of_program_accounts ic = as_u16 (length (ic_program_accounts ic))"

definition get_number_of_instruction_accounts :: "instruction_context \<Rightarrow> nat" where
  "get_number_of_instruction_accounts ic = as_u16 (length (ic_instruction_accounts ic))"

definition check_number_of_instruction_accounts ::
    "instruction_context \<Rightarrow> nat \<Rightarrow> instruction_error + unit" where
  "check_number_of_instruction_accounts ic expected_at_least =
     (if get_number_of_instruction_accounts ic < expected_at_least then Inl NotEnoughAccountKeys
      else Inr ())"

definition ic_find_index_of_program_account ::
    "instruction_context \<Rightarrow> transaction_context \<Rightarrow> pubkey \<Rightarrow> nat option" where
  "ic_find_index_of_program_account ic tc pubkey =
     map_option as_u16
       (position (\<lambda>index. get (tc_account_keys tc) index = Some pubkey) (ic_program_accounts ic))"

definition ic_find_index_of_instruction_account ::
    "instruction_context \<Rightarrow> transaction_context \<Rightarrow> pubkey \<Rightarrow> nat option" where
  "ic_find_index_of_instruction_account ic tc pubkey =
     map_option as_u16
       (position (\<lambda>ia. get (tc_account_keys tc) (ia_index_in_transaction ia) = Some pubkey)
         (ic_instruction_accounts ic))"

definition get_index_of_program_account_in_transaction ::
    "instruction_context \<Rightarrow> nat \<Rightarrow> instruction_error + nat" where
  "get_index_of_program_account_in_transaction ic index =
     ok_or NotEnoughAccountKeys (get (ic_program_accounts ic) index)"

definition get_index_of_instruction_account_in_transaction ::
    "instruction_context \<Rightarrow> nat \<Rightarrow> instruction_error + nat" where
  "get_index_of_instruction_account_in_transaction ic index =
     ok_or NotEnoughAccountKeys
       (map_option ia_index_in_transaction (get (ic_instruction_accounts ic) index))"

definition is_instruction_account_duplicate ::
    "instruction_context \<Rightarrow> nat \<Rightarrow> instruction_error + nat option" where
  "is_instruction_account_duplicate ic index =
     and_then (ok_or NotEnoughAccountKeys (get (ic_instruction_accounts ic) index)) (\<lambda>ia.
       Inr (if ia_index_in_callee ia = index then None else Some (ia_index_in_callee ia)))"

definition get_last_program_key ::
    "instruction_context \<Rightarrow> transaction_context \<Rightarrow> instruction_error + pubkey" where
  "get_last_program_key ic tc =
     and_then
       (get_index_of_program_account_in_transaction ic (get_number_of_program_accounts ic - 1))
       (get_key_of_account_at_index tc)"

definition is_instruction_account_signer ::
    "instruction_context \<Rightarrow> nat \<Rightarrow> instruction_error + bool" where
  "is_instruction_account_signer ic index =
     ok_or MissingAccount (map_option ia_is_signer (get (ic_instruction_accounts ic) index))"

definition is_instruction_account_writable ::
    "instruction_context \<Rightarrow> nat \<Rightarrow> instruction_error + bool" where
  "is_instruction_account_writable ic index =
     ok_or MissingAccount (map_option ia_is_writable (get (ic_instruction_accounts ic) index))"

text \<open>The hash set of signers is a set; the loop stops at the first index without a key.\<close>

fun signers_loop ::
    "transaction_context \<Rightarrow> instruction_account list \<Rightarrow> pubkey set \<Rightarrow> instruction_error + pubkey set" where
  "signers_loop tc [] result = Inr result"
| "signers_loop tc (ia # ias) result =
     (if ia_is_signer ia
      then and_then (get_key_of_account_at_index tc (ia_index_in_transaction ia))
             (\<lambda>key. signers_loop tc ias (insert key result))
      else signers_loop tc ias result)"

definition get_signers ::
    "instruction_context \<Rightarrow> transaction_context \<Rightarrow> instruction_error + pubkey set" where
  "get_signers ic tc = signers_loop tc (ic_instruction_accounts ic) {}"

section \<open>Lamport sums, push and pop\<close>

fun lamport_sum_loop ::
    "transaction_context \<Rightarrow> instruction_context \<Rightarrow> nat list \<Rightarrow> u128 \<Rightarrow> instruction_error + u128" where
  "lamport_sum_loop tc ic [] acc = Inr acc"
| "lamport_sum_loop tc ic (index # rest) acc =
     and_then (is_instruction_account_duplicate ic index) (\<lambda>dup.
       if dup \<noteq> None then lamport_sum_loop tc ic rest acc
       else
         and_then (get_index_of_instruction_account_in_transaction ic index) (\<lambda>i.
         and_then (get_account_at_index tc i) (\<lambda>cell.
           if \<not> can_borrow cell then Inl AccountBorrowOutstanding
           else
             and_then (ok_or ArithmeticOverflow
                 (checked_add (ucast (acct_lamports (rc_value cell))) acc)) (\<lambda>sum.
               lamport_sum_loop tc ic rest sum))))"

definition instruction_accounts_lamport_sum ::
    "transaction_context \<Rightarrow> instruction_context \<Rightarrow> instruction_error + u128" where
  "instruction_accounts_lamport_sum tc ic =
     lamport_sum_loop tc ic [0 ..< get_number_of_instruction_accounts ic] 0"

text \<open>
  \<^verbatim>\<open>push\<close> in its two halves: the sums it computes and the balance of the caller it verifies, then
  the entry it makes in the trace and on the stack.
\<close>

definition push_checks :: "(nat \<times> u128) tx_action" where
  "push_checks =
     bind (gets get_instruction_context_stack_height) (\<lambda>nesting_level.
     bind (reads (\<lambda>tc. ok_or CallDepth (last_opt (tc_instruction_trace tc)))) (\<lambda>callee.
     bind (reads (\<lambda>tc. instruction_accounts_lamport_sum tc callee)) (\<lambda>callee_sum.
     bind (gets tc_instruction_stack) (\<lambda>stack.
     bind
       (if stack = [] then ret ()
        else
          bind (reads get_current_instruction_context) (\<lambda>caller.
          bind (reads (\<lambda>tc. instruction_accounts_lamport_sum tc caller)) (\<lambda>current_sum.
          require (ic_instruction_accounts_lamport_sum caller = current_sum)
            UnbalancedInstruction))) (\<lambda>_.
     ret (nesting_level, callee_sum))))))"

definition push_commit :: "nat \<Rightarrow> u128 \<Rightarrow> unit tx_action" where
  "push_commit nesting_level callee_sum =
     bind
       (with_next_instruction_context (\<lambda>ic.
          ic\<lparr>ic_nesting_level := nesting_level,
             ic_instruction_accounts_lamport_sum := callee_sum\<rparr>)) (\<lambda>_.
     bind (gets get_instruction_trace_length) (\<lambda>index_in_trace.
     bind (gets tc_instruction_trace_capacity) (\<lambda>trace_capacity.
     bind (require (index_in_trace < trace_capacity) MaxInstructionTraceLengthExceeded) (\<lambda>_.
     bind (modify (\<lambda>tc. tc\<lparr>tc_instruction_trace :=
             tc_instruction_trace tc @ [instruction_context_default]\<rparr>)) (\<lambda>_.
     bind (gets tc_instruction_stack_capacity) (\<lambda>stack_capacity.
     bind (require (nesting_level < stack_capacity) CallDepth) (\<lambda>_.
     modify (\<lambda>tc. tc\<lparr>tc_instruction_stack := tc_instruction_stack tc @ [index_in_trace]\<rparr>))))))))"

definition tc_push :: "unit tx_action" where
  "tc_push = bind push_checks (\<lambda>(nesting_level, callee_sum). push_commit nesting_level callee_sum)"

fun check_no_outstanding :: "transaction_context \<Rightarrow> nat list \<Rightarrow> instruction_error + unit" where
  "check_no_outstanding tc [] = Inr ()"
| "check_no_outstanding tc (index # rest) =
     and_then (get_account_at_index tc index) (\<lambda>cell.
       if can_borrow_mut cell then check_no_outstanding tc rest else Inl AccountBorrowOutstanding)"

definition detect_unbalanced :: "transaction_context \<Rightarrow> instruction_error + bool" where
  "detect_unbalanced tc =
     and_then (get_current_instruction_context tc) (\<lambda>ic.
     and_then (check_no_outstanding tc (ic_program_accounts ic)) (\<lambda>_.
     and_then (instruction_accounts_lamport_sum tc ic) (\<lambda>sum.
       Inr (ic_instruction_accounts_lamport_sum ic \<noteq> sum))))"

definition tc_pop :: "unit tx_action" where
  "tc_pop =
     bind (gets tc_instruction_stack) (\<lambda>stack.
     bind (require (stack \<noteq> []) CallDepth) (\<lambda>_.
     bind (gets detect_unbalanced) (\<lambda>detected.
     bind (modify (\<lambda>tc. tc\<lparr>tc_instruction_stack := butlast (tc_instruction_stack tc)\<rparr>)) (\<lambda>_.
     bind (reads (\<lambda>_. detected)) (\<lambda>unbalanced.
     require (\<not> unbalanced) UnbalancedInstruction)))))"

section \<open>ExecutionRecord\<close>

record execution_record =
  er_accounts :: "(pubkey \<times> account_shared_data) list"
  er_return_data :: transaction_return_data
  er_touched_account_count :: nat
  er_accounts_resize_delta :: int

definition execution_record_of :: "transaction_context \<Rightarrow> execution_record" where
  "execution_record_of context =
     \<lparr>er_accounts = zip (tc_account_keys context) (ta_into_accounts (tc_accounts context)),
      er_return_data = tc_return_data context,
      er_touched_account_count = ta_touched_count (tc_accounts context),
      er_accounts_resize_delta = tc_accounts_resize_delta context\<rparr>"

section \<open>Well-formed transaction contexts\<close>

text \<open>
  What every reachable context satisfies: one key and one touched flag per account, bounded stack
  and trace, and a stack of increasing trace indices, each pointing at a context that records its
  own nesting level.
\<close>

definition tc_inv :: "transaction_context \<Rightarrow> bool" where
  "tc_inv tc \<longleftrightarrow>
     length (tc_account_keys tc) = length (ta_accounts (tc_accounts tc)) \<and>
     length (ta_touched_flags (tc_accounts tc)) = length (ta_accounts (tc_accounts tc)) \<and>
     tc_instruction_trace tc \<noteq> [] \<and>
     length (tc_instruction_trace tc) \<le> tc_instruction_trace_capacity tc + 1 \<and>
     length (tc_instruction_stack tc) \<le> tc_instruction_stack_capacity tc \<and>
     sorted_wrt (<) (tc_instruction_stack tc) \<and>
     (\<forall>k < length (tc_instruction_stack tc).
        tc_instruction_stack tc ! k + 1 < length (tc_instruction_trace tc) \<and>
        ic_nesting_level (tc_instruction_trace tc ! (tc_instruction_stack tc ! k)) = k)"

text \<open>\<open>is_zeroed\<close> compares whole chunks of 1024 bytes, then the remainder.\<close>

function is_zeroed :: "bytes \<Rightarrow> bool" where
  "is_zeroed buf =
     (if length buf < 1024 then buf = replicate (length buf) 0
      else take 1024 buf = replicate 1024 0 \<and> is_zeroed (drop 1024 buf))"
  by pat_completeness auto

termination is_zeroed
  by (relation "measure length") auto

declare is_zeroed.simps [simp del]

lemma replicate_same_iff: "xs = replicate (length xs) v \<longleftrightarrow> (\<forall>x \<in> set xs. x = v)"
  by (induction xs) auto

lemma is_zeroed_iff: "is_zeroed buf \<longleftrightarrow> (\<forall>x \<in> set buf. x = 0)"
proof (induction buf rule: is_zeroed.induct)
  case (1 buf)
  show ?case
  proof (cases "length buf < 1024")
    case True
    then have "is_zeroed buf \<longleftrightarrow> buf = replicate (length buf) 0"
      by (subst is_zeroed.simps) (simp only: if_True)
    then show ?thesis by (simp only: replicate_same_iff)
  next
    case False
    have split: "set buf = set (take 1024 buf) \<union> set (drop 1024 buf)"
      by (metis append_take_drop_id set_append)
    from False have len: "length (take 1024 buf) = 1024" by (simp only: length_take min_def) simp
    have "is_zeroed buf \<longleftrightarrow> take 1024 buf = replicate 1024 0 \<and> is_zeroed (drop 1024 buf)"
      using False by (subst is_zeroed.simps) (simp only: if_False)
    also have "\<dots> \<longleftrightarrow> (\<forall>x \<in> set (take 1024 buf). x = 0) \<and> (\<forall>x \<in> set (drop 1024 buf). x = 0)"
      using replicate_same_iff [of "take 1024 buf" 0, unfolded len] 1 False by blast
    finally show ?thesis
      unfolding split by blast
  qed
qed


section \<open>The lamport sum is exact\<close>

text \<open>The lamports the loop adds for one index, as a natural number.\<close>

definition counted_lamports :: "transaction_context \<Rightarrow> instruction_context \<Rightarrow> nat \<Rightarrow> nat" where
  "counted_lamports tc ic k =
     (let ia = ic_instruction_accounts ic ! k in
      if ia_index_in_callee ia \<noteq> k then 0
      else unat (acct_lamports (rc_value
             (ta_accounts (tc_accounts tc) ! ia_index_in_transaction ia))))"

lemma lamports_u128: "unat (ucast (l :: u64) :: u128) = unat l"
  by (rule unat_ucast_upward) simp

lemma u64_less: "unat (l :: u64) < 18446744073709551616"
  using unsigned_less [of l, where 'a = nat] by simp

lemma lamport_sum_loop_no_overflow:
  assumes "unat acc + length ks * 2 ^ 64 < 2 ^ 128"
  shows "lamport_sum_loop tc ic ks acc \<noteq> Inl ArithmeticOverflow"
  using assms
proof (induction ks arbitrary: acc)
  case (Cons k ks)
  have step: "lamport_sum_loop tc ic ks s \<noteq> Inl ArithmeticOverflow"
    if "checked_add (ucast l) acc = Some s" for s and l :: u64
    using that Cons.prems u64_less [of l]
    by (intro Cons.IH) (auto simp: lamports_u128 dest!: unat_checked_add)
  have fits: False if "checked_add (ucast l) acc = None" for l :: u64
    using that Cons.prems u64_less [of l] by (simp add: checked_add_None lamports_u128)
  have skip: "lamport_sum_loop tc ic ks acc \<noteq> Inl ArithmeticOverflow"
    using Cons.prems by (intro Cons.IH) simp
  show ?case
    using step skip
    by (auto dest: fits simp: and_then_def ok_or_def is_instruction_account_duplicate_def
        get_index_of_instruction_account_in_transaction_def get_account_at_index_def
        split: sum.splits option.splits if_splits)
qed simp

lemma lamport_sum_loop_exact:
  assumes "lamport_sum_loop tc ic ks acc = Inr s"
  shows "unat s = unat acc + sum_list (map (counted_lamports tc ic) ks)"
  using assms
proof (induction ks arbitrary: acc)
  case (Cons k ks)
  then show ?case
    by (auto simp: counted_lamports_def Let_def and_then_def ok_or_def get_def ta_get_def
        is_instruction_account_duplicate_def get_account_at_index_def lamports_u128
        get_index_of_instruction_account_in_transaction_def
        dest!: unat_checked_add split: sum.splits option.splits if_splits)
qed simp

lemma instruction_accounts_lamport_sum_no_overflow:
  "instruction_accounts_lamport_sum tc ic \<noteq> Inl ArithmeticOverflow"
  unfolding instruction_accounts_lamport_sum_def
proof (rule lamport_sum_loop_no_overflow)
  have "get_number_of_instruction_accounts ic < 65536"
    by (simp add: get_number_of_instruction_accounts_def as_u16_def)
  then have "length [0 ..< get_number_of_instruction_accounts ic] * 2 ^ 64 < (65536 * 2 ^ 64 :: nat)"
    by simp
  then show "unat (0 :: u128) + length [0 ..< get_number_of_instruction_accounts ic] * 2 ^ 64 < 2 ^ 128"
    by simp
qed

lemma instruction_accounts_lamport_sum_exact:
  "instruction_accounts_lamport_sum tc ic = Inr s \<Longrightarrow>
     unat s = (\<Sum>k \<leftarrow> [0 ..< get_number_of_instruction_accounts ic]. counted_lamports tc ic k)"
  unfolding instruction_accounts_lamport_sum_def by (drule lamport_sum_loop_exact) simp

section \<open>push and pop keep the invariant\<close>

lemma tc_inv_new:
  "tc_inv (transaction_context_new accounts rent stack_capacity trace_capacity)"
  by (simp add: tc_inv_def transaction_context_new_def ta_new_def)

lemma sorted_wrt_less_snoc:
  "sorted_wrt (<) (xs @ [x]) \<longleftrightarrow> sorted_wrt (<) xs \<and> (\<forall>y \<in> set xs. y < (x :: nat))"
  by (auto simp: sorted_wrt_append)

lemma tc_inv_update_next:
  assumes "tc_inv tc"
  shows "tc_inv (tc\<lparr>tc_instruction_trace := butlast (tc_instruction_trace tc) @ [ic]\<rparr>)"
  using assms by (auto simp: tc_inv_def nth_append nth_butlast)

lemma with_next_keeps_inv:
  "tc_inv tc \<Longrightarrow> with_next_instruction_context f tc = (r, tc') \<Longrightarrow> tc_inv tc'"
  by (auto simp: with_next_instruction_context_def run_simps last_opt_def tc_inv_update_next
      split: if_splits)

text \<open>The step of a successful push, and the states its failures leave behind.\<close>

definition pushed_trace :: "transaction_context \<Rightarrow> u128 \<Rightarrow> instruction_context list" where
  "pushed_trace tc tot =
     butlast (tc_instruction_trace tc) @
       [(last (tc_instruction_trace tc))
          \<lparr>ic_nesting_level := length (tc_instruction_stack tc),
           ic_instruction_accounts_lamport_sum := tot\<rparr>]"

lemma length_pushed_trace [simp]:
  "tc_instruction_trace tc \<noteq> [] \<Longrightarrow> length (pushed_trace tc tot) = length (tc_instruction_trace tc)"
  by (simp add: pushed_trace_def)

lemma push_checks_frame: "snd (push_checks tc) = tc"
  by (simp add: push_checks_def run_simps split: sum.split)

lemma push_checks_Inr:
  "push_checks tc = (Inr (n, tot), tc') \<Longrightarrow>
     n = length (tc_instruction_stack tc) \<and> tc_instruction_trace tc \<noteq> [] \<and>
     instruction_accounts_lamport_sum tc (last (tc_instruction_trace tc)) = Inr tot"
  unfolding push_checks_def
  by (erule bind_InrE)+
    (auto simp: run_simps ok_or_Inr last_opt_def get_instruction_context_stack_height_def
      split: if_splits)

lemma push_commit_eq:
  assumes "tc_instruction_trace tc \<noteq> []"
  shows "push_commit (length (tc_instruction_stack tc)) tot tc =
    (if tc_instruction_trace_capacity tc < length (tc_instruction_trace tc)
     then (Inl MaxInstructionTraceLengthExceeded, tc\<lparr>tc_instruction_trace := pushed_trace tc tot\<rparr>)
     else let tc' = tc\<lparr>tc_instruction_trace := pushed_trace tc tot @ [instruction_context_default]\<rparr> in
       if length (tc_instruction_stack tc) < tc_instruction_stack_capacity tc
       then (Inr (), tc'\<lparr>tc_instruction_stack :=
               tc_instruction_stack tc @ [length (tc_instruction_trace tc) - 1]\<rparr>)
       else (Inl CallDepth, tc'))"
proof -
  have len: "length (tc_instruction_trace tc) - Suc 0 < tc_instruction_trace_capacity tc \<longleftrightarrow>
      length (tc_instruction_trace tc) \<le> tc_instruction_trace_capacity tc"
    using assms by (cases "tc_instruction_trace tc") auto
  then show ?thesis
    using assms
    by (auto simp: push_commit_def with_next_instruction_context_def run_simps last_opt_def
        get_instruction_trace_length_def pushed_trace_def Let_def)
qed

lemma tc_inv_pushed:
  assumes "tc_inv tc"
  shows "tc_inv (tc\<lparr>tc_instruction_trace := pushed_trace tc tot\<rparr>)"
  using tc_inv_update_next [OF assms] by (simp add: pushed_trace_def)

lemma tc_inv_push_trace:
  assumes "tc_inv tc" and "length (tc_instruction_trace tc) \<le> tc_instruction_trace_capacity tc"
  shows "tc_inv (tc\<lparr>tc_instruction_trace := tc_instruction_trace tc @ [ic]\<rparr>)"
  using assms by (auto simp: tc_inv_def nth_append less_SucI)

lemma tc_inv_push_stack:
  assumes inv: "tc_inv tc" and "length (tc_instruction_stack tc) < tc_instruction_stack_capacity tc"
    and "\<forall>j \<in> set (tc_instruction_stack tc). j < i" and "i + 1 < length (tc_instruction_trace tc)"
    and "ic_nesting_level (tc_instruction_trace tc ! i) = length (tc_instruction_stack tc)"
  shows "tc_inv (tc\<lparr>tc_instruction_stack := tc_instruction_stack tc @ [i]\<rparr>)"
  using assms by (auto simp: tc_inv_def sorted_wrt_less_snoc nth_append less_Suc_eq)

lemma tc_push_keeps_inv:
  assumes inv: "tc_inv tc" and run: "tc_push tc = (r, tc')"
  shows "tc_inv tc'"
proof (cases "fst (push_checks tc)")
  case (Inl e)
  with run have "tc' = tc"
    using push_checks_frame [of tc] by (simp add: tc_push_def run_simps)
  with inv show ?thesis by simp
next
  case (Inr p)
  obtain tot where p: "p = (length (tc_instruction_stack tc), tot)"
    using push_checks_Inr [of tc "fst p" "snd p"] Inr by (metis prod.collapse)
  let ?t1 = "tc\<lparr>tc_instruction_trace := pushed_trace tc tot\<rparr>"
  let ?t2 = "?t1\<lparr>tc_instruction_trace := tc_instruction_trace ?t1 @ [instruction_context_default]\<rparr>"
  have ne: "tc_instruction_trace tc \<noteq> []" using inv by (simp add: tc_inv_def)
  from run Inr p have commit: "push_commit (length (tc_instruction_stack tc)) tot tc = (r, tc')"
    using push_checks_frame [of tc] by (simp add: tc_push_def run_simps)
  have t1: "tc_inv ?t1" by (rule tc_inv_pushed [OF inv])
  show ?thesis
  proof (cases "tc_instruction_trace_capacity tc < length (tc_instruction_trace tc)")
    case True
    with commit t1 show ?thesis by (simp add: push_commit_eq [OF ne])
  next
    case False
    have t2: "tc_inv ?t2" using t1 False ne by (intro tc_inv_push_trace) simp_all
    let ?i = "length (tc_instruction_trace tc) - 1"
    have "\<forall>j \<in> set (tc_instruction_stack tc). j < ?i"
      using inv by (auto simp: tc_inv_def in_set_conv_nth less_diff_conv)
    moreover have "?i + 1 < length (tc_instruction_trace ?t2)"
      using ne by (simp add: Suc_leI)
    moreover have "ic_nesting_level (tc_instruction_trace ?t2 ! ?i) = length (tc_instruction_stack tc)"
      by (simp add: pushed_trace_def nth_append)
    ultimately show ?thesis
      using commit False t2 tc_inv_push_stack [of ?t2 ?i]
      by (auto simp: push_commit_eq [OF ne] Let_def split: if_splits)
  qed
qed

lemma tc_pop_stack: "tc_instruction_stack (snd (tc_pop tc)) = butlast (tc_instruction_stack tc)"
  by (simp add: tc_pop_def run_simps split: sum.splits)

lemma tc_pop_frame:
  "snd (tc_pop tc) = tc\<lparr>tc_instruction_stack := butlast (tc_instruction_stack tc)\<rparr>"
  by (auto simp: tc_pop_def run_simps split: sum.splits)

lemma tc_pop_keeps_inv: "tc_inv tc \<Longrightarrow> tc_pop tc = (r, tc') \<Longrightarrow> tc_inv tc'"
  using tc_pop_frame [of tc]
  by (auto simp: tc_inv_def nth_butlast sorted_wrt_take butlast_conv_take)

lemma tc_pop_Inr:
  "fst (tc_pop tc) = Inr () \<longleftrightarrow> tc_instruction_stack tc \<noteq> [] \<and> detect_unbalanced tc = Inr False"
  by (auto simp: tc_pop_def run_simps split: sum.splits if_splits)

lemmas tc_eval [eval_simps] = get_current_instruction_context_def
  get_instruction_context_stack_height_def get_instruction_context_at_nesting_level_def
  get_instruction_context_at_index_in_trace_def ta_get_def transaction_context_new_def ta_new_def
  get_signers_def get_key_of_account_at_index_def check_number_of_instruction_accounts_def
  get_number_of_instruction_accounts_def get_number_of_program_accounts_def
  get_index_of_instruction_account_in_transaction_def get_index_of_program_account_in_transaction_def
  is_instruction_account_signer_def is_instruction_account_writable_def get_last_program_key_def
  is_instruction_account_duplicate_def instruction_accounts_lamport_sum_def
  get_account_at_index_def instruction_context_default_def with_next_instruction_context_def
  push_checks_def push_commit_def tc_push_def detect_unbalanced_def tc_pop_def
  get_instruction_trace_length_def shared_create_def

end
