(* ===== verification/Borrowed_Account.thy ===== *)
theory Borrowed_Account
  imports Transaction_Context
begin

text \<open>
  \<^verbatim>\<open>BorrowedAccount\<close> of \<^verbatim>\<open>sdk/src/transaction_context.rs\<close>: the only way a program changes an account.
  Every setter checks who owns the account, whether it is writable in the instruction and whether
  it is executable.  The relation \<open>access\<close> states what the checks add up to, and the setters, the
  borrow scope and every action composed of them keep it.
\<close>

section \<open>Handles and borrow scopes\<close>

record borrowed_account =
  ba_instruction_context :: instruction_context
  ba_index_in_transaction :: nat
  ba_index_in_instruction :: nat

definition account_at :: "transaction_context \<Rightarrow> nat \<Rightarrow> account_shared_data" where
  "account_at tc i = rc_value (ta_accounts (tc_accounts tc) ! i)"

definition update_cell ::
    "nat \<Rightarrow> (account_shared_data ref_cell \<Rightarrow> account_shared_data ref_cell) \<Rightarrow>
      transaction_context \<Rightarrow> transaction_context" where
  "update_cell i f tc =
     tc\<lparr>tc_accounts := (tc_accounts tc)\<lparr>ta_accounts :=
         (ta_accounts (tc_accounts tc))[i := f (ta_accounts (tc_accounts tc) ! i)]\<rparr>\<rparr>"

definition update_account ::
    "nat \<Rightarrow> (account_shared_data \<Rightarrow> account_shared_data) \<Rightarrow> transaction_context \<Rightarrow> transaction_context" where
  "update_account i f = update_cell i (\<lambda>c. c\<lparr>rc_value := f (rc_value c)\<rparr>)"

definition try_borrow_account :: "instruction_context \<Rightarrow> nat \<Rightarrow> nat \<Rightarrow> borrowed_account tx_action" where
  "try_borrow_account ic index_in_transaction index_in_instruction =
     bind (reads (\<lambda>tc. ok_or MissingAccount (ta_get (tc_accounts tc) index_in_transaction))) (\<lambda>cell.
     bind (require (can_borrow_mut cell) AccountBorrowFailed) (\<lambda>_.
     bind (modify (update_cell index_in_transaction (\<lambda>c. c\<lparr>rc_borrow := Writing\<rparr>))) (\<lambda>_.
     ret \<lparr>ba_instruction_context = ic, ba_index_in_transaction = index_in_transaction,
          ba_index_in_instruction = index_in_instruction\<rparr>)))"

text \<open>Dropping the handle ends the mutable borrow.\<close>

definition release :: "borrowed_account \<Rightarrow> transaction_context \<Rightarrow> transaction_context" where
  "release b = update_cell (ba_index_in_transaction b) (\<lambda>c. c\<lparr>rc_borrow := Unused\<rparr>)"

definition with_borrowed ::
    "borrowed_account tx_action \<Rightarrow> (borrowed_account \<Rightarrow> 'a tx_action) \<Rightarrow> 'a tx_action" where
  "with_borrowed acquire body tc =
     (case acquire tc of
        (Inl e, t) \<Rightarrow> (Inl e, t)
      | (Inr b, t) \<Rightarrow> (case body b t of (r, u) \<Rightarrow> (r, release b u)))"

definition try_borrow_program_account :: "instruction_context \<Rightarrow> nat \<Rightarrow> borrowed_account tx_action" where
  "try_borrow_program_account ic index =
     bind (reads (\<lambda>_. get_index_of_program_account_in_transaction ic index)) (\<lambda>index_in_transaction.
     try_borrow_account ic index_in_transaction index)"

definition try_borrow_last_program_account :: "instruction_context \<Rightarrow> borrowed_account tx_action" where
  "try_borrow_last_program_account ic =
     try_borrow_program_account ic (get_number_of_program_accounts ic - 1)"

definition try_borrow_instruction_account :: "instruction_context \<Rightarrow> nat \<Rightarrow> borrowed_account tx_action" where
  "try_borrow_instruction_account ic index =
     bind (reads (\<lambda>_. get_index_of_instruction_account_in_transaction ic index)) (\<lambda>index_in_transaction.
     try_borrow_account ic index_in_transaction
       (sat_add_u16 (get_number_of_program_accounts ic) index))"

abbreviation with_instruction_account ::
    "instruction_context \<Rightarrow> nat \<Rightarrow> (borrowed_account \<Rightarrow> 'a tx_action) \<Rightarrow> 'a tx_action" where
  "with_instruction_account ic index \<equiv> with_borrowed (try_borrow_instruction_account ic index)"

section \<open>Reading\<close>

definition ba_account :: "borrowed_account \<Rightarrow> transaction_context \<Rightarrow> account_shared_data" where
  "ba_account b tc = account_at tc (ba_index_in_transaction b)"

text \<open>A handle has an index of the transaction, which has a key for every account, so the \<^verbatim>\<open>unwrap\<close> succeeds.\<close>

definition ba_get_key :: "borrowed_account \<Rightarrow> transaction_context \<Rightarrow> pubkey" where
  "ba_get_key b tc = tc_account_keys tc ! ba_index_in_transaction b"

definition ba_get_owner :: "borrowed_account \<Rightarrow> transaction_context \<Rightarrow> pubkey" where
  "ba_get_owner b tc = acct_owner (ba_account b tc)"

definition ba_get_lamports :: "borrowed_account \<Rightarrow> transaction_context \<Rightarrow> u64" where
  "ba_get_lamports b tc = acct_lamports (ba_account b tc)"

definition ba_get_data :: "borrowed_account \<Rightarrow> transaction_context \<Rightarrow> bytes" where
  "ba_get_data b tc = acct_data (ba_account b tc)"

definition ba_is_executable :: "borrowed_account \<Rightarrow> transaction_context \<Rightarrow> bool" where
  "ba_is_executable b tc = acct_executable (ba_account b tc)"

definition ba_is_signer :: "borrowed_account \<Rightarrow> bool" where
  "ba_is_signer b =
     (let ic = ba_instruction_context b in
      if ba_index_in_instruction b < get_number_of_program_accounts ic then False
      else unwrap_or False (is_instruction_account_signer ic
             (ba_index_in_instruction b - get_number_of_program_accounts ic)))"

definition ba_is_writable :: "borrowed_account \<Rightarrow> bool" where
  "ba_is_writable b =
     (let ic = ba_instruction_context b in
      if ba_index_in_instruction b < get_number_of_program_accounts ic then False
      else unwrap_or False (is_instruction_account_writable ic
             (ba_index_in_instruction b - get_number_of_program_accounts ic)))"

definition ba_is_owned_by_current_program :: "borrowed_account \<Rightarrow> transaction_context \<Rightarrow> bool" where
  "ba_is_owned_by_current_program b tc =
     (case get_last_program_key (ba_instruction_context b) tc of
        Inl _ \<Rightarrow> False
      | Inr key \<Rightarrow> key = ba_get_owner b tc)"

definition ba_is_rent_exempt_at_data_length :: "borrowed_account \<Rightarrow> nat \<Rightarrow> transaction_context \<Rightarrow> bool" where
  "ba_is_rent_exempt_at_data_length b data_length tc =
     rent_is_exempt (tc_rent tc) (ba_get_lamports b tc) data_length"

definition ba_get_state :: "'a codec \<Rightarrow> borrowed_account \<Rightarrow> transaction_context \<Rightarrow> instruction_error + 'a" where
  "ba_get_state c b tc = ok_or InvalidAccountData (c_decode c (ba_get_data b tc))"

section \<open>Guards\<close>

definition can_data_be_changed :: "borrowed_account \<Rightarrow> transaction_context \<Rightarrow> instruction_error + unit" where
  "can_data_be_changed b tc =
     (if ba_is_executable b tc then Inl ExecutableDataModified
      else if \<not> ba_is_writable b then Inl ReadonlyDataModified
      else if \<not> ba_is_owned_by_current_program b tc then Inl ExternalAccountDataModified
      else Inr ())"

definition can_data_be_resized ::
    "borrowed_account \<Rightarrow> nat \<Rightarrow> transaction_context \<Rightarrow> instruction_error + unit" where
  "can_data_be_resized b new_length tc =
     (let old_length = length (ba_get_data b tc) in
      if new_length \<noteq> old_length \<and> \<not> ba_is_owned_by_current_program b tc
      then Inl AccountDataSizeChanged
      else if new_length > MAX_PERMITTED_DATA_LENGTH then Inl InvalidRealloc
      else if sat_i64 (tc_accounts_resize_delta tc + sat_i64 (int new_length - int old_length))
                > MAX_PERMITTED_ACCOUNTS_DATA_ALLOCATIONS_PER_TRANSACTION
      then Inl MaxAccountsDataAllocationsExceeded
      else Inr ())"

definition ba_touch :: "borrowed_account \<Rightarrow> unit tx_action" where
  "ba_touch b =
     bind (reads (\<lambda>tc. ta_touch (tc_accounts tc) (ba_index_in_transaction b))) (\<lambda>ta.
     modify (\<lambda>tc. tc\<lparr>tc_accounts := ta\<rparr>))"

definition update_accounts_resize_delta :: "borrowed_account \<Rightarrow> nat \<Rightarrow> unit tx_action" where
  "update_accounts_resize_delta b new_len =
     modify (\<lambda>tc. tc\<lparr>tc_accounts_resize_delta :=
       sat_i64 (tc_accounts_resize_delta tc
         + sat_i64 (int new_len - int (length (ba_get_data b tc))))\<rparr>)"

section \<open>Setters\<close>

abbreviation ba_write :: "borrowed_account \<Rightarrow> (account_shared_data \<Rightarrow> account_shared_data) \<Rightarrow> unit tx_action" where
  "ba_write b f \<equiv> modify (update_account (ba_index_in_transaction b) f)"

text \<open>The slice argument of \<^verbatim>\<open>set_owner\<close> is the 32 bytes of a key at every call.\<close>

definition ba_set_owner :: "borrowed_account \<Rightarrow> pubkey \<Rightarrow> unit tx_action" where
  "ba_set_owner b pubkey tc =
     (if \<not> ba_is_owned_by_current_program b tc then (Inl ModifiedProgramId, tc)
      else if \<not> ba_is_writable b then (Inl ModifiedProgramId, tc)
      else if ba_is_executable b tc then (Inl ModifiedProgramId, tc)
      else if \<not> is_zeroed (ba_get_data b tc) then (Inl ModifiedProgramId, tc)
      else if ba_get_owner b tc = pubkey then (Inr (), tc)
      else bind (ba_touch b) (\<lambda>_. ba_write b (\<lambda>a. a\<lparr>acct_owner := pubkey\<rparr>)) tc)"

definition ba_set_lamports :: "borrowed_account \<Rightarrow> u64 \<Rightarrow> unit tx_action" where
  "ba_set_lamports b lamports tc =
     (if \<not> ba_is_owned_by_current_program b tc \<and> lamports < ba_get_lamports b tc
      then (Inl ExternalAccountLamportSpend, tc)
      else if \<not> ba_is_writable b then (Inl ReadonlyLamportChange, tc)
      else if ba_is_executable b tc then (Inl ExecutableLamportChange, tc)
      else if ba_get_lamports b tc = lamports then (Inr (), tc)
      else bind (ba_touch b) (\<lambda>_. ba_write b (\<lambda>a. a\<lparr>acct_lamports := lamports\<rparr>)) tc)"

definition ba_checked_add_lamports :: "borrowed_account \<Rightarrow> u64 \<Rightarrow> unit tx_action" where
  "ba_checked_add_lamports b lamports =
     bind (reads (\<lambda>tc. ok_or ArithmeticOverflow (checked_add (ba_get_lamports b tc) lamports)))
       (ba_set_lamports b)"

definition ba_checked_sub_lamports :: "borrowed_account \<Rightarrow> u64 \<Rightarrow> unit tx_action" where
  "ba_checked_sub_lamports b lamports =
     bind (reads (\<lambda>tc. ok_or ArithmeticOverflow (checked_sub (ba_get_lamports b tc) lamports)))
       (ba_set_lamports b)"

text \<open>
  \<^verbatim>\<open>get_data_mut\<close> returns the data as a mutable slice.  What the caller writes to the slice, \<open>f\<close>,
  cannot change its length; a result of another length stands for no program and is ignored.
\<close>

definition ba_with_data_mut :: "borrowed_account \<Rightarrow> (bytes \<Rightarrow> instruction_error + bytes) \<Rightarrow> unit tx_action" where
  "ba_with_data_mut b f =
     bind (reads (can_data_be_changed b)) (\<lambda>_.
     bind (ba_touch b) (\<lambda>_.
     bind (reads (\<lambda>tc. f (ba_get_data b tc))) (\<lambda>d.
     ba_write b (\<lambda>a. if length d = length (acct_data a) then a\<lparr>acct_data := d\<rparr> else a))))"

definition ba_set_data :: "borrowed_account \<Rightarrow> bytes \<Rightarrow> unit tx_action" where
  "ba_set_data b d =
     bind (reads (can_data_be_resized b (length d))) (\<lambda>_.
     bind (reads (can_data_be_changed b)) (\<lambda>_.
     bind (ba_touch b) (\<lambda>_.
     bind (update_accounts_resize_delta b (length d)) (\<lambda>_.
     ba_write b (acct_set_data d)))))"

definition ba_set_data_from_slice :: "bool \<Rightarrow> borrowed_account \<Rightarrow> bytes \<Rightarrow> unit tx_action" where
  "ba_set_data_from_slice shared b d =
     bind (reads (can_data_be_resized b (length d))) (\<lambda>_.
     bind (reads (can_data_be_changed b)) (\<lambda>_.
     bind (ba_touch b) (\<lambda>_.
     bind (update_accounts_resize_delta b (length d)) (\<lambda>_.
     ba_write b (acct_set_data_from_slice shared d)))))"

definition ba_set_data_length :: "borrowed_account \<Rightarrow> nat \<Rightarrow> unit tx_action" where
  "ba_set_data_length b new_length =
     bind (reads (can_data_be_resized b new_length)) (\<lambda>_.
     bind (reads (can_data_be_changed b)) (\<lambda>_.
     bind (gets (ba_get_data b)) (\<lambda>d.
     if length d = new_length then ret ()
     else
       bind (ba_touch b) (\<lambda>_.
       bind (update_accounts_resize_delta b new_length) (\<lambda>_.
       ba_write b (acct_resize new_length 0))))))"

definition ba_extend_from_slice :: "borrowed_account \<Rightarrow> bytes \<Rightarrow> unit tx_action" where
  "ba_extend_from_slice b d =
     bind (gets (\<lambda>tc. length (ba_get_data b tc) + length d)) (\<lambda>new_len.
     bind (reads (can_data_be_resized b new_len)) (\<lambda>_.
     bind (reads (can_data_be_changed b)) (\<lambda>_.
     if d = [] then ret ()
     else
       bind (ba_touch b) (\<lambda>_.
       bind (update_accounts_resize_delta b new_len) (\<lambda>_.
       ba_write b (acct_extend_from_slice d))))))"

definition ba_set_state :: "'a codec \<Rightarrow> borrowed_account \<Rightarrow> 'a \<Rightarrow> unit tx_action" where
  "ba_set_state c b state =
     ba_with_data_mut b (\<lambda>d.
       case c_encode c state of
         None \<Rightarrow> Inl GenericError
       | Some enc \<Rightarrow>
           if length enc > length d then Inl AccountDataTooSmall else Inr (overwrite_prefix enc d))"

definition ba_set_executable :: "borrowed_account \<Rightarrow> bool \<Rightarrow> unit tx_action" where
  "ba_set_executable b is_executable tc =
     (if \<not> rent_is_exempt (tc_rent tc) (ba_get_lamports b tc) (length (ba_get_data b tc))
      then (Inl ExecutableAccountNotRentExempt, tc)
      else if \<not> ba_is_owned_by_current_program b tc then (Inl ExecutableModified, tc)
      else if \<not> ba_is_writable b then (Inl ExecutableModified, tc)
      else if ba_is_executable b tc \<and> \<not> is_executable then (Inl ExecutableModified, tc)
      else if ba_is_executable b tc = is_executable then (Inr (), tc)
      else bind (ba_touch b) (\<lambda>_. ba_write b (\<lambda>a. a\<lparr>acct_executable := is_executable\<rparr>)) tc)"

section \<open>The access policy\<close>

definition current_program :: "instruction_context \<Rightarrow> transaction_context \<Rightarrow> pubkey option" where
  "current_program ic tc =
     (case get_last_program_key ic tc of Inl _ \<Rightarrow> None | Inr key \<Rightarrow> Some key)"

definition writable_in :: "instruction_context \<Rightarrow> nat \<Rightarrow> bool" where
  "writable_in ic i \<longleftrightarrow>
     list_ex (\<lambda>ia. ia_index_in_transaction ia = i \<and> ia_is_writable ia) (ic_instruction_accounts ic)"

text \<open>
  What a program \<open>cur\<close> may have done to one account that was \<open>a\<close> and is \<open>a'\<close>: nothing to a read-only
  or an executable account; to one it does not own, only to add lamports; and ownership is given
  away with zeroed data.
\<close>

definition account_policy ::
    "pubkey option \<Rightarrow> bool \<Rightarrow> account_shared_data \<Rightarrow> account_shared_data \<Rightarrow> bool" where
  "account_policy cur writable a a' \<longleftrightarrow>
     acct_rent_epoch a' = acct_rent_epoch a \<and> acct_remote a' = acct_remote a \<and>
     (\<not> writable \<longrightarrow> a' = a) \<and>
     (acct_executable a \<longrightarrow> a' = a) \<and>
     (cur \<noteq> Some (acct_owner a) \<longrightarrow>
        acct_data a' = acct_data a \<and> acct_owner a' = acct_owner a \<and>
        acct_executable a' = acct_executable a \<and> acct_lamports a \<le> acct_lamports a') \<and>
     (acct_owner a' \<noteq> acct_owner a \<longrightarrow> is_zeroed (acct_data a'))"

definition total_data_len :: "transaction_context \<Rightarrow> nat" where
  "total_data_len tc = (\<Sum>c \<leftarrow> ta_accounts (tc_accounts tc). length (acct_data (rc_value c)))"

text \<open>The total size the accounts had when the resize delta was zero.\<close>

definition data_base :: "transaction_context \<Rightarrow> int" where
  "data_base tc = int (total_data_len tc) - tc_accounts_resize_delta tc"

definition resize_tracked :: "transaction_context \<Rightarrow> bool" where
  "resize_tracked tc \<longleftrightarrow>
     0 \<le> data_base tc \<and> data_base tc < 2 ^ 62 \<and>
     tc_accounts_resize_delta tc \<le> MAX_PERMITTED_ACCOUNTS_DATA_ALLOCATIONS_PER_TRANSACTION"

definition same_frame :: "transaction_context \<Rightarrow> transaction_context \<Rightarrow> bool" where
  "same_frame s t \<longleftrightarrow>
     t = s\<lparr>tc_accounts := tc_accounts t, tc_accounts_resize_delta := tc_accounts_resize_delta t\<rparr> \<and>
     length (ta_accounts (tc_accounts t)) = length (ta_accounts (tc_accounts s)) \<and>
     length (ta_touched_flags (tc_accounts t)) = length (ta_touched_flags (tc_accounts s))"

definition access :: "instruction_context \<Rightarrow> transaction_context \<Rightarrow> transaction_context \<Rightarrow> bool" where
  "access ic s t \<longleftrightarrow>
     same_frame s t \<and>
     map rc_borrow (ta_accounts (tc_accounts t)) = map rc_borrow (ta_accounts (tc_accounts s)) \<and>
     (\<forall>i < length (ta_accounts (tc_accounts s)).
        account_policy (current_program ic s) (writable_in ic i) (account_at s i) (account_at t i) \<and>
        (get (ta_touched_flags (tc_accounts s)) i = Some True \<longrightarrow>
           get (ta_touched_flags (tc_accounts t)) i = Some True) \<and>
        (account_at t i \<noteq> account_at s i \<longrightarrow>
           get (ta_touched_flags (tc_accounts t)) i = Some True)) \<and>
     (resize_tracked s \<longrightarrow> resize_tracked t \<and> data_base t = data_base s)"

text \<open>The policy for states of \<open>n\<close> accounts, which is what a live handle knows about the state.\<close>

definition access_at :: "nat \<Rightarrow> instruction_context \<Rightarrow> transaction_context \<Rightarrow> transaction_context \<Rightarrow> bool" where
  "access_at n ic s t \<longleftrightarrow> (length (ta_accounts (tc_accounts s)) = n \<longrightarrow> access ic s t)"

lemma account_policy_refl: "account_policy cur w a a"
  by (simp add: account_policy_def)

lemma account_policy_trans:
  assumes "account_policy cur w a b" and "account_policy cur w b c"
  shows "account_policy cur w a c"
proof (cases "w \<and> \<not> acct_executable a")
  case True
  note ab = assms(1) [unfolded account_policy_def]
  note bc = assms(2) [unfolded account_policy_def]
  show ?thesis
  proof (cases "cur = Some (acct_owner a)")
    case owned: True
    have "is_zeroed (acct_data c)" if "acct_owner c \<noteq> acct_owner a"
    proof (cases "acct_owner c = acct_owner b")
      case same: True
      with that owned bc have "acct_data c = acct_data b" by auto
      with same that ab show ?thesis by auto
    qed (use bc in blast)
    with True owned ab bc show ?thesis by (auto simp: account_policy_def)
  next
    case False
    with ab have "acct_owner b = acct_owner a" by blast
    with False have "cur \<noteq> Some (acct_owner b)" by simp
    with True False ab bc show ?thesis by (auto simp: account_policy_def)
  qed
next
  case False
  with assms(1) have "b = a" by (auto simp: account_policy_def)
  with assms(2) show ?thesis by simp
qed

lemma same_frame_refl: "same_frame s s"
  by (simp add: same_frame_def)

lemma same_frame_trans: "same_frame s t \<Longrightarrow> same_frame t u \<Longrightarrow> same_frame s u"
  by (cases s; cases t; cases u) (simp add: same_frame_def)

lemma same_frame_keys: "same_frame s t \<Longrightarrow> tc_account_keys t = tc_account_keys s"
  by (cases s; cases t) (simp add: same_frame_def)

lemma current_program_frame: "same_frame s t \<Longrightarrow> current_program ic t = current_program ic s"
  by (drule same_frame_keys)
    (simp add: current_program_def get_last_program_key_def get_key_of_account_at_index_def [abs_def])

lemma access_refl: "access ic s s"
  by (simp add: access_def same_frame_refl account_policy_refl)

lemma accessD:
  assumes "access ic s t"
  shows access_frame: "same_frame s t"
    and access_len: "length (ta_accounts (tc_accounts t)) = length (ta_accounts (tc_accounts s))"
    and access_flags:
      "map rc_borrow (ta_accounts (tc_accounts t)) = map rc_borrow (ta_accounts (tc_accounts s))"
    and access_policy: "i < length (ta_accounts (tc_accounts s)) \<Longrightarrow>
      account_policy (current_program ic s) (writable_in ic i) (account_at s i) (account_at t i)"
    and access_touched: "i < length (ta_accounts (tc_accounts s)) \<Longrightarrow>
      get (ta_touched_flags (tc_accounts s)) i = Some True \<or> account_at t i \<noteq> account_at s i \<Longrightarrow>
      get (ta_touched_flags (tc_accounts t)) i = Some True"
    and access_resize: "resize_tracked s \<Longrightarrow> resize_tracked t \<and> data_base t = data_base s"
  using assms by (auto simp: access_def same_frame_def)

lemma accessI:
  assumes "same_frame s t"
    and "map rc_borrow (ta_accounts (tc_accounts t)) = map rc_borrow (ta_accounts (tc_accounts s))"
    and "\<And>i. i < length (ta_accounts (tc_accounts s)) \<Longrightarrow>
      account_policy (current_program ic s) (writable_in ic i) (account_at s i) (account_at t i)"
    and "\<And>i. i < length (ta_accounts (tc_accounts s)) \<Longrightarrow>
      get (ta_touched_flags (tc_accounts s)) i = Some True \<or> account_at t i \<noteq> account_at s i \<Longrightarrow>
      get (ta_touched_flags (tc_accounts t)) i = Some True"
    and "resize_tracked s \<Longrightarrow> resize_tracked t \<and> data_base t = data_base s"
  shows "access ic s t"
  using assms by (simp add: access_def)

lemma access_trans:
  assumes st: "access ic s t" and tu: "access ic t u"
  shows "access ic s u"
proof (rule accessI)
  note len = access_len [OF st] and frame = access_frame [OF st]
  show "same_frame s u"
    using frame access_frame [OF tu] by (rule same_frame_trans)
  show "map rc_borrow (ta_accounts (tc_accounts u)) = map rc_borrow (ta_accounts (tc_accounts s))"
    using access_flags [OF st] access_flags [OF tu] by simp
  show "resize_tracked u \<and> data_base u = data_base s" if "resize_tracked s"
    using access_resize [OF st that] access_resize [OF tu] by simp
  fix i
  assume i: "i < length (ta_accounts (tc_accounts s))"
  with len have i': "i < length (ta_accounts (tc_accounts t))" by simp
  show "account_policy (current_program ic s) (writable_in ic i) (account_at s i) (account_at u i)"
    using account_policy_trans [OF access_policy [OF st i]] access_policy [OF tu i']
    by (simp add: current_program_frame [OF frame])
  show "get (ta_touched_flags (tc_accounts u)) i = Some True"
    if "get (ta_touched_flags (tc_accounts s)) i = Some True \<or> account_at u i \<noteq> account_at s i"
    using access_touched [OF st i] access_touched [OF tu i'] that by (cases "account_at t i = account_at s i") auto
qed

lemma access_at_refl: "access_at n ic s s"
  by (simp add: access_at_def access_refl)

lemma access_at_trans: "access_at n ic s t \<Longrightarrow> access_at n ic t u \<Longrightarrow> access_at n ic s u"
  unfolding access_at_def using access_trans access_len by metis

interpretation acc: step_frame "access_at n ic" for n ic
  by unfold_locales (rule access_at_refl, rule access_at_trans)

interpretation accg: step_frame "access ic" for ic
  by unfold_locales (rule access_refl, rule access_trans)

lemma keeps_access_at: "(\<And>n. keeps (access_at n ic) m) \<Longrightarrow> keeps (access ic) m"
  by (simp add: keeps_def access_at_def)

section \<open>The setters keep the policy\<close>

text \<open>A handle on which \<^verbatim>\<open>is_writable\<close> speaks about the account it points at.\<close>

definition borrow_ok :: "nat \<Rightarrow> instruction_context \<Rightarrow> borrowed_account \<Rightarrow> bool" where
  "borrow_ok n ic b \<longleftrightarrow>
     ba_instruction_context b = ic \<and> ba_index_in_transaction b < n \<and>
     (ba_is_writable b \<longrightarrow> writable_in ic (ba_index_in_transaction b))"

lemma account_at_update_account:
  "i < length (ta_accounts (tc_accounts tc)) \<Longrightarrow>
     account_at (update_account i f tc) j = (if j = i then f (account_at tc i) else account_at tc j)"
  by (simp add: account_at_def update_account_def update_cell_def)

lemma update_account_fields [simp]:
  "ta_touched_flags (tc_accounts (update_account i f tc)) = ta_touched_flags (tc_accounts tc)"
  "length (ta_accounts (tc_accounts (update_account i f tc))) = length (ta_accounts (tc_accounts tc))"
  "tc_accounts_resize_delta (update_account i f tc) = tc_accounts_resize_delta tc"
  "map rc_borrow (ta_accounts (tc_accounts (update_account i f tc))) =
     map rc_borrow (ta_accounts (tc_accounts tc))"
  by (simp_all add: update_account_def update_cell_def map_update)
    (cases "i < length (ta_accounts (tc_accounts tc))";
      simp add: list_update_same_conv list_update_beyond)

lemma same_frame_update_account [simp]: "same_frame tc (update_account i f tc)"
  by (cases tc) (simp add: same_frame_def update_account_def update_cell_def)

lemma total_data_len_update:
  assumes "i < length (ta_accounts (tc_accounts tc))"
  shows "int (total_data_len (update_account i f tc)) =
    int (total_data_len tc) + int (length (acct_data (f (account_at tc i))))
      - int (length (acct_data (account_at tc i)))"
proof -
  let ?ls = "map (\<lambda>c. length (acct_data (rc_value c))) (ta_accounts (tc_accounts tc))"
  have "total_data_len (update_account i f tc) =
      sum_list (?ls[i := length (acct_data (f (account_at tc i)))])"
    by (simp add: total_data_len_def update_account_def update_cell_def account_at_def map_update)
  moreover have "?ls ! i = length (acct_data (account_at tc i))"
    using assms by (simp add: account_at_def)
  moreover have "?ls ! i \<le> sum_list ?ls"
    using assms by (intro elem_le_sum_list) simp
  ultimately show ?thesis
    using assms sum_list_update [of i ?ls] by (simp add: total_data_len_def)
qed

lemma account_len_le_total:
  "i < length (ta_accounts (tc_accounts tc)) \<Longrightarrow> length (acct_data (account_at tc i)) \<le> total_data_len tc"
  using elem_le_sum_list [of i "map (\<lambda>c. length (acct_data (rc_value c))) (ta_accounts (tc_accounts tc))"]
  by (simp add: total_data_len_def account_at_def)

text \<open>
  One write: touch the account, move the resize delta along with the length of the data, replace
  the account.
\<close>

definition write_step :: "nat \<Rightarrow> (account_shared_data \<Rightarrow> account_shared_data) \<Rightarrow> int \<Rightarrow>
    transaction_context \<Rightarrow> transaction_context" where
  "write_step i f delta tc =
     update_account i f
       (tc\<lparr>tc_accounts := (tc_accounts tc)\<lparr>ta_touched_flags :=
             (ta_touched_flags (tc_accounts tc))[i := True]\<rparr>,
           tc_accounts_resize_delta := delta\<rparr>)"

lemma account_at_write_step:
  assumes "i < length (ta_accounts (tc_accounts s))"
  shows "account_at (write_step i f delta s) j = (if j = i then f (account_at s i) else account_at s j)"
  using assms unfolding write_step_def
  by (subst account_at_update_account) (simp_all add: account_at_def)

lemma access_write_step:
  assumes i: "i < length (ta_accounts (tc_accounts s))" "i < length (ta_touched_flags (tc_accounts s))"
    and policy: "account_policy (current_program ic s) (writable_in ic i) (account_at s i) (f (account_at s i))"
    and delta: "resize_tracked s \<Longrightarrow>
      delta = tc_accounts_resize_delta s + int (length (acct_data (f (account_at s i))))
        - int (length (acct_data (account_at s i))) \<and>
      delta \<le> MAX_PERMITTED_ACCOUNTS_DATA_ALLOCATIONS_PER_TRANSACTION"
  shows "access ic s (write_step i f delta s)"
proof (rule accessI)
  let ?s = "s\<lparr>tc_accounts := (tc_accounts s)\<lparr>ta_touched_flags :=
             (ta_touched_flags (tc_accounts s))[i := True]\<rparr>,
           tc_accounts_resize_delta := delta\<rparr>"
  have same: "account_at ?s j = account_at s j" for j by (simp add: account_at_def)
  have at: "account_at (write_step i f delta s) j =
      (if j = i then f (account_at s i) else account_at s j)" for j
    using i(1) by (rule account_at_write_step)
  have "same_frame s ?s" by (cases s) (simp add: same_frame_def)
  then show "same_frame s (write_step i f delta s)"
    unfolding write_step_def by (rule same_frame_trans) simp
  show "map rc_borrow (ta_accounts (tc_accounts (write_step i f delta s))) =
      map rc_borrow (ta_accounts (tc_accounts s))"
    by (simp add: write_step_def)
  have "int (total_data_len (write_step i f delta s)) =
      int (total_data_len s) + int (length (acct_data (f (account_at s i))))
        - int (length (acct_data (account_at s i)))"
    unfolding write_step_def using i(1)
    by (subst total_data_len_update) (simp_all add: same total_data_len_def)
  then show "resize_tracked (write_step i f delta s) \<and> data_base (write_step i f delta s) = data_base s"
    if "resize_tracked s"
    using delta [OF that] that by (simp add: resize_tracked_def data_base_def write_step_def)
  fix j
  show "account_policy (current_program ic s) (writable_in ic j) (account_at s j)
      (account_at (write_step i f delta s) j)"
    using policy by (simp add: at account_policy_refl)
  show "get (ta_touched_flags (tc_accounts (write_step i f delta s))) j = Some True"
    if "get (ta_touched_flags (tc_accounts s)) j = Some True \<or>
      account_at (write_step i f delta s) j \<noteq> account_at s j"
    using that [unfolded at] i(2)
    by (auto simp: write_step_def get_def nth_list_update split: if_splits)
qed

lemma touch_write_eq:
  "bind (ba_touch b) (\<lambda>_. ba_write b f) tc =
     (if ba_index_in_transaction b < length (ta_touched_flags (tc_accounts tc))
      then (Inr (), write_step (ba_index_in_transaction b) f (tc_accounts_resize_delta tc) tc)
      else (Inl NotEnoughAccountKeys, tc))"
  by (simp add: ba_touch_def ta_touch_def run_simps write_step_def)

lemma touch_resize_write_eq:
  "bind (ba_touch b) (\<lambda>_. bind (update_accounts_resize_delta b new_len) (\<lambda>_. ba_write b f)) tc =
     (if ba_index_in_transaction b < length (ta_touched_flags (tc_accounts tc))
      then (Inr (), write_step (ba_index_in_transaction b) f
             (sat_i64 (tc_accounts_resize_delta tc
               + sat_i64 (int new_len - int (length (ba_get_data b tc))))) tc)
      else (Inl NotEnoughAccountKeys, tc))"
  by (simp add: ba_touch_def ta_touch_def update_accounts_resize_delta_def run_simps write_step_def
      ba_get_data_def ba_account_def account_at_def)

lemma owned_current_program:
  "ba_is_owned_by_current_program b tc \<longleftrightarrow>
     current_program (ba_instruction_context b) tc = Some (acct_owner (ba_account b tc))"
  by (auto simp: ba_is_owned_by_current_program_def current_program_def ba_get_owner_def split: sum.split)

text \<open>A write that keeps the length of the data and conforms to the policy.\<close>

lemma access_at_touch_write:
  assumes b: "borrow_ok n ic b" and run: "bind (ba_touch b) (\<lambda>_. ba_write b f) s = (r, t)"
    and policy: "account_policy (current_program ic s) (writable_in ic (ba_index_in_transaction b))
      (ba_account b s) (f (ba_account b s))"
    and len: "length (acct_data (f (ba_account b s))) = length (acct_data (ba_account b s))"
  shows "access_at n ic s t"
  using assms access_write_step [of "ba_index_in_transaction b" s ic f "tc_accounts_resize_delta s"]
  by (auto simp: touch_write_eq access_at_def borrow_ok_def ba_account_def access_refl resize_tracked_def
      split: if_splits)

text \<open>Within the permitted sizes nothing saturates.\<close>

lemma resize_delta_exact:
  assumes "resize_tracked s" and "ba_index_in_transaction b < length (ta_accounts (tc_accounts s))"
    and "can_data_be_resized b new_len s = Inr ()"
  shows "sat_i64 (tc_accounts_resize_delta s + sat_i64 (int new_len - int (length (ba_get_data b s)))) =
      tc_accounts_resize_delta s + int new_len - int (length (ba_get_data b s))"
    and "tc_accounts_resize_delta s + int new_len - int (length (ba_get_data b s))
      \<le> MAX_PERMITTED_ACCOUNTS_DATA_ALLOCATIONS_PER_TRANSACTION"
proof -
  let ?old = "int (length (ba_get_data b s))" and ?d = "tc_accounts_resize_delta s"
  have le: "?old \<le> int (total_data_len s)"
    using account_len_le_total [OF assms(2)] by (simp add: ba_get_data_def ba_account_def)
  have base: "0 \<le> int (total_data_len s) - ?d" "int (total_data_len s) - ?d < 2 ^ 62" "?d \<le> 20971520"
    using assms(1) by (auto simp: resize_tracked_def data_base_def)
  have new: "int new_len \<le> 10485760"
    using assms(3) by (auto simp: can_data_be_resized_def Let_def split: if_splits)
  from base le new have inner: "sat_i64 (int new_len - ?old) = int new_len - ?old"
    by (intro sat_i64_id) auto
  from base le new have outer: "sat_i64 (?d + (int new_len - ?old)) = ?d + (int new_len - ?old)"
    by (intro sat_i64_id) auto
  show "sat_i64 (?d + sat_i64 (int new_len - ?old)) = ?d + int new_len - ?old"
    by (simp only: inner outer)
  then show "?d + int new_len - ?old \<le> MAX_PERMITTED_ACCOUNTS_DATA_ALLOCATIONS_PER_TRANSACTION"
    using assms(3) by (auto simp: can_data_be_resized_def Let_def inner outer split: if_splits)
qed

lemma can_data_be_changed_Inr:
  "can_data_be_changed b tc = Inr u \<longleftrightarrow>
     \<not> ba_is_executable b tc \<and> ba_is_writable b \<and> ba_is_owned_by_current_program b tc"
  by (simp add: can_data_be_changed_def)

lemma access_at_touch_resize_write:
  assumes b: "borrow_ok n ic b"
    and run: "bind (ba_touch b) (\<lambda>_. bind (update_accounts_resize_delta b new_len) (\<lambda>_. ba_write b f)) s = (r, t)"
    and resized: "can_data_be_resized b new_len s = Inr ()"
    and changed: "can_data_be_changed b s = Inr ()"
    and f: "\<exists>d. length d = new_len \<and> f (ba_account b s) = (ba_account b s)\<lparr>acct_data := d\<rparr>"
  shows "access_at n ic s t"
proof -
  let ?i = "ba_index_in_transaction b"
  let ?delta = "sat_i64 (tc_accounts_resize_delta s + sat_i64 (int new_len - int (length (ba_get_data b s))))"
  have policy: "account_policy (current_program ic s) (writable_in ic ?i) (account_at s ?i) (f (account_at s ?i))"
    using b changed f
    by (auto simp: can_data_be_changed_Inr owned_current_program account_policy_def borrow_ok_def
        ba_account_def ba_is_executable_def)
  have "access ic s (write_step ?i f ?delta s)"
    if n: "length (ta_accounts (tc_accounts s)) = n" and touched: "?i < length (ta_touched_flags (tc_accounts s))"
  proof (rule access_write_step)
    have i: "?i < length (ta_accounts (tc_accounts s))" using b n by (simp add: borrow_ok_def)
    then show "?i < length (ta_accounts (tc_accounts s))" .
    show "?delta = tc_accounts_resize_delta s + int (length (acct_data (f (account_at s ?i))))
        - int (length (acct_data (account_at s ?i))) \<and>
      ?delta \<le> MAX_PERMITTED_ACCOUNTS_DATA_ALLOCATIONS_PER_TRANSACTION" if "resize_tracked s"
      using resize_delta_exact [OF that i resized] f by (auto simp: ba_get_data_def ba_account_def)
  qed (fact touched policy)+
  with run show ?thesis
    by (auto simp: touch_resize_write_eq access_at_def access_refl split: if_splits)
qed

text \<open>Each setter.\<close>

lemmas guard_simps = owned_current_program account_policy_def borrow_ok_def ba_is_executable_def
  ba_get_owner_def ba_get_lamports_def ba_get_data_def

lemma keeps_set_lamports [frame_intros]:
  assumes b: "borrow_ok n ic b"
  shows "keeps (access_at n ic) (ba_set_lamports b l)"
proof (rule keepsI)
  fix s r t
  assume "ba_set_lamports b l s = (r, t)"
  then consider "t = s"
    | "bind (ba_touch b) (\<lambda>_. ba_write b (\<lambda>a. a\<lparr>acct_lamports := l\<rparr>)) s = (r, t)"
      "ba_is_owned_by_current_program b s \<or> ba_get_lamports b s \<le> l" "ba_is_writable b"
      "\<not> ba_is_executable b s"
    by (auto simp: ba_set_lamports_def not_less split: if_splits)
  then show "access_at n ic s t"
  proof cases
    case 2
    show ?thesis
      by (rule access_at_touch_write [OF b 2(1)]) (use 2 b in \<open>auto simp: guard_simps\<close>)
  qed (simp add: access_at_refl)
qed

lemma keeps_set_owner [frame_intros]:
  assumes b: "borrow_ok n ic b"
  shows "keeps (access_at n ic) (ba_set_owner b key)"
proof (rule keepsI)
  fix s r t
  assume "ba_set_owner b key s = (r, t)"
  then consider "t = s"
    | "bind (ba_touch b) (\<lambda>_. ba_write b (\<lambda>a. a\<lparr>acct_owner := key\<rparr>)) s = (r, t)"
      "ba_is_owned_by_current_program b s" "ba_is_writable b" "\<not> ba_is_executable b s"
      "is_zeroed (ba_get_data b s)"
    by (auto simp: ba_set_owner_def split: if_splits)
  then show "access_at n ic s t"
  proof cases
    case 2
    show ?thesis
      by (rule access_at_touch_write [OF b 2(1)]) (use 2 b in \<open>auto simp: guard_simps\<close>)
  qed (simp add: access_at_refl)
qed

lemma keeps_set_executable [frame_intros]:
  assumes b: "borrow_ok n ic b"
  shows "keeps (access_at n ic) (ba_set_executable b ex)"
proof (rule keepsI)
  fix s r t
  assume "ba_set_executable b ex s = (r, t)"
  then consider "t = s"
    | "bind (ba_touch b) (\<lambda>_. ba_write b (\<lambda>a. a\<lparr>acct_executable := ex\<rparr>)) s = (r, t)"
      "ba_is_owned_by_current_program b s" "ba_is_writable b" "\<not> ba_is_executable b s"
    by (auto simp: ba_set_executable_def split: if_splits)
  then show "access_at n ic s t"
  proof cases
    case 2
    show ?thesis
      by (rule access_at_touch_write [OF b 2(1)]) (use 2 b in \<open>auto simp: guard_simps\<close>)
  qed (simp add: access_at_refl)
qed

lemma keeps_checked_add_lamports [frame_intros]:
  "borrow_ok n ic b \<Longrightarrow> keeps (access_at n ic) (ba_checked_add_lamports b l)"
  unfolding ba_checked_add_lamports_def by (intro frame_intros)

lemma keeps_checked_sub_lamports [frame_intros]:
  "borrow_ok n ic b \<Longrightarrow> keeps (access_at n ic) (ba_checked_sub_lamports b l)"
  unfolding ba_checked_sub_lamports_def by (intro frame_intros)

lemma keeps_with_data_mut [frame_intros]:
  assumes b: "borrow_ok n ic b"
  shows "keeps (access_at n ic) (ba_with_data_mut b f)"
proof (rule keepsI)
  fix s r t
  assume run: "ba_with_data_mut b f s = (r, t)"
  let ?w = "\<lambda>g. bind (ba_touch b) (\<lambda>_. ba_write b g) s"
  obtain g where g: "t = s \<or> t = snd (?w g) \<and> can_data_be_changed b s = Inr ()"
    and len: "\<And>a. g a = a \<or> (\<exists>d. g a = a\<lparr>acct_data := d\<rparr> \<and> length d = length (acct_data a))"
  proof (cases "can_data_be_changed b s = Inr () \<and>
      ba_index_in_transaction b < length (ta_touched_flags (tc_accounts s))")
    case True
    let ?g = "\<lambda>a. case f (ba_get_data b s) of Inl e \<Rightarrow> a
      | Inr d \<Rightarrow> if length d = length (acct_data a) then a\<lparr>acct_data := d\<rparr> else a"
    have same: "ba_get_data b (s\<lparr>tc_accounts := (tc_accounts s)\<lparr>ta_touched_flags := fl\<rparr>\<rparr>) = ba_get_data b s" for fl
      by (simp add: ba_get_data_def ba_account_def account_at_def)
    have id_upd: "update_account i (\<lambda>a. a) tc = tc" for i tc
      by (simp add: update_account_def update_cell_def)
    show ?thesis
    proof (rule that)
      show "t = s \<or> t = snd (?w ?g) \<and> can_data_be_changed b s = Inr ()"
        using True run
        by (auto simp: ba_with_data_mut_def run_simps ba_touch_def ta_touch_def same id_upd
            split: sum.splits)
    qed (auto split: sum.splits)
  next
    case False
    with run have "t = s"
      by (auto simp: ba_with_data_mut_def run_simps ba_touch_def ta_touch_def split: sum.splits)
    with that [of "\<lambda>a. a"] show ?thesis by simp
  qed
  show "access_at n ic s t"
  proof (cases "t = s")
    case False
    with g have t: "?w g = (fst (?w g), t)" and ch: "can_data_be_changed b s = Inr ()"
      by (simp_all add: prod_eq_iff)
    show ?thesis
      by (rule access_at_touch_write [OF b t])
        (use ch b len [of "ba_account b s"] in \<open>auto simp: can_data_be_changed_Inr guard_simps\<close>)
  qed (simp add: access_at_refl)
qed

lemma keeps_set_state [frame_intros]:
  "borrow_ok n ic b \<Longrightarrow> keeps (access_at n ic) (ba_set_state c b st)"
  unfolding ba_set_state_def by (rule keeps_with_data_mut)

text \<open>The setters that resize share their shape.\<close>

definition resize_write :: "borrowed_account \<Rightarrow> nat \<Rightarrow> (account_shared_data \<Rightarrow> account_shared_data) \<Rightarrow> unit tx_action" where
  "resize_write b new_len f =
     bind (reads (can_data_be_resized b new_len)) (\<lambda>_.
     bind (reads (can_data_be_changed b)) (\<lambda>_.
     bind (ba_touch b) (\<lambda>_.
     bind (update_accounts_resize_delta b new_len) (\<lambda>_.
     ba_write b f))))"

lemma access_at_resize_write:
  assumes b: "borrow_ok n ic b" and run: "resize_write b new_len f s = (r, t)"
    and f: "\<exists>d. length d = new_len \<and> f (ba_account b s) = (ba_account b s)\<lparr>acct_data := d\<rparr>"
  shows "access_at n ic s t"
proof (cases "can_data_be_resized b new_len s = Inr () \<and> can_data_be_changed b s = Inr ()")
  case True
  with run have "bind (ba_touch b) (\<lambda>_. bind (update_accounts_resize_delta b new_len) (\<lambda>_. ba_write b f)) s = (r, t)"
    by (simp add: resize_write_def bind_def reads_def)
  then show ?thesis
    by (rule access_at_touch_resize_write [OF b]) (use True f in auto)
next
  case False
  with run have "t = s"
    by (auto simp: resize_write_def bind_def reads_def split: sum.splits)
  then show ?thesis by (simp add: access_at_refl)
qed

lemma keeps_set_data [frame_intros]:
  "borrow_ok n ic b \<Longrightarrow> keeps (access_at n ic) (ba_set_data b d)"
  unfolding ba_set_data_def resize_write_def [symmetric]
  by (rule keepsI, erule (1) access_at_resize_write) (auto simp: acct_set_data_def)

lemma keeps_set_data_from_slice [frame_intros]:
  "borrow_ok n ic b \<Longrightarrow> keeps (access_at n ic) (ba_set_data_from_slice sh b d)"
  unfolding ba_set_data_from_slice_def resize_write_def [symmetric]
  by (rule keepsI, erule (1) access_at_resize_write)
    (auto simp: acct_set_data_from_slice_eq acct_set_data_def)

lemma set_data_length_cases:
  "ba_set_data_length b m s =
     (if length (ba_get_data b s) = m \<and> can_data_be_resized b m s = Inr () \<and> can_data_be_changed b s = Inr ()
      then (Inr (), s) else resize_write b m (acct_resize m 0) s)"
  by (auto simp: ba_set_data_length_def resize_write_def bind_def reads_def gets_def ret_def
      split: sum.splits)

lemma keeps_set_data_length [frame_intros]:
  assumes "borrow_ok n ic b"
  shows "keeps (access_at n ic) (ba_set_data_length b m)"
proof (rule keepsI)
  fix s r t
  assume "ba_set_data_length b m s = (r, t)"
  then consider "t = s" | "resize_write b m (acct_resize m 0) s = (r, t)"
    by (auto simp: set_data_length_cases split: if_splits)
  then show "access_at n ic s t"
  proof cases
    case 2
    then show ?thesis
      by (rule access_at_resize_write [OF assms])
        (rule exI [of _ "vec_resize m 0 (acct_data (ba_account b s))"], simp add: acct_resize_def)
  qed (simp add: access_at_refl)
qed

lemma extend_cases:
  "ba_extend_from_slice b d s =
     (if d = [] \<and> can_data_be_resized b (length (ba_get_data b s)) s = Inr () \<and> can_data_be_changed b s = Inr ()
      then (Inr (), s)
      else resize_write b (length (ba_get_data b s) + length d) (acct_extend_from_slice d) s)"
  by (auto simp: ba_extend_from_slice_def resize_write_def bind_def reads_def gets_def ret_def
      split: sum.splits)

lemma keeps_extend_from_slice [frame_intros]:
  assumes "borrow_ok n ic b"
  shows "keeps (access_at n ic) (ba_extend_from_slice b d)"
proof (rule keepsI)
  fix s r t
  assume "ba_extend_from_slice b d s = (r, t)"
  then consider "t = s"
    | "resize_write b (length (ba_get_data b s) + length d) (acct_extend_from_slice d) s = (r, t)"
    by (auto simp: extend_cases split: if_splits)
  then show "access_at n ic s t"
  proof cases
    case 2
    then show ?thesis
      by (rule access_at_resize_write [OF assms])
        (rule exI [of _ "acct_data (ba_account b s) @ d"],
          simp add: acct_extend_from_slice_def ba_get_data_def)
  qed (simp add: access_at_refl)
qed

section \<open>Borrow scopes keep the policy\<close>

text \<open>Instruction contexts whose accounts fit the index type.\<close>

definition ic_small :: "instruction_context \<Rightarrow> bool" where
  "ic_small ic \<longleftrightarrow> length (ic_program_accounts ic) + length (ic_instruction_accounts ic) < 65536"

text \<open>Moving one borrow flag is invisible to everything but the flags.\<close>

definition set_flag :: "nat \<Rightarrow> borrow_flag \<Rightarrow> transaction_context \<Rightarrow> transaction_context" where
  "set_flag i fl = update_cell i (\<lambda>c. c\<lparr>rc_borrow := fl\<rparr>)"

lemma set_flag_fields [simp]:
  "account_at (set_flag i fl tc) j = account_at tc j"
  "ta_touched_flags (tc_accounts (set_flag i fl tc)) = ta_touched_flags (tc_accounts tc)"
  "length (ta_accounts (tc_accounts (set_flag i fl tc))) = length (ta_accounts (tc_accounts tc))"
  "tc_accounts_resize_delta (set_flag i fl tc) = tc_accounts_resize_delta tc"
  "tc_account_keys (set_flag i fl tc) = tc_account_keys tc"
  "map rc_borrow (ta_accounts (tc_accounts (set_flag i fl tc))) =
     (map rc_borrow (ta_accounts (tc_accounts tc)))[i := fl]"
  by (cases "i < length (ta_accounts (tc_accounts tc))";
      simp add: set_flag_def update_cell_def account_at_def map_update nth_list_update list_update_beyond)+

lemma total_data_len_set_flag [simp]: "total_data_len (set_flag i fl tc) = total_data_len tc"
  unfolding total_data_len_def
  by (rule arg_cong [where f = sum_list], rule nth_equalityI)
    (use set_flag_fields(1) [of i fl tc, unfolded account_at_def] in simp_all)

lemma same_frame_set_flag [simp]: "same_frame tc (set_flag i fl tc)"
  by (cases tc) (simp add: same_frame_def set_flag_def update_cell_def)

lemma same_frame_sym: "same_frame s t \<Longrightarrow> same_frame t s"
  by (cases s; cases t) (simp add: same_frame_def)

text \<open>Running inside a flag change and undoing it afterwards.\<close>

lemma access_flag_bracket:
  assumes acc: "access ic (set_flag i Writing s) u"
    and unused: "i < length (ta_accounts (tc_accounts s))" "rc_borrow (ta_accounts (tc_accounts s) ! i) = Unused"
  shows "access ic s (set_flag i Unused u)"
proof (rule accessI)
  have frame: "same_frame s u"
    using same_frame_trans [OF same_frame_set_flag access_frame [OF acc]] .
  then show "same_frame s (set_flag i Unused u)"
    by (rule same_frame_trans) simp
  have cur: "current_program ic (set_flag i Writing s) = current_program ic s"
    by (rule current_program_frame) simp
  show "map rc_borrow (ta_accounts (tc_accounts (set_flag i Unused u))) =
      map rc_borrow (ta_accounts (tc_accounts s))"
    using access_flags [OF acc] unused by (simp add: list_update_same_conv)
  show "resize_tracked (set_flag i Unused u) \<and> data_base (set_flag i Unused u) = data_base s"
    if "resize_tracked s"
    using access_resize [OF acc] that by (simp add: resize_tracked_def data_base_def)
  fix j
  assume j: "j < length (ta_accounts (tc_accounts s))"
  show "account_policy (current_program ic s) (writable_in ic j) (account_at s j)
      (account_at (set_flag i Unused u) j)"
    using access_policy [OF acc, of j] j by (simp add: cur)
  show "get (ta_touched_flags (tc_accounts (set_flag i Unused u))) j = Some True"
    if "get (ta_touched_flags (tc_accounts s)) j = Some True \<or>
      account_at (set_flag i Unused u) j \<noteq> account_at s j"
    using access_touched [OF acc, of j] that j by simp
qed

lemma try_borrow_account_eq:
  "try_borrow_account ic i j tc =
     (if \<not> i < length (ta_accounts (tc_accounts tc)) then (Inl MissingAccount, tc)
      else if rc_borrow (ta_accounts (tc_accounts tc) ! i) \<noteq> Unused then (Inl AccountBorrowFailed, tc)
      else (Inr \<lparr>ba_instruction_context = ic, ba_index_in_transaction = i,
                 ba_index_in_instruction = j\<rparr>, set_flag i Writing tc))"
  by (auto simp: try_borrow_account_def run_simps ta_get_def get_def can_borrow_mut_def set_flag_def)

lemma release_set_flag: "release b = set_flag (ba_index_in_transaction b) Unused"
  by (simp add: release_def set_flag_def fun_eq_iff)

lemma keeps_with_borrow_account:
  assumes body: "\<And>n b. borrow_ok n ic b \<Longrightarrow> b = \<lparr>ba_instruction_context = ic, ba_index_in_transaction = i,
      ba_index_in_instruction = j\<rparr> \<Longrightarrow> keeps (access_at n ic) (body b)"
    and writable: "ba_is_writable \<lparr>ba_instruction_context = ic, ba_index_in_transaction = i,
      ba_index_in_instruction = j\<rparr> \<Longrightarrow> writable_in ic i"
  shows "keeps (access ic) (with_borrowed (try_borrow_account ic i j) body)"
proof (rule keepsI)
  fix s r t
  assume run: "with_borrowed (try_borrow_account ic i j) body s = (r, t)"
  let ?b = "\<lparr>ba_instruction_context = ic, ba_index_in_transaction = i, ba_index_in_instruction = j\<rparr>"
  show "access ic s t"
  proof (cases "i < length (ta_accounts (tc_accounts s)) \<and> rc_borrow (ta_accounts (tc_accounts s) ! i) = Unused")
    case True
    let ?s = "set_flag i Writing s"
    obtain u where u: "body ?b ?s = (r, u)" and t: "t = set_flag i Unused u"
      using run True by (auto simp: with_borrowed_def try_borrow_account_eq release_set_flag split: prod.splits)
    have "borrow_ok (length (ta_accounts (tc_accounts s))) ic ?b"
      using True writable by (simp add: borrow_ok_def)
    from keepsD [OF body [OF this refl] u] have "access ic ?s u"
      by (simp add: access_at_def)
    with True show ?thesis unfolding t by (intro access_flag_bracket) auto
  next
    case False
    with run have "t = s" by (auto simp: with_borrowed_def try_borrow_account_eq split: if_splits)
    then show ?thesis by (simp add: access_refl)
  qed
qed

lemma keeps_access_weaken: "keeps (access ic) m \<Longrightarrow> keeps (access_at n ic) m"
  by (simp add: keeps_def access_at_def)

lemma with_borrowed_reads:
  "with_borrowed (bind (reads (\<lambda>_. x)) f) body =
     (case x of Inl e \<Rightarrow> throw e | Inr a \<Rightarrow> with_borrowed (f a) body)"
  by (rule ext) (simp add: with_borrowed_def bind_def reads_def throw_def split: sum.splits)

lemma writable_index:
  assumes "ic_small ic" and "get_index_of_instruction_account_in_transaction ic k = Inr i"
    and "ba_is_writable \<lparr>ba_instruction_context = ic, ba_index_in_transaction = i,
      ba_index_in_instruction = sat_add_u16 (get_number_of_program_accounts ic) k\<rparr>"
  shows "writable_in ic i"
proof -
  from assms(2) have k: "k < length (ic_instruction_accounts ic)"
    and i: "ia_index_in_transaction (ic_instruction_accounts ic ! k) = i"
    by (auto simp: get_index_of_instruction_account_in_transaction_def ok_or_Inr get_Some)
  with assms(1,3) have "ia_is_writable (ic_instruction_accounts ic ! k)"
    by (auto simp: ba_is_writable_def Let_def ic_small_def get_number_of_program_accounts_def
        sat_add_u16_def is_instruction_account_writable_def get_def split: if_splits)
  with k i show ?thesis
    by (auto simp: writable_in_def list_ex_iff)
qed

lemma keeps_with_instruction_account:
  assumes ic: "ic_small ic" and body: "\<And>n b. borrow_ok n ic b \<Longrightarrow> keeps (access_at n ic) (body b)"
  shows "keeps (access ic) (with_instruction_account ic k body)"
proof (cases "get_index_of_instruction_account_in_transaction ic k")
  case (Inl e)
  then show ?thesis
    by (simp add: try_borrow_instruction_account_def with_borrowed_reads accg.keeps_throw)
next
  case (Inr i)
  then show ?thesis
    unfolding try_borrow_instruction_account_def with_borrowed_reads
    by (simp only: sum.case) (rule keeps_with_borrow_account, rule body, assumption, rule writable_index [OF ic])
qed

lemma keeps_with_program_account:
  assumes body: "\<And>n b. borrow_ok n ic b \<Longrightarrow> keeps (access_at n ic) (body b)"
    and k: "k < get_number_of_program_accounts ic"
  shows "keeps (access ic) (with_borrowed (try_borrow_program_account ic k) body)"
proof (cases "get_index_of_program_account_in_transaction ic k")
  case (Inl e)
  then show ?thesis
    by (simp add: try_borrow_program_account_def with_borrowed_reads accg.keeps_throw)
next
  case (Inr i)
  then show ?thesis
    unfolding try_borrow_program_account_def with_borrowed_reads
    by (simp only: sum.case) (rule keeps_with_borrow_account, rule body, assumption,
        simp add: ba_is_writable_def k)
qed

lemma keeps_with_instruction_account_at [frame_intros]:
  "ic_small ic \<Longrightarrow> (\<And>n b. borrow_ok n ic b \<Longrightarrow> keeps (access_at n ic) (body b)) \<Longrightarrow>
     keeps (access_at n ic) (with_instruction_account ic k body)"
  by (rule keeps_access_weaken) (rule keeps_with_instruction_account)

section \<open>Functional behaviour\<close>

text \<open>What a successful setter did to its account.\<close>

lemma set_lamports_ok:
  assumes "ba_set_lamports b l s = (Inr u, t)" and "ba_index_in_transaction b < length (ta_accounts (tc_accounts s))"
  shows "account_at t j =
    (if j = ba_index_in_transaction b then (ba_account b s)\<lparr>acct_lamports := l\<rparr> else account_at s j)"
  using assms
  by (auto simp: ba_set_lamports_def touch_write_eq account_at_write_step
      ba_account_def ba_get_lamports_def split: if_splits)

lemma set_state_get_state:
  assumes c: "codec_round_trip c" and run: "ba_set_state c b st s = (Inr u, t)"
    and i: "ba_index_in_transaction b < length (ta_accounts (tc_accounts s))"
  shows "ba_get_state c b t = Inr st"
proof -
  obtain enc where enc: "c_encode c st = Some enc" "length enc \<le> length (ba_get_data b s)"
    and t: "ba_get_data b t = overwrite_prefix enc (ba_get_data b s)"
    using run i
    by (auto simp: ba_set_state_def ba_with_data_mut_def ba_touch_def ta_touch_def run_simps
        ba_get_data_def ba_account_def account_at_def update_account_def update_cell_def
        split: sum.splits option.splits if_splits)
  from c enc(1) have "c_decode c (ba_get_data b t) = Some st"
    unfolding t by (rule codec_overwrite)
  then show ?thesis by (simp add: ba_get_state_def)
qed

lemmas ba_eval [eval_simps] = with_borrowed_def try_borrow_instruction_account_def
  try_borrow_program_account_def try_borrow_last_program_account_def try_borrow_account_def
  update_cell_def release_def update_account_def account_at_def ba_account_def
  ba_get_key_def ba_get_owner_def ba_get_lamports_def ba_get_data_def ba_is_executable_def
  ba_is_signer_def ba_is_writable_def ba_is_owned_by_current_program_def ba_touch_def ta_touch_def
  ba_set_lamports_def ba_checked_add_lamports_def ba_checked_sub_lamports_def

end
