(* ===== verification/Context_Properties.thy ===== *)
theory Context_Properties
  imports Borrowed_Account
begin

text \<open>
  The life of a transaction context as a step relation, with the invariant of every reachable context,
  and a concrete context on which properties are applied: two accounts and the system program, inside
  one instruction of the system program.
\<close>

definition demo_key :: "nat \<Rightarrow> pubkey" where
  "demo_key n = Pubkey (replicate 31 0 @ [of_nat n])"

definition demo_ic :: instruction_context where
  "demo_ic =
     \<lparr>ic_nesting_level = 0, ic_instruction_accounts_lamport_sum = 107,
      ic_program_accounts = [2],
      ic_instruction_accounts =
        [\<lparr>ia_index_in_transaction = 0, ia_index_in_caller = 0, ia_index_in_callee = 0,
          ia_is_signer = True, ia_is_writable = True\<rparr>,
         \<lparr>ia_index_in_transaction = 1, ia_index_in_caller = 1, ia_index_in_callee = 1,
          ia_is_signer = False, ia_is_writable = True\<rparr>],
      ic_instruction_data = [1]\<rparr>"

text \<open>The accounts hold 100 and 7 lamports; the first one belongs to the system program.\<close>

definition demo_tc :: transaction_context where
  "demo_tc =
     (transaction_context_new
        [(demo_key 1, shared_create 100 [] system_program_id False 0),
         (demo_key 2, shared_create 7 [1, 2] (demo_key 9) False 0),
         (system_program_id, shared_create 1 [] native_loader_id True 0)] rent_default 4 8)
     \<lparr>tc_instruction_stack := [0],
      tc_instruction_trace := [demo_ic, instruction_context_default]\<rparr>"

lemmas demo_eval [eval_simps] = demo_key_def demo_ic_def demo_tc_def

lemma demo_ic_small: "ic_small demo_ic"
  by (simp add: ic_small_def demo_ic_def)

lemma demo_current: "get_current_instruction_context demo_tc = Inr demo_ic"
  by (simp add: eval_simps)

lemma demo_tc_inv: "tc_inv demo_tc"
  by (simp add: tc_inv_def eval_simps)

section \<open>Life of a transaction context\<close>

text \<open>
  The steps the runtime takes on a transaction context: configuring the next instruction, pushing and
  popping (with any outcome), setting return data, and whatever a program does through its borrowed
  accounts.
\<close>

inductive tc_step :: "transaction_context \<Rightarrow> transaction_context \<Rightarrow> bool" where
  configure: "with_next_instruction_context (ic_configure ps ias d) s = (r, t) \<Longrightarrow> tc_step s t"
| push: "tc_push s = (r, t) \<Longrightarrow> tc_step s t"
| pop: "tc_pop s = (r, t) \<Longrightarrow> tc_step s t"
| return_data: "set_return_data key d s = (r, t) \<Longrightarrow> tc_step s t"
| program: "access ic s t \<Longrightarrow> tc_step s t"

inductive tc_reachable :: "transaction_context \<Rightarrow> bool" where
  new: "tc_reachable (transaction_context_new accounts rent stack_capacity trace_capacity)"
| step: "tc_reachable s \<Longrightarrow> tc_step s t \<Longrightarrow> tc_reachable t"

lemma tc_inv_frame:
  assumes "same_frame s t" and "tc_inv s"
  shows "tc_inv t"
  using assms by (cases s; cases t) (simp add: same_frame_def tc_inv_def)

lemma tc_step_inv: "tc_step s t \<Longrightarrow> tc_inv s \<Longrightarrow> tc_inv t"
proof (induction rule: tc_step.induct)
  case (return_data key d s r t)
  then show ?case by (auto simp: set_return_data_def modify_def tc_inv_def)
qed (auto intro: with_next_keeps_inv tc_push_keeps_inv tc_pop_keeps_inv tc_inv_frame access_frame)

lemma tc_reachable_inv: "tc_reachable tc \<Longrightarrow> tc_inv tc"
  by (induction rule: tc_reachable.induct) (auto intro: tc_inv_new tc_step_inv)

section \<open>Properties\<close>

text \<open>
  (C12) In every transaction context the runtime can reach, the instruction stack and trace stay
  within their capacities, there is one key and one touched flag per account, and the context found
  at a nesting level records that level, so the assertion in \<^verbatim>\<open>get_instruction_context_at_nesting_level\<close>
  never fires and a live stack always has a current instruction.
\<close>

theorem tc_reachable_bounded:
  assumes "tc_reachable tc"
  shows "length (tc_instruction_stack tc) \<le> tc_instruction_stack_capacity tc \<and>
    get_instruction_trace_length tc \<le> tc_instruction_trace_capacity tc \<and>
    length (tc_account_keys tc) = length (ta_accounts (tc_accounts tc)) \<and>
    (\<forall>k < length (tc_instruction_stack tc).
       \<exists>ic. get_instruction_context_at_nesting_level tc k = Inr ic \<and> ic_nesting_level ic = k)"
  using tc_reachable_inv [OF assms]
  by (auto simp: tc_inv_def get_instruction_trace_length_def get_instruction_context_at_nesting_level_def
      get_instruction_context_at_index_in_trace_def get_def)

theorem tc_reachable_bounded_witness:
  "\<exists>tc. tc_reachable tc \<and> length (tc_instruction_stack tc) = 1 \<and>
     (\<exists>ic. get_instruction_context_at_nesting_level tc 0 = Inr ic \<and> ic_nesting_level ic = 0)"
proof -
  let ?s = "transaction_context_new [] rent_default 4 8" and ?t = "snd (tc_push (transaction_context_new [] rent_default 4 8))"
  have "tc_reachable ?t"
    by (rule tc_reachable.step [OF tc_reachable.new tc_step.push]) (rule surjective_pairing)
  moreover have "length (tc_instruction_stack ?t) = 1"
    by (simp add: eval_simps run_simps)
  ultimately show ?thesis
    using tc_reachable_bounded [of ?t] by (intro exI [of _ ?t]) simp
qed

text \<open>
  (C14) The lamport sum of an instruction is exact: the 128-bit addition never overflows, and a sum
  that is returned is the sum of the lamports of the instruction's accounts, each counted once.
\<close>

theorem lamport_sum_exact:
  "instruction_accounts_lamport_sum tc ic \<noteq> Inl ArithmeticOverflow \<and>
   (\<forall>s. instruction_accounts_lamport_sum tc ic = Inr s \<longrightarrow>
      unat s = (\<Sum>k \<leftarrow> [0 ..< get_number_of_instruction_accounts ic]. counted_lamports tc ic k))"
  by (simp add: instruction_accounts_lamport_sum_no_overflow instruction_accounts_lamport_sum_exact)

theorem lamport_sum_exact_witness:
  "instruction_accounts_lamport_sum demo_tc demo_ic = Inr 107 \<and>
   (\<Sum>k \<leftarrow> [0 ..< get_number_of_instruction_accounts demo_ic]. counted_lamports demo_tc demo_ic k) = 107"
proof -
  have "instruction_accounts_lamport_sum demo_tc demo_ic = Inr 107"
    by (simp add: eval_simps upt_rec)
  with lamport_sum_exact [of demo_tc demo_ic] show ?thesis by fastforce
qed

text \<open>
  What popping looks at, in terms of the accounts themselves: an account with a given borrow state, and
  the instruction account at a position, which counts unless it repeats an earlier one.
\<close>

definition borrow_at :: "transaction_context \<Rightarrow> nat \<Rightarrow> borrow_flag option" where
  "borrow_at tc i = map_option rc_borrow (get (ta_accounts (tc_accounts tc)) i)"

definition first_occurrence :: "instruction_context \<Rightarrow> nat \<Rightarrow> bool" where
  "first_occurrence ic k \<longleftrightarrow> ia_index_in_callee (ic_instruction_accounts ic ! k) = k"

definition readable_at :: "transaction_context \<Rightarrow> instruction_context \<Rightarrow> nat \<Rightarrow> bool" where
  "readable_at tc ic k \<longleftrightarrow>
     borrow_at tc (ia_index_in_transaction (ic_instruction_accounts ic ! k)) \<notin> {None, Some Writing}"

lemma no_outstanding_iff:
  "check_no_outstanding tc is = Inr () \<longleftrightarrow> (\<forall>i \<in> set is. borrow_at tc i = Some Unused)"
  by (induction "is") (auto simp: and_then_def get_account_at_index_def ok_or_def ta_get_def borrow_at_def
      can_borrow_mut_def split: option.splits sum.splits)

lemma lamport_sum_loop_returns:
  assumes "unat acc + length ks * 2 ^ 64 < 2 ^ 128" and "\<forall>k \<in> set ks. k < length (ic_instruction_accounts ic)"
  shows "(\<exists>s. lamport_sum_loop tc ic ks acc = Inr s) \<longleftrightarrow> (\<forall>k \<in> set ks. first_occurrence ic k \<longrightarrow> readable_at tc ic k)"
  using assms
proof (induction ks arbitrary: acc)
  case (Cons k ks)
  let ?ia = "ic_instruction_accounts ic ! k"
  have ia: "get (ic_instruction_accounts ic) k = Some ?ia" using Cons.prems(2) by (simp add: get_def)
  show ?case
  proof (cases "first_occurrence ic k \<and> readable_at tc ic k")
    case True
    then obtain cell where cell: "get (ta_accounts (tc_accounts tc)) (ia_index_in_transaction ?ia) = Some cell" "can_borrow cell"
      by (auto simp: readable_at_def borrow_at_def can_borrow_def)
    let ?l = "ucast (acct_lamports (rc_value cell)) :: u128"
    have fits: "unat ?l + unat acc + length ks * 2 ^ 64 < 2 ^ 128"
      using Cons.prems(1) u64_less [of "acct_lamports (rc_value cell)"] by (simp add: lamports_u128)
    then have sum: "checked_add ?l acc = Some (?l + acc)" "unat (?l + acc) = unat ?l + unat acc"
      by (simp_all add: checked_add_def unat_word_ariths(1))
    have "lamport_sum_loop tc ic (k # ks) acc = lamport_sum_loop tc ic ks (?l + acc)"
      using True ia cell sum(1)
      by (simp add: first_occurrence_def is_instruction_account_duplicate_def and_then_def ok_or_def
          get_index_of_instruction_account_in_transaction_def get_account_at_index_def ta_get_def)
    with Cons.IH [of "?l + acc"] Cons.prems(2) True fits sum(2) show ?thesis by simp
  next
    case False
    show ?thesis
    proof (cases "first_occurrence ic k")
      case True
      with False ia show ?thesis
        by (auto simp: first_occurrence_def readable_at_def borrow_at_def can_borrow_def and_then_def ok_or_def
            is_instruction_account_duplicate_def get_index_of_instruction_account_in_transaction_def
            get_account_at_index_def ta_get_def split: option.splits)
    next
      case twice: False
      with ia have "lamport_sum_loop tc ic (k # ks) acc = lamport_sum_loop tc ic ks acc"
        by (simp add: first_occurrence_def is_instruction_account_duplicate_def and_then_def ok_or_def)
      with Cons.IH [of acc] Cons.prems twice show ?thesis by simp
    qed
  qed
qed simp

text \<open>
  (C13) Popping always removes the current instruction and changes nothing else, and it succeeds exactly
  when there is a current instruction, its program accounts exist and none of them is borrowed in any way,
  its accounts exist and none of them is borrowed mutably, and the lamports of its accounts, each counted
  once, add up to the sum that was recorded when it was pushed.  Its accounts are those up to their
  number as a 16-bit integer, which the code reads.
\<close>

theorem pop_verifies_balance:
  "snd (tc_pop tc) = tc\<lparr>tc_instruction_stack := butlast (tc_instruction_stack tc)\<rparr> \<and>
   (fst (tc_pop tc) = Inr () \<longleftrightarrow>
     (\<exists>ic. get_current_instruction_context tc = Inr ic \<and>
        (\<forall>i \<in> set (ic_program_accounts ic). borrow_at tc i = Some Unused) \<and>
        (\<forall>k < get_number_of_instruction_accounts ic. first_occurrence ic k \<longrightarrow> readable_at tc ic k) \<and>
        (\<Sum>k \<leftarrow> [0 ..< get_number_of_instruction_accounts ic]. counted_lamports tc ic k) =
          unat (ic_instruction_accounts_lamport_sum ic)))"
proof -
  have "snd (tc_pop tc) = tc\<lparr>tc_instruction_stack := butlast (tc_instruction_stack tc)\<rparr>"
    by (auto simp: tc_pop_def run_simps split: sum.splits)
  moreover have sum: "instruction_accounts_lamport_sum tc ic = Inr s \<longleftrightarrow>
      (\<forall>k < get_number_of_instruction_accounts ic. first_occurrence ic k \<longrightarrow> readable_at tc ic k) \<and>
      (\<Sum>k \<leftarrow> [0 ..< get_number_of_instruction_accounts ic]. counted_lamports tc ic k) = unat s" for ic s
  proof -
    have small: "get_number_of_instruction_accounts ic < 65536" "get_number_of_instruction_accounts ic \<le> length (ic_instruction_accounts ic)"
      by (simp_all add: get_number_of_instruction_accounts_def as_u16_def)
    have "unat (0 :: u128) + length [0 ..< get_number_of_instruction_accounts ic] * 2 ^ 64 < 2 ^ 128"
      using small(1) by simp
    from lamport_sum_loop_returns [OF this, of ic tc] small(2)
    have "(\<exists>s. instruction_accounts_lamport_sum tc ic = Inr s) \<longleftrightarrow>
        (\<forall>k < get_number_of_instruction_accounts ic. first_occurrence ic k \<longrightarrow> readable_at tc ic k)"
      by (auto simp: instruction_accounts_lamport_sum_def)
    then show ?thesis
      using instruction_accounts_lamport_sum_exact [of tc ic] by (metis word_unat_eq_iff)
  qed
  moreover have "fst (tc_pop tc) = Inr () \<longleftrightarrow>
     (\<exists>ic. get_current_instruction_context tc = Inr ic \<and>
        check_no_outstanding tc (ic_program_accounts ic) = Inr () \<and>
        instruction_accounts_lamport_sum tc ic = Inr (ic_instruction_accounts_lamport_sum ic))"
    by (auto simp: tc_pop_Inr detect_unbalanced_def and_then_Inr get_current_instruction_context_def
        get_instruction_context_stack_height_def)
  ultimately show ?thesis by (simp add: no_outstanding_iff)
qed

theorem pop_verifies_balance_witness:
  "fst (tc_pop demo_tc) = Inr () \<and>
   (\<exists>ic. get_current_instruction_context demo_tc = Inr ic \<and>
      (\<Sum>k \<leftarrow> [0 ..< get_number_of_instruction_accounts ic]. counted_lamports demo_tc ic k) =
        unat (ic_instruction_accounts_lamport_sum ic))"
proof -
  have "fst (tc_pop demo_tc) = Inr ()"
    by (simp add: eval_simps run_simps upt_rec)
  with pop_verifies_balance [of demo_tc] show ?thesis by blast
qed

end
