(* ===== verification/Sysvars.thy ===== *)
theory Sysvars
  imports Account Rent
begin

text \<open>
  The sysvars and their cache.  \<^verbatim>\<open>SlotHashes\<close> (\<^verbatim>\<open>sdk/program/src/slot_hashes.rs\<close>) and \<^verbatim>\<open>StakeHistory\<close>
  (\<^verbatim>\<open>sdk/program/src/stake_history.rs\<close>) are vectors in descending key order, searched with the
  standard library's \<^verbatim>\<open>binary_search_by\<close>, which is modelled as its loop; their \<^verbatim>\<open>add\<close> is shown to be
  a map update on the entries followed by the truncation to the newest ones.  \<^verbatim>\<open>SysvarCache\<close>
  (\<^verbatim>\<open>program-runtime/src/sysvar_cache.rs\<close>) holds at most one value of each sysvar and is filled from
  account data.
\<close>

section \<open>Binary search\<close>

datatype ordering = Less | Equal | Greater

datatype search_result = Found nat | NotFound nat

text \<open>
  \<open>cmp x\<close> is the order of the probed element relative to the target.  The loop keeps the window
  from \<open>left\<close> to \<open>right\<close>.
\<close>

function binary_search_loop :: "('a \<Rightarrow> ordering) \<Rightarrow> 'a list \<Rightarrow> nat \<Rightarrow> nat \<Rightarrow> search_result" where
  "binary_search_loop cmp xs left right =
     (if left < right
      then let mid = left + (right - left) div 2 in
        (case cmp (xs ! mid) of
           Less \<Rightarrow> binary_search_loop cmp xs (mid + 1) right
         | Greater \<Rightarrow> binary_search_loop cmp xs left mid
         | Equal \<Rightarrow> Found mid)
      else NotFound left)"
  by pat_completeness auto

termination binary_search_loop
  by (relation "measure (\<lambda>(_, _, left, right). right - left)") auto

declare binary_search_loop.simps [simp del]

definition binary_search_by :: "('a \<Rightarrow> ordering) \<Rightarrow> 'a list \<Rightarrow> search_result" where
  "binary_search_by cmp xs = binary_search_loop cmp xs 0 (length xs)"

section \<open>Vectors in descending key order\<close>

definition u64_cmp :: "u64 \<Rightarrow> u64 \<Rightarrow> ordering" where
  "u64_cmp a b = (if a < b then Less else if a = b then Equal else Greater)"

text \<open>The three methods \<^verbatim>\<open>position\<close>, \<^verbatim>\<open>get\<close> and \<^verbatim>\<open>add\<close> that both sysvars have, with the bound of \<^verbatim>\<open>add\<close>.\<close>

definition desc_position :: "(u64 \<times> 'a) list \<Rightarrow> u64 \<Rightarrow> nat option" where
  "desc_position xs key =
     (case binary_search_by (\<lambda>(probe, _). u64_cmp key probe) xs of
        Found index \<Rightarrow> Some index
      | NotFound _ \<Rightarrow> None)"

definition desc_get :: "(u64 \<times> 'a) list \<Rightarrow> u64 \<Rightarrow> 'a option" where
  "desc_get xs key = map_option (\<lambda>index. snd (xs ! index)) (desc_position xs key)"

definition desc_insert :: "(u64 \<times> 'a) list \<Rightarrow> u64 \<Rightarrow> 'a \<Rightarrow> (u64 \<times> 'a) list" where
  "desc_insert xs key v =
     (case binary_search_by (\<lambda>(probe, _). u64_cmp key probe) xs of
        Found index \<Rightarrow> xs[index := (key, v)]
      | NotFound index \<Rightarrow> take index xs @ (key, v) # drop index xs)"

definition desc_add :: "nat \<Rightarrow> (u64 \<times> 'a) list \<Rightarrow> u64 \<Rightarrow> 'a \<Rightarrow> (u64 \<times> 'a) list" where
  "desc_add max_entries xs key v = take max_entries (desc_insert xs key v)"

definition descending :: "(u64 \<times> 'a) list \<Rightarrow> bool" where
  "descending xs \<longleftrightarrow> sorted_wrt (\<lambda>x y. fst y < fst x) xs"

section \<open>The sysvar types\<close>

record clock =
  clk_slot :: u64
  clk_epoch_start_timestamp :: int
  clk_epoch :: u64
  clk_leader_schedule_epoch :: u64
  clk_unix_timestamp :: int

record epoch_schedule =
  es_slots_per_epoch :: u64
  es_leader_schedule_slot_offset :: u64
  es_warmup :: bool
  es_first_normal_epoch :: u64
  es_first_normal_slot :: u64

record epoch_rewards =
  erw_total_rewards :: u64
  erw_distributed_rewards :: u64
  erw_distribution_complete_block_height :: u64

text \<open>\<^term>\<open>None\<close> is the failed assertion.\<close>

definition epoch_rewards_distribute :: "u64 \<Rightarrow> epoch_rewards \<Rightarrow> epoch_rewards option" where
  "epoch_rewards_distribute amount er =
     (if saturating_add (erw_distributed_rewards er) amount \<le> erw_total_rewards er
      then Some (er\<lparr>erw_distributed_rewards := erw_distributed_rewards er + amount\<rparr>)
      else None)"

record fee_calculator =
  fc_lamports_per_signature :: u64

record recent_blockhashes_entry =
  rbe_blockhash :: hash
  rbe_fee_calculator :: fee_calculator

type_synonym recent_blockhashes = "recent_blockhashes_entry list"

definition recent_blockhashes_entry_new :: "hash \<Rightarrow> u64 \<Rightarrow> recent_blockhashes_entry" where
  "recent_blockhashes_entry_new blockhash lamports_per_signature =
     \<lparr>rbe_blockhash = blockhash,
      rbe_fee_calculator = \<lparr>fc_lamports_per_signature = lamports_per_signature\<rparr>\<rparr>"

type_synonym slot_hashes = "(u64 \<times> hash) list"

abbreviation SLOT_HASHES_MAX_ENTRIES :: nat where "SLOT_HASHES_MAX_ENTRIES \<equiv> 512"

definition slot_hashes_add :: "slot_hashes \<Rightarrow> u64 \<Rightarrow> hash \<Rightarrow> slot_hashes" where
  "slot_hashes_add sh slot h = desc_add SLOT_HASHES_MAX_ENTRIES sh slot h"

definition slot_hashes_position :: "slot_hashes \<Rightarrow> u64 \<Rightarrow> nat option" where
  "slot_hashes_position sh slot = desc_position sh slot"

definition slot_hashes_get :: "slot_hashes \<Rightarrow> u64 \<Rightarrow> hash option" where
  "slot_hashes_get sh slot = desc_get sh slot"

text \<open>The constructor sorts a copy by descending slot; the sort of the library is stable.\<close>

definition slot_hashes_new :: "(u64 \<times> hash) list \<Rightarrow> slot_hashes" where
  "slot_hashes_new xs = sort_key (\<lambda>(slot, _). - uint slot) xs"

record stake_history_entry =
  she_effective :: u64
  she_activating :: u64
  she_deactivating :: u64

definition stake_history_entry_add ::
    "stake_history_entry \<Rightarrow> stake_history_entry \<Rightarrow> stake_history_entry" where
  "stake_history_entry_add a b =
     \<lparr>she_effective = saturating_add (she_effective a) (she_effective b),
      she_activating = saturating_add (she_activating a) (she_activating b),
      she_deactivating = saturating_add (she_deactivating a) (she_deactivating b)\<rparr>"

type_synonym stake_history = "(u64 \<times> stake_history_entry) list"

abbreviation STAKE_HISTORY_MAX_ENTRIES :: nat where "STAKE_HISTORY_MAX_ENTRIES \<equiv> 512"

definition stake_history_get :: "stake_history \<Rightarrow> u64 \<Rightarrow> stake_history_entry option" where
  "stake_history_get sh epoch = desc_get sh epoch"

definition stake_history_add :: "stake_history \<Rightarrow> u64 \<Rightarrow> stake_history_entry \<Rightarrow> stake_history" where
  "stake_history_add sh epoch entry = desc_add STAKE_HISTORY_MAX_ENTRIES sh epoch entry"

record last_restart_slot =
  lrs_last_restart_slot :: u64

section \<open>SysvarCache\<close>

record sysvar_cache =
  sc_clock :: "clock option"
  sc_epoch_schedule :: "epoch_schedule option"
  sc_epoch_rewards :: "epoch_rewards option"
  sc_fees :: "fee_calculator option"
  sc_rent :: "rent option"
  sc_slot_hashes :: "slot_hashes option"
  sc_recent_blockhashes :: "recent_blockhashes option"
  sc_stake_history :: "stake_history option"
  sc_last_restart_slot :: "last_restart_slot option"

definition sysvar_cache_default :: sysvar_cache where
  "sysvar_cache_default =
     \<lparr>sc_clock = None, sc_epoch_schedule = None, sc_epoch_rewards = None, sc_fees = None,
      sc_rent = None, sc_slot_hashes = None, sc_recent_blockhashes = None,
      sc_stake_history = None, sc_last_restart_slot = None\<rparr>"

definition get_clock :: "sysvar_cache \<Rightarrow> instruction_error + clock" where
  "get_clock sc = ok_or UnsupportedSysvar (sc_clock sc)"

definition get_epoch_schedule :: "sysvar_cache \<Rightarrow> instruction_error + epoch_schedule" where
  "get_epoch_schedule sc = ok_or UnsupportedSysvar (sc_epoch_schedule sc)"

definition get_rent :: "sysvar_cache \<Rightarrow> instruction_error + rent" where
  "get_rent sc = ok_or UnsupportedSysvar (sc_rent sc)"

definition get_slot_hashes :: "sysvar_cache \<Rightarrow> instruction_error + slot_hashes" where
  "get_slot_hashes sc = ok_or UnsupportedSysvar (sc_slot_hashes sc)"

definition get_recent_blockhashes :: "sysvar_cache \<Rightarrow> instruction_error + recent_blockhashes" where
  "get_recent_blockhashes sc = ok_or UnsupportedSysvar (sc_recent_blockhashes sc)"

definition get_stake_history :: "sysvar_cache \<Rightarrow> instruction_error + stake_history" where
  "get_stake_history sc = ok_or UnsupportedSysvar (sc_stake_history sc)"

definition get_last_restart_slot :: "sysvar_cache \<Rightarrow> instruction_error + last_restart_slot" where
  "get_last_restart_slot sc = ok_or UnsupportedSysvar (sc_last_restart_slot sc)"

text \<open>
  The decoders (\<^verbatim>\<open>bincode::deserialize\<close> at each type) and the ids of the nine sysvars, in the
  order the cache fills them.
\<close>

record sysvar_sources =
  src_clock :: "bytes \<Rightarrow> clock option"
  src_epoch_schedule :: "bytes \<Rightarrow> epoch_schedule option"
  src_epoch_rewards :: "bytes \<Rightarrow> epoch_rewards option"
  src_fees :: "bytes \<Rightarrow> fee_calculator option"
  src_rent :: "bytes \<Rightarrow> rent option"
  src_slot_hashes :: "bytes \<Rightarrow> slot_hashes option"
  src_recent_blockhashes :: "bytes \<Rightarrow> recent_blockhashes option"
  src_stake_history :: "bytes \<Rightarrow> stake_history option"
  src_last_restart_slot :: "bytes \<Rightarrow> last_restart_slot option"
  id_epoch_rewards :: pubkey
  id_fees :: pubkey
  id_stake_history :: pubkey
  id_last_restart_slot :: pubkey

text \<open>
  One step of the filling: an entry that is missing is looked up and decoded.  \<open>account_data\<close> is what
  \<^verbatim>\<open>get_account_data\<close> hands to its callback, if it calls it.
\<close>

definition fill_entry :: "(pubkey \<Rightarrow> bytes option) \<Rightarrow> pubkey \<Rightarrow> (bytes \<Rightarrow> 'a option) \<Rightarrow> 'a option \<Rightarrow> 'a option" where
  "fill_entry account_data sysvar_id decode entry =
     (case entry of
        Some v \<Rightarrow> Some v
      | None \<Rightarrow> (case account_data sysvar_id of None \<Rightarrow> None | Some d \<Rightarrow> decode d))"

definition fill_missing_entries ::
    "sysvar_sources \<Rightarrow> (pubkey \<Rightarrow> bytes option) \<Rightarrow> sysvar_cache \<Rightarrow> sysvar_cache" where
  "fill_missing_entries src account_data sc =
     \<lparr>sc_clock = fill_entry account_data clock_sysvar_id (src_clock src) (sc_clock sc),
      sc_epoch_schedule =
        fill_entry account_data epoch_schedule_sysvar_id (src_epoch_schedule src) (sc_epoch_schedule sc),
      sc_epoch_rewards =
        fill_entry account_data (id_epoch_rewards src) (src_epoch_rewards src) (sc_epoch_rewards sc),
      sc_fees = fill_entry account_data (id_fees src) (src_fees src) (sc_fees sc),
      sc_rent = fill_entry account_data rent_sysvar_id (src_rent src) (sc_rent sc),
      sc_slot_hashes =
        fill_entry account_data slot_hashes_sysvar_id (src_slot_hashes src) (sc_slot_hashes sc),
      sc_recent_blockhashes =
        fill_entry account_data recent_blockhashes_sysvar_id (src_recent_blockhashes src)
          (sc_recent_blockhashes sc),
      sc_stake_history =
        fill_entry account_data (id_stake_history src) (src_stake_history src) (sc_stake_history sc),
      sc_last_restart_slot =
        fill_entry account_data (id_last_restart_slot src) (src_last_restart_slot src)
          (sc_last_restart_slot sc)\<rparr>"

definition sysvar_cache_reset :: "sysvar_cache \<Rightarrow> sysvar_cache" where
  "sysvar_cache_reset sc = sysvar_cache_default"

section \<open>Binary search on a descending vector\<close>

lemma u64_cmp_Less: "a < b \<Longrightarrow> u64_cmp a b = Less"
  by (simp add: u64_cmp_def)

lemma u64_cmp_Greater: "b < a \<Longrightarrow> u64_cmp a b = Greater"
  by (auto simp: u64_cmp_def)

lemma binary_search_loop_correct:
  assumes "sorted_wrt (\<lambda>x y. fst y < fst x) xs" and "right \<le> length xs" and "left \<le> right"
    and "\<forall>i < left. key < fst (xs ! i)" and "\<forall>i. right \<le> i \<and> i < length xs \<longrightarrow> fst (xs ! i) < key"
  shows "case binary_search_loop (\<lambda>(probe, _). u64_cmp key probe) xs left right of
      Found i \<Rightarrow> i < length xs \<and> fst (xs ! i) = key
    | NotFound i \<Rightarrow> i \<le> length xs \<and> (\<forall>j < i. key < fst (xs ! j)) \<and>
        (\<forall>j. i \<le> j \<and> j < length xs \<longrightarrow> fst (xs ! j) < key)"
  using assms
proof (induction "right - left" arbitrary: left right rule: less_induct)
  case less
  let ?loop = "binary_search_loop (\<lambda>(probe, _). u64_cmp key probe) xs"
  show ?case
  proof (cases "left < right")
    case False
    with less.prems show ?thesis by (subst binary_search_loop.simps) simp
  next
    case True
    let ?mid = "left + (right - left) div 2"
    have mid: "left \<le> ?mid" "?mid < right" using True by auto
    have order: "\<And>i j. i < j \<Longrightarrow> j < length xs \<Longrightarrow> fst (xs ! j) < fst (xs ! i)"
      using less.prems(1) by (simp add: sorted_wrt_iff_nth_less)
    have unfold: "?loop left right = (case u64_cmp key (fst (xs ! ?mid)) of
        Less \<Rightarrow> ?loop (?mid + 1) right | Greater \<Rightarrow> ?loop left ?mid | Equal \<Rightarrow> Found ?mid)"
      using True by (subst binary_search_loop.simps) (simp add: Let_def case_prod_beta)
    consider (lt) "key < fst (xs ! ?mid)" | (eq) "key = fst (xs ! ?mid)" | (gt) "fst (xs ! ?mid) < key"
      by (rule linorder_cases)
    then show ?thesis
    proof cases
      case lt
      have "\<forall>i < ?mid + 1. key < fst (xs ! i)"
      proof (intro allI impI)
        fix i assume "i < ?mid + 1"
        then consider "i = ?mid" | "i < ?mid" by linarith
        then show "key < fst (xs ! i)"
          using lt order [of i ?mid] mid less.prems(2) by cases auto
      qed
      then show ?thesis
        using less.hyps [of right "?mid + 1"] less.prems mid unfold u64_cmp_Less [OF lt] by simp
    next
      case eq
      then show ?thesis using unfold mid less.prems(2) by (simp add: u64_cmp_def)
    next
      case gt
      have "\<forall>i. ?mid \<le> i \<and> i < length xs \<longrightarrow> fst (xs ! i) < key"
      proof (intro allI impI)
        fix i assume "?mid \<le> i \<and> i < length xs"
        then consider "i = ?mid" | "?mid < i" "i < length xs" by linarith
        then show "fst (xs ! i) < key"
          using gt order [of ?mid i] by cases auto
      qed
      then show ?thesis
        using less.hyps [of ?mid left] less.prems mid unfold u64_cmp_Greater [OF gt] by simp
    qed
  qed
qed

text \<open>The search splits the vector at the key.\<close>

lemma binary_search_cases:
  assumes d: "descending xs"
  obtains (found) ys v zs where "binary_search_by (\<lambda>(probe, _). u64_cmp key probe) xs = Found (length ys)"
      "xs = ys @ (key, v) # zs" "\<forall>y \<in> set ys. key < fst y" "\<forall>z \<in> set zs. fst z < key"
  | (absent) ys zs where "binary_search_by (\<lambda>(probe, _). u64_cmp key probe) xs = NotFound (length ys)"
      "xs = ys @ zs" "\<forall>y \<in> set ys. key < fst y" "\<forall>z \<in> set zs. fst z < key"
proof -
  let ?r = "binary_search_by (\<lambda>(probe, _). u64_cmp key probe) xs"
  have correct: "case ?r of Found i \<Rightarrow> i < length xs \<and> fst (xs ! i) = key
    | NotFound i \<Rightarrow> i \<le> length xs \<and> (\<forall>j < i. key < fst (xs ! j)) \<and>
        (\<forall>j. i \<le> j \<and> j < length xs \<longrightarrow> fst (xs ! j) < key)"
    unfolding binary_search_by_def
    by (rule binary_search_loop_correct) (use d in \<open>auto simp: descending_def\<close>)
  show ?thesis
  proof (cases ?r)
    case (Found i)
    with correct have i: "i < length xs" "fst (xs ! i) = key" by auto
    have split: "xs = take i xs @ (key, snd (xs ! i)) # drop (Suc i) xs"
      using id_take_nth_drop [OF i(1)] i(2) by (metis prod.collapse)
    from d split have "sorted_wrt (\<lambda>x y. fst y < fst x) (take i xs @ (key, snd (xs ! i)) # drop (Suc i) xs)"
      unfolding descending_def by metis
    then show ?thesis
      by (intro found [OF _ split]) (use Found i in \<open>auto simp: sorted_wrt_append\<close>)
  next
    case (NotFound i)
    with correct have i: "i \<le> length xs" "\<forall>j < i. key < fst (xs ! j)"
      "\<forall>j. i \<le> j \<and> j < length xs \<longrightarrow> fst (xs ! j) < key" by auto
    have above: "\<forall>y \<in> set (take i xs). key < fst y"
    proof
      fix y assume "y \<in> set (take i xs)"
      then obtain k where "k < i" "y = xs ! k"
        by (auto simp: in_set_conv_nth)
      with i(2) show "key < fst y" by blast
    qed
    have below: "\<forall>z \<in> set (drop i xs). fst z < key"
    proof
      fix z assume "z \<in> set (drop i xs)"
      then obtain k where "k < length xs - i" "z = xs ! (i + k)"
        by (auto simp: in_set_conv_nth)
      with i(3) show "fst z < key" by auto
    qed
    show ?thesis
      by (rule absent [of "take i xs" "drop i xs"])
        (use NotFound i(1) above below in simp_all)
  qed
qed

lemma descending_take: "descending xs \<Longrightarrow> descending (take n xs)"
  by (simp add: descending_def sorted_wrt_take)

lemma map_of_above: "\<forall>y \<in> set ys. key < fst y \<Longrightarrow> map_of ys (key :: u64) = None"
  by (induction ys) auto

lemma map_of_below: "\<forall>z \<in> set zs. fst z < key \<Longrightarrow> map_of zs (key :: u64) = None"
  by (induction zs) auto

text \<open>A lookup is the lookup in the map the entries denote.\<close>

lemma desc_get_map_of:
  assumes "descending xs"
  shows "desc_get xs key = map_of xs key"
  using assms
proof (cases rule: binary_search_cases [where key = key])
  case (found ys v zs)
  with map_of_above [of ys key] show ?thesis
    by (simp add: desc_get_def desc_position_def nth_append map_add_def)
next
  case (absent ys zs)
  with map_of_above [of ys key] map_of_below [of zs key] show ?thesis
    by (simp add: desc_get_def desc_position_def map_add_def)
qed

text \<open>An insertion updates the map and keeps the order.\<close>

lemma desc_insert_descending:
  assumes "descending xs"
  shows "descending (desc_insert xs key v)"
  using assms
proof (cases rule: binary_search_cases [where key = key])
  case (found ys w zs)
  with assms show ?thesis
    by (simp add: desc_insert_def descending_def sorted_wrt_append list_update_append)
next
  case (absent ys zs)
  with assms show ?thesis
    by (auto simp: desc_insert_def descending_def sorted_wrt_append)
qed

lemma desc_insert_map:
  assumes "descending xs"
  shows "map_of (desc_insert xs key v) = (map_of xs)(key \<mapsto> v)"
  using assms
proof (cases rule: binary_search_cases [where key = key])
  case (found ys w zs)
  with map_of_above [of ys key] show ?thesis
    by (auto simp: desc_insert_def list_update_append map_add_def fun_eq_iff split: option.splits)
next
  case (absent ys zs)
  with map_of_above [of ys key] map_of_below [of zs key] show ?thesis
    by (auto simp: desc_insert_def map_add_def fun_eq_iff split: option.splits)
qed

lemma length_desc_insert: "length (desc_insert xs key v) \<le> length xs + 1"
  by (auto simp: desc_insert_def split: search_result.splits)

lemma desc_add_descending: "descending xs \<Longrightarrow> descending (desc_add n xs key v)"
  by (simp add: desc_add_def descending_take desc_insert_descending)

text \<open>What a truncation drops is older than everything it keeps.\<close>

lemma descending_truncate_newest:
  assumes "descending xs" and "x \<in> set (take n xs)" and "y \<in> set (drop n xs)"
  shows "fst y < fst x"
proof -
  have "sorted_wrt (\<lambda>x y. fst y < fst x) (take n xs @ drop n xs)"
    using assms(1) by (simp add: descending_def)
  with assms(2,3) show ?thesis by (simp only: sorted_wrt_append)
qed

text \<open>Filling never replaces an entry.\<close>

lemma fill_entry_keeps: "entry = Some v \<Longrightarrow> fill_entry account_data i decode entry = Some v"
  by (simp add: fill_entry_def)

lemma descending_slot_hashes_new:
  assumes "distinct (map fst xs)"
  shows "descending (slot_hashes_new xs)"
proof -
  let ?f = "\<lambda>(slot :: u64, _ :: hash). - uint slot"
  let ?ys = "sort_key ?f xs"
  have sorted: "sorted (map ?f ?ys)" by (rule sorted_sort_key)
  have dist: "distinct (map fst ?ys)" using assms by (simp add: distinct_map)
  have "fst (?ys ! j) < fst (?ys ! i)" if "i < j" "j < length ?ys" for i j
  proof -
    have "?f (?ys ! i) \<le> ?f (?ys ! j)" using sorted_nth_mono [OF sorted, of i j] that by simp
    then have "fst (?ys ! j) \<le> fst (?ys ! i)"
      by (simp add: case_prod_beta word_le_def)
    moreover have "fst (?ys ! j) \<noteq> fst (?ys ! i)"
      using nth_eq_iff_index_eq [OF dist, of j i] that by simp
    ultimately show ?thesis by simp
  qed
  then show ?thesis
    by (simp add: descending_def slot_hashes_new_def sorted_wrt_iff_nth_less)
qed

section \<open>Properties\<close>

text \<open>
  (C35) Adding a slot hash implements a map update: the vector stays in descending slot order and
  within its bound, it is the truncation of a vector that denotes the updated map, and what the
  truncation drops is older than everything it keeps.
\<close>

theorem slot_hashes_add_refines:
  assumes "descending sh"
  shows "descending (slot_hashes_add sh slot h) \<and> length (slot_hashes_add sh slot h) \<le> 512 \<and>
    (\<exists>full. slot_hashes_add sh slot h = take 512 full \<and> map_of full = (map_of sh)(slot \<mapsto> h) \<and>
       (\<forall>x \<in> set (take 512 full). \<forall>y \<in> set (drop 512 full). fst y < fst x)) \<and>
    (\<forall>k. slot_hashes_get (slot_hashes_add sh slot h) k = map_of (slot_hashes_add sh slot h) k)"
proof (intro conjI)
  let ?full = "desc_insert sh slot h"
  show d: "descending (slot_hashes_add sh slot h)"
    by (simp add: slot_hashes_add_def desc_add_descending assms)
  show "length (slot_hashes_add sh slot h) \<le> 512"
    by (simp add: slot_hashes_add_def desc_add_def)
  show "\<exists>full. slot_hashes_add sh slot h = take 512 full \<and> map_of full = (map_of sh)(slot \<mapsto> h) \<and>
      (\<forall>x \<in> set (take 512 full). \<forall>y \<in> set (drop 512 full). fst y < fst x)"
    using desc_insert_map [OF assms] descending_truncate_newest [OF desc_insert_descending [OF assms]]
    by (intro exI [of _ ?full]) (auto simp: slot_hashes_add_def desc_add_def)
  show "\<forall>k. slot_hashes_get (slot_hashes_add sh slot h) k = map_of (slot_hashes_add sh slot h) k"
    using desc_get_map_of [OF d] by (simp add: slot_hashes_get_def)
qed

theorem slot_hashes_add_refines_witness:
  "descending [(9, hash_default), (4, hash_default)] \<and>
   descending (slot_hashes_add [(9, hash_default), (4, hash_default)] 5 (Hash [1]))"
proof -
  have "descending [(9, hash_default), (4, hash_default)]" by (simp add: descending_def)
  with slot_hashes_add_refines [OF this] show ?thesis by blast
qed

text \<open>
  A stake history entry that was just added is found again, and an addition below the bound
  changes no other lookup.
\<close>

theorem stake_history_get_add:
  assumes "descending sh" and "length sh < 512"
  shows "stake_history_get (stake_history_add sh epoch entry) k =
    (if k = epoch then Some entry else stake_history_get sh k)"
proof -
  have full: "stake_history_add sh epoch entry = desc_insert sh epoch entry"
    using length_desc_insert [of sh epoch entry] assms(2)
    by (simp add: stake_history_add_def desc_add_def)
  show ?thesis
    using assms(1) desc_insert_descending [OF assms(1)] desc_insert_map [OF assms(1)]
    by (simp add: full stake_history_get_def desc_get_map_of)
qed

theorem stake_history_get_add_witness:
  "stake_history_get (stake_history_add [] 3 \<lparr>she_effective = 1, she_activating = 2, she_deactivating = 0\<rparr>) 3
     = Some \<lparr>she_effective = 1, she_activating = 2, she_deactivating = 0\<rparr>"
  using stake_history_get_add [of "[]" 3 _ 3] by (simp add: descending_def)

text \<open>
  Filling the sysvar cache never replaces a value that is present, gives a missing clock or rent
  exactly what decoding its account yields, and is idempotent.
\<close>

theorem fill_missing_entries_fills:
  "(\<forall>v. sc_clock sc = Some v \<longrightarrow> get_clock (fill_missing_entries src acc sc) = Inr v) \<and>
   (sc_clock sc = None \<longrightarrow> get_clock (fill_missing_entries src acc sc) =
      ok_or UnsupportedSysvar (Option.bind (acc clock_sysvar_id) (src_clock src))) \<and>
   (sc_rent sc = None \<longrightarrow> get_rent (fill_missing_entries src acc sc) =
      ok_or UnsupportedSysvar (Option.bind (acc rent_sysvar_id) (src_rent src))) \<and>
   fill_missing_entries src acc (fill_missing_entries src acc sc) = fill_missing_entries src acc sc"
proof -
  have entry: "fill_entry acc i d None = Option.bind (acc i) d" for i and d :: "bytes \<Rightarrow> 'b option"
    by (simp add: fill_entry_def split: option.split)
  have idem: "fill_entry acc i d (fill_entry acc i d e) = fill_entry acc i d e" for i d e
    by (simp add: fill_entry_def split: option.split)
  show ?thesis
    by (simp add: fill_missing_entries_def get_clock_def get_rent_def entry idem fill_entry_keeps)
qed

theorem fill_missing_entries_fills_witness:
  "get_rent (fill_missing_entries
      \<lparr>src_clock = (\<lambda>_. None), src_epoch_schedule = (\<lambda>_. None), src_epoch_rewards = (\<lambda>_. None),
       src_fees = (\<lambda>_. None), src_rent = (\<lambda>_. Some rent_default), src_slot_hashes = (\<lambda>_. None),
       src_recent_blockhashes = (\<lambda>_. None), src_stake_history = (\<lambda>_. None),
       src_last_restart_slot = (\<lambda>_. None), id_epoch_rewards = pubkey_default, id_fees = pubkey_default,
       id_stake_history = pubkey_default, id_last_restart_slot = pubkey_default\<rparr>
      (\<lambda>_. Some []) sysvar_cache_default) = Inr rent_default"
proof -
  have "sc_rent sysvar_cache_default = None" by (simp add: sysvar_cache_default_def)
  with fill_missing_entries_fills [of sysvar_cache_default] show ?thesis by simp
qed

end
