(* ===== verification/Nonce.thy ===== *)
theory Nonce
  imports Sysvars
begin

text \<open>
  Durable nonce state (\<^verbatim>\<open>sdk/program/src/nonce/state/mod.rs\<close> and \<^verbatim>\<open>current.rs\<close>): the versioned state of
  a nonce account and its transitions.  SHA-256 is the parameter \<open>sha256\<close>.
\<close>

section \<open>State\<close>

datatype durable_nonce = DurableNonce hash

record nonce_data =
  nd_authority :: pubkey
  nd_durable_nonce :: durable_nonce
  nd_fee_calculator :: fee_calculator

datatype nonce_state = NonceUninitialized | NonceInitialized nonce_data

datatype nonce_versions = Legacy nonce_state | Current nonce_state

datatype authorize_nonce_error = AuthMissingRequiredSignature pubkey | AuthUninitialized

definition nonce_data_new :: "pubkey \<Rightarrow> durable_nonce \<Rightarrow> u64 \<Rightarrow> nonce_data" where
  "nonce_data_new authority durable_nonce lamports_per_signature =
     \<lparr>nd_authority = authority, nd_durable_nonce = durable_nonce,
      nd_fee_calculator = \<lparr>fc_lamports_per_signature = lamports_per_signature\<rparr>\<rparr>"

fun nonce_blockhash :: "nonce_data \<Rightarrow> hash" where
  "nonce_blockhash d = (case nd_durable_nonce d of DurableNonce h \<Rightarrow> h)"

definition get_lamports_per_signature :: "nonce_data \<Rightarrow> u64" where
  "get_lamports_per_signature d = fc_lamports_per_signature (nd_fee_calculator d)"

text \<open>The bytes of the literal \<^verbatim>\<open>DURABLE_NONCE\<close>.\<close>

definition DURABLE_NONCE_HASH_PREFIX :: bytes where
  "DURABLE_NONCE_HASH_PREFIX = [68, 85, 82, 65, 66, 76, 69, 95, 78, 79, 78, 67, 69]"

definition durable_nonce_from_blockhash :: "(bytes \<Rightarrow> bytes) \<Rightarrow> hash \<Rightarrow> durable_nonce" where
  "durable_nonce_from_blockhash sha256 blockhash =
     DurableNonce (hashv sha256 [DURABLE_NONCE_HASH_PREFIX, hash_bytes blockhash])"

abbreviation NONCE_STATE_SIZE :: nat where "NONCE_STATE_SIZE \<equiv> 80"

section \<open>Transitions\<close>

definition versions_new :: "nonce_state \<Rightarrow> nonce_versions" where
  "versions_new st = Current st"

fun versions_state :: "nonce_versions \<Rightarrow> nonce_state" where
  "versions_state (Legacy st) = st"
| "versions_state (Current st) = st"

fun verify_recent_blockhash :: "nonce_versions \<Rightarrow> hash \<Rightarrow> nonce_data option" where
  "verify_recent_blockhash (Legacy _) recent_blockhash = None"
| "verify_recent_blockhash (Current NonceUninitialized) recent_blockhash = None"
| "verify_recent_blockhash (Current (NonceInitialized d)) recent_blockhash =
     (if recent_blockhash = nonce_blockhash d then Some d else None)"

fun versions_upgrade :: "(bytes \<Rightarrow> bytes) \<Rightarrow> nonce_versions \<Rightarrow> nonce_versions option" where
  "versions_upgrade sha256 (Legacy NonceUninitialized) = None"
| "versions_upgrade sha256 (Legacy (NonceInitialized d)) =
     Some (Current (NonceInitialized
       (d\<lparr>nd_durable_nonce := durable_nonce_from_blockhash sha256 (nonce_blockhash d)\<rparr>)))"
| "versions_upgrade sha256 (Current _) = None"

definition versions_authorize ::
    "nonce_versions \<Rightarrow> pubkey set \<Rightarrow> pubkey \<Rightarrow> authorize_nonce_error + nonce_versions" where
  "versions_authorize v signers authority =
     (case versions_state v of
        NonceUninitialized \<Rightarrow> Inl AuthUninitialized
      | NonceInitialized d \<Rightarrow>
          if nd_authority d \<notin> signers then Inl (AuthMissingRequiredSignature (nd_authority d))
          else
            let st = NonceInitialized
                  (nonce_data_new authority (nd_durable_nonce d) (get_lamports_per_signature d))
            in Inr (case v of Legacy _ \<Rightarrow> Legacy st | Current _ \<Rightarrow> Current st))"

section \<open>Facts\<close>

lemma versions_authorize_keeps_nonce:
  assumes "versions_authorize v signers authority = Inr v'"
  shows "\<exists>d. versions_state v = NonceInitialized d \<and> nd_authority d \<in> signers \<and>
    versions_state v' = NonceInitialized (d\<lparr>nd_authority := authority\<rparr>) \<and>
    verify_recent_blockhash v' h = map_option (\<lambda>d. d\<lparr>nd_authority := authority\<rparr>) (verify_recent_blockhash v h)"
  using assms
  by (cases v; cases "versions_state v")
    (auto simp: versions_authorize_def nonce_data_new_def get_lamports_per_signature_def Let_def
      split: nonce_state.splits if_splits)

lemma versions_upgrade_once: "versions_upgrade sha256 v = Some v' \<Longrightarrow> versions_upgrade sha256 v' = None"
  by (cases v; cases "versions_state v") auto

end
