(* ===== verification/System_Program.thy ===== *)
theory System_Program
  imports Borrowed_Account Nonce
begin

text \<open>
  The system program (\<^verbatim>\<open>programs/system/src/system_processor.rs\<close>, \<^verbatim>\<open>system_instruction.rs\<close>): account
  creation, allocation, assignment, transfers and the nonce instructions, as actions on the
  transaction context.  What the processor reads from the invoke context is the record
  \<open>system_env\<close>; the log lines are output only, except that a log line which looks up a key can
  fail, and it is looked up only when logging is on.
\<close>

section \<open>Instructions and environment\<close>

datatype system_instruction =
    CreateAccount u64 u64 pubkey
  | Assign pubkey
  | Transfer u64
  | CreateAccountWithSeed pubkey bytes u64 u64 pubkey
  | AdvanceNonceAccount
  | WithdrawNonceAccount u64
  | InitializeNonceAccount pubkey
  | AuthorizeNonceAccount pubkey
  | Allocate u64
  | AllocateWithSeed pubkey bytes u64 pubkey
  | AssignWithSeed pubkey bytes pubkey
  | TransferWithSeed u64 bytes pubkey
  | UpgradeNonceAccount

record system_env =
  se_sha256 :: "bytes \<Rightarrow> bytes"
  se_nonce_codec :: "nonce_versions codec"
  se_decode :: "bytes \<Rightarrow> system_instruction option"
  se_sysvar_cache :: sysvar_cache
  se_blockhash :: hash
  se_lamports_per_signature :: u64
  se_logging :: bool

record address =
  addr_address :: pubkey
  addr_base :: "pubkey option"

definition address_is_signer :: "address \<Rightarrow> pubkey set \<Rightarrow> bool" where
  "address_is_signer a signers =
     (case addr_base a of
        Some base \<Rightarrow> base \<in> signers
      | None \<Rightarrow> addr_address a \<in> signers)"

definition address_create ::
    "system_env \<Rightarrow> pubkey \<Rightarrow> (pubkey \<times> bytes \<times> pubkey) option \<Rightarrow> instruction_error + address" where
  "address_create env addr with_seed =
     (case with_seed of
        Some (base, seed, owner) \<Rightarrow>
          (case create_with_seed (se_sha256 env) base seed owner of
             Inl e \<Rightarrow> Inl (of_pubkey_error e)
           | Inr address_with_seed \<Rightarrow>
               if addr \<noteq> address_with_seed then Inl (of_system_error SE_AddressWithSeedMismatch)
               else Inr \<lparr>addr_address = addr, addr_base = Some base\<rparr>)
      | None \<Rightarrow> Inr \<lparr>addr_address = addr, addr_base = None\<rparr>)"

text \<open>The key of an instruction account, through its index in the transaction.\<close>

definition key_of_instruction_account ::
    "instruction_context \<Rightarrow> nat \<Rightarrow> transaction_context \<Rightarrow> instruction_error + pubkey" where
  "key_of_instruction_account ic index tc =
     and_then (get_index_of_instruction_account_in_transaction ic index)
       (get_key_of_account_at_index tc)"

section \<open>Accounts\<close>

definition allocate :: "borrowed_account \<Rightarrow> address \<Rightarrow> u64 \<Rightarrow> pubkey set \<Rightarrow> unit tx_action" where
  "allocate account address space signers =
     bind (require (address_is_signer address signers) MissingRequiredSignature) (\<lambda>_.
     bind (gets (\<lambda>tc. ba_get_data account tc = [] \<and> ba_get_owner account tc = system_program_id)) (\<lambda>unused.
     bind (require unused (of_system_error SE_AccountAlreadyInUse)) (\<lambda>_.
     bind (require (unat space \<le> MAX_PERMITTED_DATA_LENGTH)
             (of_system_error SE_InvalidAccountDataLength)) (\<lambda>_.
     ba_set_data_length account (unat space)))))"

definition assign :: "borrowed_account \<Rightarrow> address \<Rightarrow> pubkey \<Rightarrow> pubkey set \<Rightarrow> unit tx_action" where
  "assign account address owner signers =
     bind (gets (ba_get_owner account)) (\<lambda>current.
     if current = owner then ret ()
     else
       bind (require (address_is_signer address signers) MissingRequiredSignature) (\<lambda>_.
       ba_set_owner account owner))"

definition allocate_and_assign ::
    "borrowed_account \<Rightarrow> address \<Rightarrow> u64 \<Rightarrow> pubkey \<Rightarrow> pubkey set \<Rightarrow> unit tx_action" where
  "allocate_and_assign to to_address space owner signers =
     bind (allocate to to_address space signers) (\<lambda>_.
     assign to to_address owner signers)"

definition transfer_verified :: "instruction_context \<Rightarrow> nat \<Rightarrow> nat \<Rightarrow> u64 \<Rightarrow> unit tx_action" where
  "transfer_verified ic from_index to_index lamports =
     bind
       (with_instruction_account ic from_index (\<lambda>from.
          bind (gets (ba_get_data from)) (\<lambda>d.
          bind (require (d = []) InvalidArgument) (\<lambda>_.
          bind (gets (ba_get_lamports from)) (\<lambda>balance.
          bind (require (lamports \<le> balance) (of_system_error SE_ResultWithNegativeLamports)) (\<lambda>_.
          ba_checked_sub_lamports from lamports)))))) (\<lambda>_.
     with_instruction_account ic to_index (\<lambda>to. ba_checked_add_lamports to lamports))"

text \<open>The refusal of an unsigned source: the log line reads the key first.\<close>

definition must_sign :: "system_env \<Rightarrow> instruction_context \<Rightarrow> nat \<Rightarrow> unit tx_action" where
  "must_sign env ic index =
     bind (reads (\<lambda>_. is_instruction_account_signer ic index)) (\<lambda>signed.
     if signed then ret ()
     else
       bind (if se_logging env
             then bind (reads (key_of_instruction_account ic index)) (\<lambda>_. ret ())
             else ret ()) (\<lambda>_.
       throw MissingRequiredSignature))"

definition transfer :: "system_env \<Rightarrow> instruction_context \<Rightarrow> nat \<Rightarrow> nat \<Rightarrow> u64 \<Rightarrow> unit tx_action" where
  "transfer env ic from_index to_index lamports =
     bind (must_sign env ic from_index) (\<lambda>_.
     transfer_verified ic from_index to_index lamports)"

definition transfer_with_seed ::
    "system_env \<Rightarrow> instruction_context \<Rightarrow> nat \<Rightarrow> nat \<Rightarrow> bytes \<Rightarrow> pubkey \<Rightarrow> nat \<Rightarrow> u64 \<Rightarrow> unit tx_action" where
  "transfer_with_seed env ic from_index from_base_index from_seed from_owner to_index lamports =
     bind (must_sign env ic from_base_index) (\<lambda>_.
     bind (reads (key_of_instruction_account ic from_base_index)) (\<lambda>base.
     bind (reads (\<lambda>_. case create_with_seed (se_sha256 env) base from_seed from_owner of
                        Inl e \<Rightarrow> Inl (of_pubkey_error e)
                      | Inr a \<Rightarrow> Inr a)) (\<lambda>address_from_seed.
     bind (reads (key_of_instruction_account ic from_index)) (\<lambda>from_key.
     bind (require (from_key = address_from_seed) (of_system_error SE_AddressWithSeedMismatch)) (\<lambda>_.
     transfer_verified ic from_index to_index lamports)))))"

definition create_account ::
    "system_env \<Rightarrow> instruction_context \<Rightarrow> nat \<Rightarrow> nat \<Rightarrow> address \<Rightarrow> u64 \<Rightarrow> u64 \<Rightarrow> pubkey \<Rightarrow>
      pubkey set \<Rightarrow> unit tx_action" where
  "create_account env ic from_index to_index to_address lamports space owner signers =
     bind
       (with_instruction_account ic to_index (\<lambda>to.
          bind (gets (ba_get_lamports to)) (\<lambda>balance.
          bind (require (\<not> balance > 0) (of_system_error SE_AccountAlreadyInUse)) (\<lambda>_.
          allocate_and_assign to to_address space owner signers)))) (\<lambda>_.
     transfer env ic from_index to_index lamports)"

section \<open>Nonce accounts\<close>

abbreviation next_durable_nonce :: "system_env \<Rightarrow> durable_nonce" where
  "next_durable_nonce env \<equiv> durable_nonce_from_blockhash (se_sha256 env) (se_blockhash env)"

definition advance_nonce_account :: "system_env \<Rightarrow> borrowed_account \<Rightarrow> pubkey set \<Rightarrow> unit tx_action" where
  "advance_nonce_account env account signers =
     bind (require (ba_is_writable account) InvalidArgument) (\<lambda>_.
     bind (reads (ba_get_state (se_nonce_codec env) account)) (\<lambda>versions.
     case versions_state versions of
       NonceInitialized d \<Rightarrow>
         bind (require (nd_authority d \<in> signers) MissingRequiredSignature) (\<lambda>_.
         bind (require (nd_durable_nonce d \<noteq> next_durable_nonce env)
                 (of_system_error SE_NonceBlockhashNotExpired)) (\<lambda>_.
         ba_set_state (se_nonce_codec env) account
           (versions_new (NonceInitialized
             (nonce_data_new (nd_authority d) (next_durable_nonce env) (se_lamports_per_signature env))))))
     | NonceUninitialized \<Rightarrow> throw InvalidAccountData))"

text \<open>\<open>instruction.rs\<close> \<^verbatim>\<open>checked_add\<close>: overflow is reported as insufficient funds.\<close>

definition ix_checked_add :: "u64 \<Rightarrow> u64 \<Rightarrow> instruction_error + u64" where
  "ix_checked_add a b = ok_or InsufficientFunds (checked_add a b)"

definition withdraw_signer ::
    "system_env \<Rightarrow> borrowed_account \<Rightarrow> u64 \<Rightarrow> rent \<Rightarrow> nonce_versions \<Rightarrow> pubkey tx_action" where
  "withdraw_signer env from lamports rent versions =
     bind (gets (ba_get_lamports from)) (\<lambda>balance.
     case versions_state versions of
       NonceUninitialized \<Rightarrow>
         bind (require (lamports \<le> balance) InsufficientFunds) (\<lambda>_.
         gets (ba_get_key from))
     | NonceInitialized d \<Rightarrow>
         bind
           (if lamports = balance
            then
              bind (require (nd_durable_nonce d \<noteq> next_durable_nonce env)
                      (of_system_error SE_NonceBlockhashNotExpired)) (\<lambda>_.
              ba_set_state (se_nonce_codec env) from (versions_new NonceUninitialized))
            else
              bind (gets (\<lambda>tc. minimum_balance rent (length (ba_get_data from tc)))) (\<lambda>min_balance.
              bind (reads (\<lambda>_. ix_checked_add lamports min_balance)) (\<lambda>amount.
              require (amount \<le> balance) InsufficientFunds))) (\<lambda>_.
         ret (nd_authority d)))"

definition withdraw_nonce_account ::
    "system_env \<Rightarrow> instruction_context \<Rightarrow> nat \<Rightarrow> u64 \<Rightarrow> nat \<Rightarrow> rent \<Rightarrow> pubkey set \<Rightarrow> unit tx_action" where
  "withdraw_nonce_account env ic from_index lamports to_index rent signers =
     bind
       (with_instruction_account ic from_index (\<lambda>from.
          bind (require (ba_is_writable from) InvalidArgument) (\<lambda>_.
          bind (reads (ba_get_state (se_nonce_codec env) from)) (\<lambda>versions.
          bind (withdraw_signer env from lamports rent versions) (\<lambda>signer.
          bind (require (signer \<in> signers) MissingRequiredSignature) (\<lambda>_.
          ba_checked_sub_lamports from lamports)))))) (\<lambda>_.
     with_instruction_account ic to_index (\<lambda>to. ba_checked_add_lamports to lamports))"

definition initialize_nonce_account ::
    "system_env \<Rightarrow> borrowed_account \<Rightarrow> pubkey \<Rightarrow> rent \<Rightarrow> unit tx_action" where
  "initialize_nonce_account env account nonce_authority rent =
     bind (require (ba_is_writable account) InvalidArgument) (\<lambda>_.
     bind (reads (ba_get_state (se_nonce_codec env) account)) (\<lambda>versions.
     case versions_state versions of
       NonceUninitialized \<Rightarrow>
         bind (gets (\<lambda>tc. minimum_balance rent (length (ba_get_data account tc)))) (\<lambda>min_balance.
         bind (gets (ba_get_lamports account)) (\<lambda>balance.
         bind (require (\<not> balance < min_balance) InsufficientFunds) (\<lambda>_.
         ba_set_state (se_nonce_codec env) account
           (versions_new (NonceInitialized
             (nonce_data_new nonce_authority (next_durable_nonce env)
               (se_lamports_per_signature env)))))))
     | NonceInitialized _ \<Rightarrow> throw InvalidAccountData))"

definition authorize_nonce_account ::
    "system_env \<Rightarrow> borrowed_account \<Rightarrow> pubkey \<Rightarrow> pubkey set \<Rightarrow> unit tx_action" where
  "authorize_nonce_account env account nonce_authority signers =
     bind (require (ba_is_writable account) InvalidArgument) (\<lambda>_.
     bind (reads (ba_get_state (se_nonce_codec env) account)) (\<lambda>versions.
     case versions_authorize versions signers nonce_authority of
       Inr versions' \<Rightarrow> ba_set_state (se_nonce_codec env) account versions'
     | Inl AuthUninitialized \<Rightarrow> throw InvalidAccountData
     | Inl (AuthMissingRequiredSignature _) \<Rightarrow> throw MissingRequiredSignature))"

definition upgrade_nonce_account :: "system_env \<Rightarrow> borrowed_account \<Rightarrow> unit tx_action" where
  "upgrade_nonce_account env account =
     bind (gets (ba_get_owner account)) (\<lambda>owner.
     bind (require (owner = system_program_id) InvalidAccountOwner) (\<lambda>_.
     bind (require (ba_is_writable account) InvalidArgument) (\<lambda>_.
     bind (reads (ba_get_state (se_nonce_codec env) account)) (\<lambda>versions.
     case versions_upgrade (se_sha256 env) versions of
       None \<Rightarrow> throw InvalidArgument
     | Some versions' \<Rightarrow> ba_set_state (se_nonce_codec env) account versions'))))"

section \<open>Sysvar checks\<close>

definition check_sysvar_account ::
    "pubkey \<Rightarrow> instruction_context \<Rightarrow> nat \<Rightarrow> transaction_context \<Rightarrow> instruction_error + unit" where
  "check_sysvar_account sysvar_id ic index tc =
     and_then (key_of_instruction_account ic index tc) (\<lambda>key.
       if key \<noteq> sysvar_id then Inl InvalidArgument else Inr ())"

definition sysvar_recent_blockhashes ::
    "system_env \<Rightarrow> instruction_context \<Rightarrow> nat \<Rightarrow> recent_blockhashes tx_action" where
  "sysvar_recent_blockhashes env ic index =
     bind (reads (check_sysvar_account recent_blockhashes_sysvar_id ic index)) (\<lambda>_.
     reads (\<lambda>_. get_recent_blockhashes (se_sysvar_cache env)))"

definition sysvar_rent :: "system_env \<Rightarrow> instruction_context \<Rightarrow> nat \<Rightarrow> rent tx_action" where
  "sysvar_rent env ic index =
     bind (reads (check_sysvar_account rent_sysvar_id ic index)) (\<lambda>_.
     reads (\<lambda>_. get_rent (se_sysvar_cache env)))"

section \<open>The entry point\<close>

abbreviation check_accounts :: "instruction_context \<Rightarrow> nat \<Rightarrow> unit tx_action" where
  "check_accounts ic n \<equiv> reads (\<lambda>_. check_number_of_instruction_accounts ic n)"

abbreviation create_address ::
    "system_env \<Rightarrow> instruction_context \<Rightarrow> nat \<Rightarrow> (pubkey \<times> bytes \<times> pubkey) option \<Rightarrow> address tx_action" where
  "create_address env ic index with_seed \<equiv>
     bind (reads (key_of_instruction_account ic index)) (\<lambda>key.
     reads (\<lambda>_. address_create env key with_seed))"

fun system_process ::
    "system_env \<Rightarrow> instruction_context \<Rightarrow> pubkey set \<Rightarrow> system_instruction \<Rightarrow> unit tx_action" where
  "system_process env ic signers (CreateAccount lamports space owner) =
     bind (check_accounts ic 2) (\<lambda>_.
     bind (create_address env ic 1 None) (\<lambda>to_address.
     create_account env ic 0 1 to_address lamports space owner signers))"
| "system_process env ic signers (CreateAccountWithSeed base seed lamports space owner) =
     bind (check_accounts ic 2) (\<lambda>_.
     bind (create_address env ic 1 (Some (base, seed, owner))) (\<lambda>to_address.
     create_account env ic 0 1 to_address lamports space owner signers))"
| "system_process env ic signers (Assign owner) =
     bind (check_accounts ic 1) (\<lambda>_.
     with_instruction_account ic 0 (\<lambda>account.
       bind (create_address env ic 0 None) (\<lambda>address.
       assign account address owner signers)))"
| "system_process env ic signers (Transfer lamports) =
     bind (check_accounts ic 2) (\<lambda>_.
     transfer env ic 0 1 lamports)"
| "system_process env ic signers (TransferWithSeed lamports from_seed from_owner) =
     bind (check_accounts ic 3) (\<lambda>_.
     transfer_with_seed env ic 0 1 from_seed from_owner 2 lamports)"
| "system_process env ic signers AdvanceNonceAccount =
     bind (check_accounts ic 1) (\<lambda>_.
     with_instruction_account ic 0 (\<lambda>me.
       bind (sysvar_recent_blockhashes env ic 1) (\<lambda>recent_blockhashes.
       bind (require (recent_blockhashes \<noteq> []) (of_system_error SE_NonceNoRecentBlockhashes)) (\<lambda>_.
       advance_nonce_account env me signers))))"
| "system_process env ic signers (WithdrawNonceAccount lamports) =
     bind (check_accounts ic 2) (\<lambda>_.
     bind (sysvar_recent_blockhashes env ic 2) (\<lambda>_.
     bind (sysvar_rent env ic 3) (\<lambda>rent.
     withdraw_nonce_account env ic 0 lamports 1 rent signers)))"
| "system_process env ic signers (InitializeNonceAccount authorized) =
     bind (check_accounts ic 1) (\<lambda>_.
     with_instruction_account ic 0 (\<lambda>me.
       bind (sysvar_recent_blockhashes env ic 1) (\<lambda>recent_blockhashes.
       bind (require (recent_blockhashes \<noteq> []) (of_system_error SE_NonceNoRecentBlockhashes)) (\<lambda>_.
       bind (sysvar_rent env ic 2) (\<lambda>rent.
       initialize_nonce_account env me authorized rent)))))"
| "system_process env ic signers (AuthorizeNonceAccount nonce_authority) =
     bind (check_accounts ic 1) (\<lambda>_.
     with_instruction_account ic 0 (\<lambda>me.
       authorize_nonce_account env me nonce_authority signers))"
| "system_process env ic signers UpgradeNonceAccount =
     bind (check_accounts ic 1) (\<lambda>_.
     with_instruction_account ic 0 (upgrade_nonce_account env))"
| "system_process env ic signers (Allocate space) =
     bind (check_accounts ic 1) (\<lambda>_.
     with_instruction_account ic 0 (\<lambda>account.
       bind (create_address env ic 0 None) (\<lambda>address.
       allocate account address space signers)))"
| "system_process env ic signers (AllocateWithSeed base seed space owner) =
     bind (check_accounts ic 1) (\<lambda>_.
     with_instruction_account ic 0 (\<lambda>account.
       bind (create_address env ic 0 (Some (base, seed, owner))) (\<lambda>address.
       allocate_and_assign account address space owner signers)))"
| "system_process env ic signers (AssignWithSeed base seed owner) =
     bind (check_accounts ic 1) (\<lambda>_.
     with_instruction_account ic 0 (\<lambda>account.
       bind (create_address env ic 0 (Some (base, seed, owner))) (\<lambda>address.
       assign account address owner signers)))"

definition system_entrypoint :: "system_env \<Rightarrow> unit tx_action" where
  "system_entrypoint env =
     bind (reads get_current_instruction_context) (\<lambda>ic.
     bind (reads (\<lambda>_. ok_or InvalidInstructionData (se_decode env (ic_instruction_data ic)))) (\<lambda>instruction.
     bind (reads (get_signers ic)) (\<lambda>signers.
     system_process env ic signers instruction)))"

section \<open>The system program keeps the access policy\<close>

lemmas system_actions = allocate_def assign_def allocate_and_assign_def transfer_verified_def
  must_sign_def transfer_def transfer_with_seed_def create_account_def advance_nonce_account_def
  withdraw_signer_def withdraw_nonce_account_def initialize_nonce_account_def
  authorize_nonce_account_def upgrade_nonce_account_def sysvar_recent_blockhashes_def
  sysvar_rent_def

lemma keeps_case_nonce_state [frame_intros]:
  "keeps R m \<Longrightarrow> (\<And>d. st = NonceInitialized d \<Longrightarrow> keeps R (f d)) \<Longrightarrow>
     keeps R (case st of NonceUninitialized \<Rightarrow> m | NonceInitialized d \<Rightarrow> f d)"
  by (cases st) simp_all

lemma keeps_case_authorize [frame_intros]:
  "(\<And>v. keeps R (f v)) \<Longrightarrow> (\<And>k. keeps R (g k)) \<Longrightarrow> keeps R m \<Longrightarrow>
     keeps R (case r of Inl AuthUninitialized \<Rightarrow> m | Inl (AuthMissingRequiredSignature k) \<Rightarrow> g k
       | Inr v \<Rightarrow> f v)"
  by (cases r) (auto split: authorize_nonce_error.split)

lemma keeps_allocate [frame_intros]:
  "borrow_ok n ic b \<Longrightarrow> keeps (access_at n ic) (allocate b a sp sg)"
  unfolding allocate_def by (intro frame_intros)

lemma keeps_assign [frame_intros]:
  "borrow_ok n ic b \<Longrightarrow> keeps (access_at n ic) (assign b a ow sg)"
  unfolding assign_def by (intro frame_intros)

lemma keeps_allocate_and_assign [frame_intros]:
  "borrow_ok n ic b \<Longrightarrow> keeps (access_at n ic) (allocate_and_assign b a sp ow sg)"
  unfolding allocate_and_assign_def by (intro frame_intros)

lemma keeps_transfer_verified [frame_intros]:
  "ic_small ic \<Longrightarrow> keeps (access_at n ic) (transfer_verified ic i j l)"
  unfolding transfer_verified_def by (intro frame_intros)

lemma keeps_must_sign [frame_intros]: "keeps (access_at n ic) (must_sign env ic i)"
  unfolding must_sign_def by (intro frame_intros)

lemma keeps_transfer [frame_intros]:
  "ic_small ic \<Longrightarrow> keeps (access_at n ic) (transfer env ic i j l)"
  unfolding transfer_def by (intro frame_intros)

lemma keeps_transfer_with_seed [frame_intros]:
  "ic_small ic \<Longrightarrow> keeps (access_at n ic) (transfer_with_seed env ic i bi sd ow j l)"
  unfolding transfer_with_seed_def by (intro frame_intros)

lemma keeps_create_account [frame_intros]:
  "ic_small ic \<Longrightarrow> keeps (access_at n ic) (create_account env ic i j a l sp ow sg)"
  unfolding create_account_def by (intro frame_intros)

lemma keeps_advance_nonce_account [frame_intros]:
  "borrow_ok n ic b \<Longrightarrow> keeps (access_at n ic) (advance_nonce_account env b sg)"
  unfolding advance_nonce_account_def by (intro frame_intros)

lemma keeps_withdraw_signer [frame_intros]:
  "borrow_ok n ic b \<Longrightarrow> keeps (access_at n ic) (withdraw_signer env b l r v)"
  unfolding withdraw_signer_def by (intro frame_intros)

lemma keeps_withdraw_nonce_account [frame_intros]:
  "ic_small ic \<Longrightarrow> keeps (access_at n ic) (withdraw_nonce_account env ic i l j r sg)"
  unfolding withdraw_nonce_account_def by (intro frame_intros)

lemma keeps_initialize_nonce_account [frame_intros]:
  "borrow_ok n ic b \<Longrightarrow> keeps (access_at n ic) (initialize_nonce_account env b a r)"
  unfolding initialize_nonce_account_def by (intro frame_intros)

lemma keeps_authorize_nonce_account [frame_intros]:
  "borrow_ok n ic b \<Longrightarrow> keeps (access_at n ic) (authorize_nonce_account env b a sg)"
  unfolding authorize_nonce_account_def by (intro frame_intros)

lemma keeps_upgrade_nonce_account [frame_intros]:
  "borrow_ok n ic b \<Longrightarrow> keeps (access_at n ic) (upgrade_nonce_account env b)"
  unfolding upgrade_nonce_account_def by (intro frame_intros)

lemma keeps_sysvar_reads [frame_intros]:
  "keeps (access_at n ic) (sysvar_recent_blockhashes env ic' i)"
  "keeps (access_at n ic) (sysvar_rent env ic' i)"
  unfolding sysvar_recent_blockhashes_def sysvar_rent_def by (intro frame_intros)+

lemma keeps_system_process:
  assumes "ic_small ic"
  shows "keeps (access_at n ic) (system_process env ic signers instr)"
  by (cases instr) (simp_all only: system_process.simps, (intro frame_intros assms | assumption)+)

lemma system_process_access: "ic_small ic \<Longrightarrow> keeps (access ic) (system_process env ic signers instr)"
  by (rule keeps_access_at) (rule keeps_system_process)

end
