(* ===== verification/System_Properties.thy ===== *)
theory System_Properties
  imports System_Program Context_Properties
begin

text \<open>
  What the instructions of the system program do when they succeed: transfers conserve lamports,
  account creation yields the requested account, advancing a nonce replaces it; and the theorem that
  the whole program, on every path, keeps the access policy.
\<close>

section \<open>Transfers move lamports and nothing else\<close>

definition total_lamports :: "transaction_context \<Rightarrow> nat" where
  "total_lamports tc =
     (\<Sum>i < length (ta_accounts (tc_accounts tc)). unat (acct_lamports (account_at tc i)))"

lemma with_instruction_account_ok:
  assumes "with_instruction_account ic k body s = (Inr x, t)"
  obtains i b u where "get_index_of_instruction_account_in_transaction ic k = Inr i"
    "i < length (ta_accounts (tc_accounts s))"
    "ba_instruction_context b = ic" "ba_index_in_transaction b = i"
    "body b (set_flag i Writing s) = (Inr x, u)" "t = set_flag i Unused u"
proof -
  obtain i u where "get_index_of_instruction_account_in_transaction ic k = Inr i"
    "i < length (ta_accounts (tc_accounts s))"
    "body \<lparr>ba_instruction_context = ic, ba_index_in_transaction = i,
      ba_index_in_instruction = sat_add_u16 (get_number_of_program_accounts ic) k\<rparr>
        (set_flag i Writing s) = (Inr x, u)" "t = set_flag i Unused u"
    using assms unfolding try_borrow_instruction_account_def with_borrowed_reads
    by (auto simp: with_borrowed_def try_borrow_account_eq release_set_flag throw_def
        split: sum.splits prod.splits if_splits)
  then show thesis by (intro that) simp_all
qed

text \<open>The effect of a balance change through a handle.\<close>

definition lamports_changed ::
    "nat \<Rightarrow> u64 \<Rightarrow> transaction_context \<Rightarrow> transaction_context \<Rightarrow> bool" where
  "lamports_changed i l s t \<longleftrightarrow>
     length (ta_accounts (tc_accounts t)) = length (ta_accounts (tc_accounts s)) \<and>
     (\<forall>j. account_at t j = (if j = i then (account_at s i)\<lparr>acct_lamports := l\<rparr> else account_at s j))"

lemma set_lamports_len:
  "ba_set_lamports b l s = (r, t) \<Longrightarrow>
     length (ta_accounts (tc_accounts t)) = length (ta_accounts (tc_accounts s))"
  by (auto simp: ba_set_lamports_def touch_write_eq write_step_def split: if_splits)

lemma set_lamports_changed:
  assumes "ba_set_lamports b l s = (Inr u, t)" and "ba_index_in_transaction b < length (ta_accounts (tc_accounts s))"
  shows "lamports_changed (ba_index_in_transaction b) l s t"
  using set_lamports_ok [OF assms] set_lamports_len [OF assms(1)]
  by (simp add: lamports_changed_def ba_account_def)

lemma total_lamports_changed:
  assumes "lamports_changed i l s t" and "i < length (ta_accounts (tc_accounts s))"
  shows "total_lamports t + unat (acct_lamports (account_at s i)) = total_lamports s + unat l"
proof -
  let ?n = "length (ta_accounts (tc_accounts s))"
  let ?f = "\<lambda>tc j. unat (acct_lamports (account_at tc j))"
  have split: "total_lamports tc = ?f tc i + (\<Sum>j \<in> {..<?n} - {i}. ?f tc j)"
    if "length (ta_accounts (tc_accounts tc)) = ?n" for tc
    unfolding total_lamports_def that using assms(2) by (simp add: sum.remove)
  have "(\<Sum>j \<in> {..<?n} - {i}. ?f t j) = (\<Sum>j \<in> {..<?n} - {i}. ?f s j)"
    using assms(1) by (intro sum.cong) (auto simp: lamports_changed_def)
  with split [of s] split [of t] assms(1) show ?thesis
    by (simp add: lamports_changed_def)
qed

lemma lamports_changed_flags:
  "lamports_changed i l (set_flag j fl s) t \<longleftrightarrow> lamports_changed i l s t"
  "lamports_changed i l s (set_flag j fl t) \<longleftrightarrow> lamports_changed i l s t"
  by (simp_all add: lamports_changed_def)

lemma withdraw_scope_ok:
  assumes "with_instruction_account ic k (\<lambda>b.
      bind (gets (ba_get_data b)) (\<lambda>d.
      bind (require (d = []) InvalidArgument) (\<lambda>_.
      bind (gets (ba_get_lamports b)) (\<lambda>balance.
      bind (require (l \<le> balance) e) (\<lambda>_.
      ba_checked_sub_lamports b l))))) s = (Inr x, t)"
  obtains i where "get_index_of_instruction_account_in_transaction ic k = Inr i"
    "i < length (ta_accounts (tc_accounts s))" "acct_data (account_at s i) = []"
    "l \<le> acct_lamports (account_at s i)"
    "lamports_changed i (acct_lamports (account_at s i) - l) s t"
proof -
  obtain i b u where i: "get_index_of_instruction_account_in_transaction ic k = Inr i"
      "i < length (ta_accounts (tc_accounts s))"
    and b: "ba_instruction_context b = ic" "ba_index_in_transaction b = i"
    and body: "bind (gets (ba_get_data b)) (\<lambda>d.
      bind (require (d = []) InvalidArgument) (\<lambda>_.
      bind (gets (ba_get_lamports b)) (\<lambda>balance.
      bind (require (l \<le> balance) e) (\<lambda>_.
      ba_checked_sub_lamports b l)))) (set_flag i Writing s) = (Inr x, u)"
    and t: "t = set_flag i Unused u"
    by (rule with_instruction_account_ok [OF assms])
  let ?s = "set_flag i Writing s"
  from body b have data: "acct_data (account_at s i) = []" "l \<le> acct_lamports (account_at s i)"
    and run: "ba_set_lamports b (acct_lamports (account_at s i) - l) ?s = (Inr x, u)"
    by (auto simp: run_simps ba_checked_sub_lamports_def ba_get_data_def ba_get_lamports_def
        ba_account_def checked_sub_def split: if_splits)
  from set_lamports_changed [OF run] i(2) b
  have "lamports_changed i (acct_lamports (account_at s i) - l) s t"
    by (simp add: t lamports_changed_flags)
  with i data show thesis by (rule that)
qed

lemma deposit_scope_ok:
  assumes "with_instruction_account ic k (\<lambda>b. ba_checked_add_lamports b l) s = (Inr x, t)"
  obtains i n where "get_index_of_instruction_account_in_transaction ic k = Inr i"
    "i < length (ta_accounts (tc_accounts s))"
    "checked_add (acct_lamports (account_at s i)) l = Some n" "lamports_changed i n s t"
proof -
  obtain i b u where i: "get_index_of_instruction_account_in_transaction ic k = Inr i"
      "i < length (ta_accounts (tc_accounts s))"
    and b: "ba_instruction_context b = ic" "ba_index_in_transaction b = i"
    and body: "ba_checked_add_lamports b l (set_flag i Writing s) = (Inr x, u)"
    and t: "t = set_flag i Unused u"
    by (rule with_instruction_account_ok [OF assms])
  let ?s = "set_flag i Writing s"
  from body b obtain n where n: "checked_add (acct_lamports (account_at s i)) l = Some n"
    and run: "ba_set_lamports b n ?s = (Inr x, u)"
    by (auto simp: run_simps ba_checked_add_lamports_def ba_get_lamports_def ba_account_def ok_or_def
        split: option.splits)
  from set_lamports_changed [OF run] i(2) b have "lamports_changed i n s t"
    by (simp add: t lamports_changed_flags)
  with i n show thesis by (rule that)
qed

text \<open>What a transfer of \<open>l\<close> lamports from account \<open>i\<close> to account \<open>j\<close> is.\<close>

definition moves_lamports ::
    "nat \<Rightarrow> nat \<Rightarrow> u64 \<Rightarrow> transaction_context \<Rightarrow> transaction_context \<Rightarrow> bool" where
  "moves_lamports i j l s t \<longleftrightarrow>
     l \<le> acct_lamports (account_at s i) \<and>
     (\<forall>k. acct_data (account_at t k) = acct_data (account_at s k) \<and>
          acct_owner (account_at t k) = acct_owner (account_at s k) \<and>
          acct_executable (account_at t k) = acct_executable (account_at s k) \<and>
          unat (acct_lamports (account_at t k)) =
            unat (acct_lamports (account_at s k)) + (if k = j then unat l else 0)
              - (if k = i then unat l else 0)) \<and>
     total_lamports t = total_lamports s"

lemma transfer_verified_moves:
  assumes "transfer_verified ic from_index to_index l s = (Inr x, t)"
  obtains i j where "get_index_of_instruction_account_in_transaction ic from_index = Inr i"
    "get_index_of_instruction_account_in_transaction ic to_index = Inr j"
    "acct_data (account_at s i) = []" "moves_lamports i j l s t"
proof -
  from assms [unfolded transfer_verified_def] obtain y u where
    out: "with_instruction_account ic from_index (\<lambda>b.
      bind (gets (ba_get_data b)) (\<lambda>d.
      bind (require (d = []) InvalidArgument) (\<lambda>_.
      bind (gets (ba_get_lamports b)) (\<lambda>balance.
      bind (require (l \<le> balance) (of_system_error SE_ResultWithNegativeLamports)) (\<lambda>_.
      ba_checked_sub_lamports b l))))) s = (Inr y, u)"
    and inn: "with_instruction_account ic to_index (\<lambda>b. ba_checked_add_lamports b l) u = (Inr x, t)"
    by (rule bind_InrE)
  obtain i where i: "get_index_of_instruction_account_in_transaction ic from_index = Inr i"
      "i < length (ta_accounts (tc_accounts s))" "acct_data (account_at s i) = []"
      "l \<le> acct_lamports (account_at s i)"
    and su: "lamports_changed i (acct_lamports (account_at s i) - l) s u"
    by (rule withdraw_scope_ok [OF out])
  obtain j n where j: "get_index_of_instruction_account_in_transaction ic to_index = Inr j"
      "j < length (ta_accounts (tc_accounts u))"
    and n: "checked_add (acct_lamports (account_at u j)) l = Some n"
    and ut: "lamports_changed j n u t"
    by (rule deposit_scope_ok [OF inn])
  have sub: "unat (acct_lamports (account_at s i) - l) = unat (acct_lamports (account_at s i)) - unat l"
    and le: "unat l \<le> unat (acct_lamports (account_at s i))"
    using i(4) by (simp_all add: unat_sub word_le_nat_alt)
  have add: "unat n = unat (acct_lamports (account_at u j)) + unat l"
    using n by (rule unat_checked_add)
  have "total_lamports t = total_lamports s"
    using total_lamports_changed [OF su i(2)] total_lamports_changed [OF ut j(2)] sub le add by simp
  moreover have "acct_data (account_at t k) = acct_data (account_at s k) \<and>
      acct_owner (account_at t k) = acct_owner (account_at s k) \<and>
      acct_executable (account_at t k) = acct_executable (account_at s k) \<and>
      unat (acct_lamports (account_at t k)) =
        unat (acct_lamports (account_at s k)) + (if k = j then unat l else 0)
          - (if k = i then unat l else 0)" for k
    using su ut sub le add by (auto simp: lamports_changed_def)
  ultimately have "moves_lamports i j l s t"
    using i(4) by (simp add: moves_lamports_def)
  with i(1) j(1) i(3) show thesis by (rule that)
qed

section \<open>Account creation\<close>

lemma write_step_len [simp]:
  "length (ta_accounts (tc_accounts (write_step i f d s))) = length (ta_accounts (tc_accounts s))"
  by (simp add: write_step_def)

lemma set_data_length_ok:
  assumes "ba_set_data_length b m s = (Inr u, t)"
    and "ba_index_in_transaction b < length (ta_accounts (tc_accounts s))"
  shows "account_at t j =
      (if j = ba_index_in_transaction b
       then (ba_account b s)\<lparr>acct_data := vec_resize m 0 (acct_data (ba_account b s))\<rparr> else account_at s j)"
    and "length (ta_accounts (tc_accounts t)) = length (ta_accounts (tc_accounts s))"
proof -
  have same: "vec_resize m 0 d = d" if "length d = m" for d :: bytes
    using that by (simp add: vec_resize_def)
  from assms(1) consider "t = s" "length (ba_get_data b s) = m"
    | delta where "t = write_step (ba_index_in_transaction b) (acct_resize m 0) delta s"
    by (auto simp: ba_set_data_length_def touch_resize_write_eq bind_def [of "reads _"] bind_def [of "gets _"]
        reads_def gets_def ret_def split: sum.splits if_splits)
  note cases = this
  from cases show "account_at t j =
      (if j = ba_index_in_transaction b
       then (ba_account b s)\<lparr>acct_data := vec_resize m 0 (acct_data (ba_account b s))\<rparr> else account_at s j)"
    by cases (use assms(2) same in \<open>auto simp: account_at_write_step acct_resize_def ba_account_def ba_get_data_def\<close>)
  from cases show "length (ta_accounts (tc_accounts t)) = length (ta_accounts (tc_accounts s))"
    by cases auto
qed

lemma set_owner_ok:
  assumes "ba_set_owner b key s = (Inr u, t)"
    and "ba_index_in_transaction b < length (ta_accounts (tc_accounts s))"
  shows "account_at t j =
      (if j = ba_index_in_transaction b then (ba_account b s)\<lparr>acct_owner := key\<rparr> else account_at s j)"
    and "length (ta_accounts (tc_accounts t)) = length (ta_accounts (tc_accounts s))"
  using assms
  by (auto simp: ba_set_owner_def touch_write_eq account_at_write_step ba_account_def ba_get_owner_def
      split: if_splits)

lemma allocate_ok:
  assumes run: "allocate b a space signers s = (Inr u, t)"
    and i: "ba_index_in_transaction b < length (ta_accounts (tc_accounts s))"
  shows "address_is_signer a signers" "acct_data (ba_account b s) = []"
    "acct_owner (ba_account b s) = system_program_id" "unat space \<le> MAX_PERMITTED_DATA_LENGTH"
    "account_at t j = (if j = ba_index_in_transaction b
       then (ba_account b s)\<lparr>acct_data := replicate (unat space) 0\<rparr> else account_at s j)"
    "length (ta_accounts (tc_accounts t)) = length (ta_accounts (tc_accounts s))"
proof -
  from run have guards: "address_is_signer a signers" "acct_data (ba_account b s) = []"
      "acct_owner (ba_account b s) = system_program_id" "unat space \<le> MAX_PERMITTED_DATA_LENGTH"
    and set: "ba_set_data_length b (unat space) s = (Inr u, t)"
    by (auto simp: allocate_def bind_def require_def gets_def ba_get_data_def ba_get_owner_def split: if_splits)
  show "account_at t j = (if j = ba_index_in_transaction b
       then (ba_account b s)\<lparr>acct_data := replicate (unat space) 0\<rparr> else account_at s j)"
    using set_data_length_ok(1) [OF set i] guards(2) by (simp add: vec_resize_def)
  show "length (ta_accounts (tc_accounts t)) = length (ta_accounts (tc_accounts s))"
    using set_data_length_ok(2) [OF set i] .
  show "address_is_signer a signers" "acct_data (ba_account b s) = []"
    "acct_owner (ba_account b s) = system_program_id" "unat space \<le> MAX_PERMITTED_DATA_LENGTH"
    by (fact guards)+
qed

lemma assign_ok:
  assumes run: "assign b a owner signers s = (Inr u, t)"
    and i: "ba_index_in_transaction b < length (ta_accounts (tc_accounts s))"
  shows "account_at t j =
      (if j = ba_index_in_transaction b then (ba_account b s)\<lparr>acct_owner := owner\<rparr> else account_at s j)"
    "length (ta_accounts (tc_accounts t)) = length (ta_accounts (tc_accounts s))"
proof -
  from run consider "t = s" "acct_owner (ba_account b s) = owner" | "ba_set_owner b owner s = (Inr u, t)"
    by (auto simp: assign_def bind_def gets_def require_def ret_def ba_get_owner_def split: if_splits)
  note cases = this
  from cases show "account_at t j =
      (if j = ba_index_in_transaction b then (ba_account b s)\<lparr>acct_owner := owner\<rparr> else account_at s j)"
    by cases (auto simp: ba_account_def set_owner_ok(1) [OF _ i])
  from cases show "length (ta_accounts (tc_accounts t)) = length (ta_accounts (tc_accounts s))"
    by cases (auto simp: set_owner_ok(2) [OF _ i])
qed

text \<open>The account that allocation and assignment leave: zeroed data of the requested size and the new owner.\<close>

lemma allocate_and_assign_ok:
  assumes run: "allocate_and_assign b a space owner signers s = (Inr u, t)"
    and i: "ba_index_in_transaction b < length (ta_accounts (tc_accounts s))"
  shows "address_is_signer a signers" "acct_data (ba_account b s) = []"
    "acct_owner (ba_account b s) = system_program_id" "unat space \<le> MAX_PERMITTED_DATA_LENGTH"
    "account_at t j = (if j = ba_index_in_transaction b
       then (ba_account b s)\<lparr>acct_data := replicate (unat space) 0, acct_owner := owner\<rparr>
       else account_at s j)"
    "length (ta_accounts (tc_accounts t)) = length (ta_accounts (tc_accounts s))"
proof -
  from run [unfolded allocate_and_assign_def] obtain v m
    where alloc: "allocate b a space signers s = (Inr v, m)" and assign: "assign b a owner signers m = (Inr u, t)"
    by (rule bind_InrE)
  note al = allocate_ok [OF alloc i]
  have i': "ba_index_in_transaction b < length (ta_accounts (tc_accounts m))" using i al(6) by simp
  note as = assign_ok [OF assign i']
  show "address_is_signer a signers" "acct_data (ba_account b s) = []"
    "acct_owner (ba_account b s) = system_program_id" "unat space \<le> MAX_PERMITTED_DATA_LENGTH"
    by (fact al)+
  show "account_at t j = (if j = ba_index_in_transaction b
       then (ba_account b s)\<lparr>acct_data := replicate (unat space) 0, acct_owner := owner\<rparr>
       else account_at s j)"
    using as(1) al(5) by (simp add: ba_account_def)
  show "length (ta_accounts (tc_accounts t)) = length (ta_accounts (tc_accounts s))"
    using as(2) al(6) by simp
qed

lemma transfer_ok:
  assumes "transfer env ic from_index to_index l s = (Inr x, t)"
  shows "is_instruction_account_signer ic from_index = Inr True \<and>
    (\<exists>i j. get_index_of_instruction_account_in_transaction ic from_index = Inr i \<and>
       get_index_of_instruction_account_in_transaction ic to_index = Inr j \<and>
       acct_data (account_at s i) = [] \<and> moves_lamports i j l s t)"
proof -
  from assms [unfolded transfer_def] obtain y u
    where sign: "must_sign env ic from_index s = (Inr y, u)"
      and tr: "transfer_verified ic from_index to_index l u = (Inr x, t)"
    by (rule bind_InrE)
  from sign have "is_instruction_account_signer ic from_index = Inr True" and "u = s"
    by (auto simp: must_sign_def bind_def reads_def ret_def throw_def
        split: if_splits sum.splits prod.splits)
  with tr show ?thesis by (metis transfer_verified_moves)
qed

lemma total_lamports_same:
  assumes "length (ta_accounts (tc_accounts t)) = length (ta_accounts (tc_accounts s))"
    and "\<And>j. acct_lamports (account_at t j) = acct_lamports (account_at s j)"
  shows "total_lamports t = total_lamports s"
  using assms by (simp add: total_lamports_def)

lemma create_account_ok:
  assumes run: "create_account env ic from_index to_index a l space owner signers s = (Inr x, t)"
  obtains i j where "get_index_of_instruction_account_in_transaction ic from_index = Inr i"
    "get_index_of_instruction_account_in_transaction ic to_index = Inr j"
    "address_is_signer a signers" "acct_lamports (account_at s j) = 0" "acct_data (account_at s j) = []"
    "acct_owner (account_at s j) = system_program_id" "unat space \<le> MAX_PERMITTED_DATA_LENGTH"
    "acct_lamports (account_at t j) = l" "acct_data (account_at t j) = replicate (unat space) 0"
    "acct_owner (account_at t j) = owner" "total_lamports t = total_lamports s"
proof -
  from run [unfolded create_account_def] obtain y m
    where scope: "with_instruction_account ic to_index (\<lambda>to.
        bind (gets (ba_get_lamports to)) (\<lambda>balance.
        bind (require (\<not> balance > 0) (of_system_error SE_AccountAlreadyInUse)) (\<lambda>_.
        allocate_and_assign to a space owner signers))) s = (Inr y, m)"
      and tr: "transfer env ic from_index to_index l m = (Inr x, t)"
    by (rule bind_InrE)
  obtain j b u where j: "get_index_of_instruction_account_in_transaction ic to_index = Inr j"
      "j < length (ta_accounts (tc_accounts s))"
    and b: "ba_instruction_context b = ic" "ba_index_in_transaction b = j"
    and body: "bind (gets (ba_get_lamports b)) (\<lambda>balance.
        bind (require (\<not> balance > 0) (of_system_error SE_AccountAlreadyInUse)) (\<lambda>_.
        allocate_and_assign b a space owner signers)) (set_flag j Writing s) = (Inr y, u)"
    and m: "m = set_flag j Unused u"
    by (rule with_instruction_account_ok [OF scope])
  let ?s = "set_flag j Writing s"
  from body b have zero: "acct_lamports (account_at s j) = 0"
    and aa: "allocate_and_assign b a space owner signers ?s = (Inr y, u)"
    by (auto simp: bind_def gets_def require_def ba_get_lamports_def ba_account_def word_gt_0 split: if_splits)
  have jj: "ba_index_in_transaction b < length (ta_accounts (tc_accounts ?s))" using j b by simp
  note ok = allocate_and_assign_ok [OF aa jj]
  have at: "account_at m k = (if k = j
      then (account_at s j)\<lparr>acct_data := replicate (unat space) 0, acct_owner := owner\<rparr>
      else account_at s k)" for k
    using ok(5) b by (simp add: m ba_account_def)
  have total_m: "total_lamports m = total_lamports s"
    using ok(6) at by (intro total_lamports_same) (simp_all add: m)
  from transfer_ok [OF tr] obtain i j'
    where i: "get_index_of_instruction_account_in_transaction ic from_index = Inr i"
      and j': "get_index_of_instruction_account_in_transaction ic to_index = Inr j'"
      and mv: "moves_lamports i j' l m t"
    by blast
  from j j' have eq: "j' = j" by simp
  have lam: "acct_lamports (account_at t j) = l"
  proof (cases "i = j")
    case True
    with mv eq zero at [of j] have "l = 0" by (simp add: moves_lamports_def)
    with mv True eq zero at [of j] show ?thesis
      by (auto simp: moves_lamports_def word_unat_eq_iff)
  next
    case False
    with mv eq zero at [of j] show ?thesis
      by (simp add: moves_lamports_def word_unat_eq_iff)
  qed
  show thesis
    by (rule that [OF i j(1) _ zero]) (use ok lam mv eq at [of j] b total_m in
      \<open>auto simp: moves_lamports_def ba_account_def\<close>)
qed

section \<open>Properties\<close>

definition demo_system_env :: "system_instruction \<Rightarrow> system_env" where
  "demo_system_env instr =
     \<lparr>se_sha256 = (\<lambda>b. b), se_nonce_codec = \<lparr>c_encode = (\<lambda>_. None), c_decode = (\<lambda>_. None)\<rparr>,
      se_decode = (\<lambda>_. Some instr), se_sysvar_cache = sysvar_cache_default,
      se_blockhash = hash_default, se_lamports_per_signature = 5000, se_logging = True\<rparr>"

lemmas system_eval [eval_simps] = system_entrypoint_def demo_system_env_def system_program_id_def
  must_sign_def transfer_def transfer_verified_def

text \<open>
  (C6) Whatever instruction the system program receives, and whether it succeeds or fails, it keeps
  the account access policy of its instruction: accounts that are read-only in the instruction or
  executable are unchanged; an account the system program does not own keeps its data, owner and
  executable flag and loses no lamports; ownership is given away only with zeroed data; rent epoch
  and the remote flag never change; a changed account is marked touched; all borrows are returned;
  and the resize delta keeps tracking the total data size within its limit.
\<close>

theorem system_entrypoint_access:
  assumes "get_current_instruction_context s = Inr ic" and "ic_small ic"
    and "system_entrypoint env s = (r, t)"
  shows "access ic s t"
proof -
  have "keeps (access ic) (bind (reads (\<lambda>_. ok_or InvalidInstructionData (se_decode env (ic_instruction_data ic))))
      (\<lambda>instruction. bind (reads (get_signers ic)) (\<lambda>signers. system_process env ic signers instruction)))"
    by (intro frame_intros system_process_access assms(2))
  then show ?thesis
    by (rule keepsD) (use assms(1,3) in \<open>simp add: system_entrypoint_def bind_def reads_def\<close>)
qed

theorem system_entrypoint_access_witness:
  "access demo_ic demo_tc (snd (system_entrypoint (demo_system_env (Transfer 30)) demo_tc)) \<and>
   fst (system_entrypoint (demo_system_env (Transfer 30)) demo_tc) = Inr () \<and>
   acct_lamports (account_at (snd (system_entrypoint (demo_system_env (Transfer 30)) demo_tc)) 1) = 37"
proof (intro conjI)
  show "access demo_ic demo_tc (snd (system_entrypoint (demo_system_env (Transfer 30)) demo_tc))"
    by (rule system_entrypoint_access [OF demo_current demo_ic_small surjective_pairing])
qed (simp_all add: eval_simps run_simps)

text \<open>
  (C9) A transfer that succeeds was signed by its source, which carries no data and has the
  lamports; it moves exactly that many lamports from source to destination without wrapping, leaves
  the data, owner and executable flag of every account and every other balance alone, and keeps the
  total of all lamports.
\<close>

theorem transfer_moves_lamports:
  assumes "transfer env ic from_index to_index l s = (Inr x, t)"
  shows "is_instruction_account_signer ic from_index = Inr True \<and>
    (\<exists>i j. get_index_of_instruction_account_in_transaction ic from_index = Inr i \<and>
       get_index_of_instruction_account_in_transaction ic to_index = Inr j \<and>
       acct_data (account_at s i) = [] \<and> moves_lamports i j l s t)"
  using assms by (rule transfer_ok)

theorem transfer_moves_lamports_witness:
  "\<exists>t. transfer (demo_system_env (Transfer 30)) demo_ic 0 1 30 demo_tc = (Inr (), t) \<and>
     (\<exists>i j. moves_lamports i j 30 demo_tc t)"
proof -
  let ?r = "transfer (demo_system_env (Transfer 30)) demo_ic 0 1 30 demo_tc"
  have "fst ?r = Inr ()" by (simp add: eval_simps run_simps)
  then have "?r = (Inr (), snd ?r)" by (simp add: prod_eq_iff)
  with transfer_moves_lamports [OF this] show ?thesis by blast
qed

text \<open>A payer and a fresh account, both signing.\<close>

definition demo_create_ic :: instruction_context where
  "demo_create_ic =
     \<lparr>ic_nesting_level = 0, ic_instruction_accounts_lamport_sum = 100,
      ic_program_accounts = [2],
      ic_instruction_accounts =
        [\<lparr>ia_index_in_transaction = 0, ia_index_in_caller = 0, ia_index_in_callee = 0,
          ia_is_signer = True, ia_is_writable = True\<rparr>,
         \<lparr>ia_index_in_transaction = 1, ia_index_in_caller = 1, ia_index_in_callee = 1,
          ia_is_signer = True, ia_is_writable = True\<rparr>],
      ic_instruction_data = [0]\<rparr>"

definition demo_create_tc :: transaction_context where
  "demo_create_tc =
     (transaction_context_new
        [(demo_key 1, shared_create 100 [] system_program_id False 0),
         (demo_key 2, shared_create 0 [] system_program_id False 0),
         (system_program_id, shared_create 1 [] native_loader_id True 0)] rent_default 4 8)
     \<lparr>tc_instruction_stack := [0],
      tc_instruction_trace := [demo_create_ic, instruction_context_default]\<rparr>"

lemmas create_eval [eval_simps] = demo_create_ic_def demo_create_tc_def create_account_def
  allocate_and_assign_def allocate_def assign_def address_create_def address_is_signer_def
  key_of_instruction_account_def ba_set_data_length_def can_data_be_resized_def
  can_data_be_changed_def ba_set_owner_def update_accounts_resize_delta_def acct_resize_def
  vec_resize_def sat_i64_def

text \<open>
  (C10) A successful account creation found the new address unused (no lamports, no data, owned by
  the system program) and among the signers, and leaves it with exactly the requested lamports, the
  requested number of zero bytes and the requested owner, with the total of all lamports unchanged.
\<close>

theorem create_account_creates:
  assumes "system_process env ic signers (CreateAccount l space owner) s = (Inr x, t)"
  shows "\<exists>i j key. get_index_of_instruction_account_in_transaction ic 0 = Inr i \<and>
    get_index_of_instruction_account_in_transaction ic 1 = Inr j \<and>
    get_key_of_account_at_index s j = Inr key \<and> key \<in> signers \<and>
    acct_lamports (account_at s j) = 0 \<and> acct_data (account_at s j) = [] \<and>
    acct_owner (account_at s j) = system_program_id \<and> unat space \<le> MAX_PERMITTED_DATA_LENGTH \<and>
    acct_lamports (account_at t j) = l \<and> acct_data (account_at t j) = replicate (unat space) 0 \<and>
    acct_owner (account_at t j) = owner \<and> total_lamports t = total_lamports s"
proof -
  from assms obtain key where key: "key_of_instruction_account ic 1 s = Inr key"
    and run: "create_account env ic 0 1 \<lparr>addr_address = key, addr_base = None\<rparr> l space owner signers s = (Inr x, t)"
    by (auto simp: bind_def reads_def address_create_def split: sum.splits prod.splits)
  show ?thesis
  proof (rule create_account_ok [OF run])
    fix i j
    assume facts: "get_index_of_instruction_account_in_transaction ic 0 = Inr i"
      "get_index_of_instruction_account_in_transaction ic 1 = Inr j"
      "address_is_signer \<lparr>addr_address = key, addr_base = None\<rparr> signers"
      "acct_lamports (account_at s j) = 0" "acct_data (account_at s j) = []"
      "acct_owner (account_at s j) = system_program_id" "unat space \<le> MAX_PERMITTED_DATA_LENGTH"
      "acct_lamports (account_at t j) = l" "acct_data (account_at t j) = replicate (unat space) 0"
      "acct_owner (account_at t j) = owner" "total_lamports t = total_lamports s"
    with key have "get_key_of_account_at_index s j = Inr key" "key \<in> signers"
      by (auto simp: key_of_instruction_account_def address_is_signer_def)
    with facts show ?thesis by blast
  qed
qed

theorem create_account_creates_witness:
  "\<exists>t j. system_process (demo_system_env AdvanceNonceAccount) demo_create_ic {demo_key 1, demo_key 2}
       (CreateAccount 40 16 (demo_key 9)) demo_create_tc = (Inr (), t) \<and>
     acct_lamports (account_at t j) = 40 \<and> length (acct_data (account_at t j)) = 16"
proof -
  let ?r = "system_process (demo_system_env AdvanceNonceAccount) demo_create_ic {demo_key 1, demo_key 2}
       (CreateAccount 40 16 (demo_key 9)) demo_create_tc"
  have "fst ?r = Inr ()"
    by (simp add: eval_simps run_simps is_zeroed_iff)
  then have r: "?r = (Inr (), snd ?r)" by (simp add: prod_eq_iff)
  from create_account_creates [OF r] obtain j where "acct_lamports (account_at (snd ?r) j) = 40"
    "acct_data (account_at (snd ?r) j) = replicate (unat (16 :: u64)) 0" by metis
  with r show ?thesis by (intro exI [of _ "snd ?r"] exI [of _ j]) simp
qed

section \<open>Nonce accounts\<close>

text \<open>A codec for one-byte fees, on which the nonce properties are applied.\<close>

definition demo_nonce_encode :: "nonce_versions \<Rightarrow> bytes option" where
  "demo_nonce_encode v =
     (case v of
        Current (NonceInitialized d) \<Rightarrow>
          if length (pk_bytes (nd_authority d)) = 32 \<and> length (hash_bytes (nonce_blockhash d)) = 32
             \<and> unat (get_lamports_per_signature d) < 256
          then Some (1 # pk_bytes (nd_authority d) @ hash_bytes (nonce_blockhash d)
                 @ [ucast (get_lamports_per_signature d)])
          else None
      | Current NonceUninitialized \<Rightarrow> Some [0]
      | Legacy _ \<Rightarrow> None)"

definition demo_nonce_decode :: "bytes \<Rightarrow> nonce_versions option" where
  "demo_nonce_decode b =
     (case b of
        [] \<Rightarrow> None
      | tag # rest \<Rightarrow>
          if tag = 0 then Some (Current NonceUninitialized)
          else if length rest < 65 then None
          else Some (Current (NonceInitialized (nonce_data_new (Pubkey (take 32 rest))
                 (DurableNonce (Hash (take 32 (drop 32 rest)))) (ucast (rest ! 64))))))"

lemma demo_nonce_codec_ok:
  "codec_round_trip \<lparr>c_encode = demo_nonce_encode, c_decode = demo_nonce_decode\<rparr>"
proof -
  have fee: "ucast (ucast w :: u8) = w" if "unat w < 256" for w :: u64
    using that by (simp add: word_unat_eq_iff unsigned_ucast_eq unsigned_take_bit_eq take_bit_nat_eq_self)
  have "demo_nonce_decode (b @ rest) = Some v" if "demo_nonce_encode v = Some b" for v b rest
  proof -
    from that consider "v = Current NonceUninitialized" "b = [0]"
      | d where "v = Current (NonceInitialized d)" "length (pk_bytes (nd_authority d)) = 32"
        "length (hash_bytes (nonce_blockhash d)) = 32" "unat (get_lamports_per_signature d) < 256"
        "b = 1 # pk_bytes (nd_authority d) @ hash_bytes (nonce_blockhash d)
           @ [ucast (get_lamports_per_signature d)]"
      by (auto simp: demo_nonce_encode_def split: nonce_versions.splits nonce_state.splits if_splits)
    then show ?thesis
    proof cases
      case (2 d)
      then show ?thesis
        by (auto simp: demo_nonce_decode_def nonce_data_new_def get_lamports_per_signature_def
            nth_append fee split: durable_nonce.splits)
    qed (simp add: demo_nonce_decode_def)
  qed
  then show ?thesis by (simp add: codec_round_trip_def)
qed

lemma set_state_decodes:
  assumes "codec_round_trip c" and "ba_set_state c b st s = (Inr u, t)"
    and "ba_index_in_transaction b < length (ta_accounts (tc_accounts s))"
  shows "c_decode c (acct_data (account_at t (ba_index_in_transaction b))) = Some st"
  using set_state_get_state [OF assms] by (simp add: ba_get_state_def ok_or_Inr ba_get_data_def ba_account_def)

text \<open>
  (C11) A successful advance of a nonce account was authorised by the stored authority and stores the
  nonce of the current blockhash; that nonce is new, so the nonce the transaction used no longer
  verifies.
\<close>

theorem advance_nonce_replaces:
  assumes c: "codec_round_trip (se_nonce_codec env)"
    and run: "system_process env ic signers AdvanceNonceAccount s = (Inr x, t)"
  shows "\<exists>i v d v'. get_index_of_instruction_account_in_transaction ic 0 = Inr i \<and>
    c_decode (se_nonce_codec env) (acct_data (account_at s i)) = Some v \<and>
    versions_state v = NonceInitialized d \<and> nd_authority d \<in> signers \<and>
    c_decode (se_nonce_codec env) (acct_data (account_at t i)) = Some v' \<and>
    v' = Current (NonceInitialized (nonce_data_new (nd_authority d) (next_durable_nonce env)
      (se_lamports_per_signature env))) \<and>
    verify_recent_blockhash v' (nonce_blockhash d) = None"
proof -
  from run obtain y where scope: "with_instruction_account ic 0 (\<lambda>me.
       bind (sysvar_recent_blockhashes env ic 1) (\<lambda>recent_blockhashes.
       bind (require (recent_blockhashes \<noteq> []) (of_system_error SE_NonceNoRecentBlockhashes)) (\<lambda>_.
       advance_nonce_account env me signers))) s = (Inr y, t)"
    by (auto simp: bind_def reads_def split: sum.splits prod.splits)
  obtain i b u where i: "get_index_of_instruction_account_in_transaction ic 0 = Inr i"
      "i < length (ta_accounts (tc_accounts s))"
    and b: "ba_instruction_context b = ic" "ba_index_in_transaction b = i"
    and body: "bind (sysvar_recent_blockhashes env ic 1) (\<lambda>recent_blockhashes.
       bind (require (recent_blockhashes \<noteq> []) (of_system_error SE_NonceNoRecentBlockhashes)) (\<lambda>_.
       advance_nonce_account env b signers)) (set_flag i Writing s) = (Inr y, u)"
    and t: "t = set_flag i Unused u"
    by (rule with_instruction_account_ok [OF scope])
  let ?s = "set_flag i Writing s"
  from body have adv: "advance_nonce_account env b signers ?s = (Inr y, u)"
    by (auto simp: bind_def reads_def require_def sysvar_recent_blockhashes_def
        split: sum.splits prod.splits if_splits)
  let ?new = "nonce_data_new"
  from adv b obtain v d where v: "c_decode (se_nonce_codec env) (acct_data (account_at s i)) = Some v"
      "versions_state v = NonceInitialized d" "nd_authority d \<in> signers"
      "nd_durable_nonce d \<noteq> next_durable_nonce env"
    and set: "ba_set_state (se_nonce_codec env) b (versions_new (NonceInitialized
        (nonce_data_new (nd_authority d) (next_durable_nonce env) (se_lamports_per_signature env)))) ?s = (Inr y, u)"
    by (auto simp: advance_nonce_account_def bind_def reads_def require_def throw_def ba_get_state_def
        ba_get_data_def ba_account_def ok_or_def
        split: sum.splits prod.splits if_splits option.splits nonce_state.splits)
  have "c_decode (se_nonce_codec env) (acct_data (account_at t i)) = Some (versions_new (NonceInitialized
        (nonce_data_new (nd_authority d) (next_durable_nonce env) (se_lamports_per_signature env))))"
    using set_state_decodes [OF c set] i(2) b by (simp add: t)
  moreover have "verify_recent_blockhash (versions_new (NonceInitialized
        (nonce_data_new (nd_authority d) (next_durable_nonce env) (se_lamports_per_signature env))))
        (nonce_blockhash d) = None"
    using v(4) by (cases "nd_durable_nonce d")
      (auto simp: versions_new_def nonce_data_new_def split: durable_nonce.splits)
  ultimately show ?thesis
    using i(1) v(1-3) by (auto simp: versions_new_def)
qed

definition demo_nonce_env :: system_env where
  "demo_nonce_env =
     \<lparr>se_sha256 = take 32, se_nonce_codec = \<lparr>c_encode = demo_nonce_encode, c_decode = demo_nonce_decode\<rparr>,
      se_decode = (\<lambda>_. Some AdvanceNonceAccount),
      se_sysvar_cache = sysvar_cache_default\<lparr>sc_recent_blockhashes :=
        Some [recent_blockhashes_entry_new hash_default 5]\<rparr>,
      se_blockhash = Hash (replicate 32 7), se_lamports_per_signature = 5, se_logging = False\<rparr>"

definition demo_nonce_ic :: instruction_context where
  "demo_nonce_ic =
     \<lparr>ic_nesting_level = 0, ic_instruction_accounts_lamport_sum = 10,
      ic_program_accounts = [2],
      ic_instruction_accounts =
        [\<lparr>ia_index_in_transaction = 0, ia_index_in_caller = 0, ia_index_in_callee = 0,
          ia_is_signer = False, ia_is_writable = True\<rparr>,
         \<lparr>ia_index_in_transaction = 1, ia_index_in_caller = 1, ia_index_in_callee = 1,
          ia_is_signer = False, ia_is_writable = False\<rparr>],
      ic_instruction_data = [4]\<rparr>"

definition demo_nonce_tc :: transaction_context where
  "demo_nonce_tc =
     (transaction_context_new
        [(demo_key 1, shared_create 10 (1 # pk_bytes (demo_key 5) @ replicate 33 0) system_program_id False 0),
         (recent_blockhashes_sysvar_id, shared_create 0 [] sysvar_owner_id False 0),
         (system_program_id, shared_create 1 [] native_loader_id True 0)] rent_default 4 8)
     \<lparr>tc_instruction_stack := [0],
      tc_instruction_trace := [demo_nonce_ic, instruction_context_default]\<rparr>"

lemmas nonce_eval [eval_simps] = demo_nonce_env_def demo_nonce_ic_def demo_nonce_tc_def
  advance_nonce_account_def sysvar_recent_blockhashes_def check_sysvar_account_def
  get_recent_blockhashes_def sysvar_cache_default_def recent_blockhashes_entry_new_def
  ba_get_state_def demo_nonce_decode_def demo_nonce_encode_def nonce_data_new_def
  get_lamports_per_signature_def versions_new_def ba_set_state_def ba_with_data_mut_def
  durable_nonce_from_blockhash_def hashv_def DURABLE_NONCE_HASH_PREFIX_def overwrite_prefix_def

lemma replicate_eq_Cons: "replicate n y = x # xs \<longleftrightarrow> x = y \<and> 0 < n \<and> xs = replicate (n - 1) x"
  by (metis Cons_replicate_eq)

theorem advance_nonce_replaces_witness:
  "\<exists>t i v'. system_process demo_nonce_env demo_nonce_ic {demo_key 5} AdvanceNonceAccount demo_nonce_tc
       = (Inr (), t) \<and>
     demo_nonce_decode (acct_data (account_at t i)) = Some v' \<and>
     verify_recent_blockhash v' (Hash (replicate 32 0)) = None"
proof -
  let ?r = "system_process demo_nonce_env demo_nonce_ic {demo_key 5} AdvanceNonceAccount demo_nonce_tc"
  have "fst ?r = Inr ()"
    by (simp add: eval_simps run_simps replicate_eq_Cons)
  then have r: "?r = (Inr (), snd ?r)" by (simp add: prod_eq_iff)
  have c: "codec_round_trip (se_nonce_codec demo_nonce_env)"
    by (simp add: demo_nonce_env_def demo_nonce_codec_ok)
  have dec: "c_decode (se_nonce_codec demo_nonce_env) = demo_nonce_decode"
    by (simp add: demo_nonce_env_def)
  from advance_nonce_replaces [OF c r, unfolded dec] obtain i v d v'
    where "get_index_of_instruction_account_in_transaction demo_nonce_ic 0 = Inr i"
      "demo_nonce_decode (acct_data (account_at demo_nonce_tc i)) = Some v"
      "versions_state v = NonceInitialized d"
      and new: "demo_nonce_decode (acct_data (account_at (snd ?r) i)) = Some v'"
      "verify_recent_blockhash v' (nonce_blockhash d) = None"
    by blast
  then have "nonce_blockhash d = Hash (replicate 32 0)"
    by (auto simp: eval_simps)
  with new r show ?thesis by metis
qed

end
