(* ===== verification/Epoch_Schedule.thy ===== *)
theory Epoch_Schedule
  imports Sysvars
begin

text \<open>
  The epoch schedule (\<^verbatim>\<open>sdk/program/src/epoch_schedule.rs\<close>): epochs start with 32 slots and double
  during the warm-up until they have their full length.  The operations are the source's word
  computations with their saturating arithmetic; the lemmas give their values as natural numbers
  and show that a schedule cuts the slots into consecutive epochs.
\<close>

section \<open>Powers of two\<close>

text \<open>
  \<^verbatim>\<open>u64::next_power_of_two\<close> (which wraps to zero in a release build), \<^verbatim>\<open>u64::trailing_zeros\<close> and
  \<^verbatim>\<open>u64::saturating_pow\<close> of the standard library.
\<close>

definition next_power_of_two :: "u64 \<Rightarrow> u64" where
  "next_power_of_two w = (if w \<le> 1 then 1 else 2 ^ bit_length (unat (w - 1)))"

definition trailing_zeros :: "u64 \<Rightarrow> u32" where
  "trailing_zeros w = of_nat (length (takeWhile (\<lambda>i. \<not> bit w i) [0..<64]))"

definition saturating_pow :: "u64 \<Rightarrow> u32 \<Rightarrow> u64" where
  "saturating_pow b n = (if unat b ^ unat n < 2 ^ 64 then b ^ unat n else - 1)"

lemma bit_length_bounds:
  assumes "0 < n"
  shows "2 ^ (bit_length n - 1) \<le> n \<and> n < 2 ^ bit_length n"
  using assms
proof (induction n rule: bit_length.induct)
  case (1 n)
  show ?case
  proof (cases "n = 1")
    case True
    then show ?thesis by (simp add: bit_length.simps)
  next
    case False
    with 1 have IH: "2 ^ (bit_length (n div 2) - 1) \<le> n div 2" "n div 2 < 2 ^ bit_length (n div 2)"
      by auto
    have pos: "0 < bit_length (n div 2)"
      using False 1(2) by (simp add: bit_length.simps [of "n div 2"])
    have "(2::nat) ^ bit_length (n div 2) = 2 * 2 ^ (bit_length (n div 2) - 1)"
      using pos by (cases "bit_length (n div 2)") auto
    with IH have "2 ^ bit_length (n div 2) \<le> n" "n < 2 * 2 ^ bit_length (n div 2)"
      by linarith+
    with 1(2) show ?thesis by (simp add: bit_length.simps [of n])
  qed
qed

lemma unat_two_power: "k < 64 \<Longrightarrow> unat ((2 :: u64) ^ k) = 2 ^ k"
proof -
  assume k: "k < 64"
  have "unat ((2 :: u64) ^ k) = unat (of_nat (2 ^ k) :: u64)" by simp
  also have "\<dots> = 2 ^ k" using k by (simp only: unsigned_of_nat) (simp add: take_bit_nat_eq_self)
  finally show ?thesis .
qed

lemma unat_saturating_pow_two:
  "unat n < 64 \<Longrightarrow> unat (saturating_pow 2 n) = 2 ^ unat n"
  using power_strict_increasing [of "unat n" 64 "2 :: nat"]
  by (simp add: saturating_pow_def unat_two_power)

lemma trailing_zeros_two_power:
  assumes "k < 64"
  shows "unat (trailing_zeros (2 ^ k)) = k"
proof -
  have e: "[0..<64] = [0..<k] @ k # [Suc k..<64]"
    using assms upt_add_eq_append [of 0 k "64 - k"] by (simp add: upt_conv_Cons)
  have "takeWhile (\<lambda>i. \<not> bit ((2 :: u64) ^ k) i) [0..<64] = [0..<k]"
    unfolding e using assms by (subst takeWhile_append2) (auto simp: bit_exp_iff)
  with assms show ?thesis
    by (simp add: trailing_zeros_def unat_of_nat)
qed

lemma trailing_zeros_32 [simp]: "trailing_zeros 32 = 5"
proof -
  have "unat (trailing_zeros (2 ^ 5)) = unat (5 :: u32)"
    by (subst trailing_zeros_two_power) simp_all
  then show ?thesis by (simp only: word_unat_eq_iff) simp
qed

text \<open>The smallest power of two above an argument that is not too large.\<close>

lemma next_power_of_two_bounds:
  assumes "1 < unat w" and "unat w \<le> 2 ^ 63"
  obtains k where "next_power_of_two w = 2 ^ k" and "k < 64"
    and "unat w \<le> 2 ^ k" and "2 ^ k < 2 * unat w"
proof -
  let ?n = "unat w - 1"
  let ?k = "bit_length ?n"
  have w: "\<not> w \<le> 1" using assms(1) by (simp add: word_le_nat_alt)
  have n: "unat (w - 1) = ?n" using assms(1) by (simp add: unat_sub word_le_nat_alt)
  have b: "2 ^ (?k - 1) \<le> ?n" "?n < 2 ^ ?k"
    using bit_length_bounds [of ?n] assms(1) by simp_all
  have "?n < 2 ^ 63" using assms by linarith
  then have k: "?k \<le> 63" by (rule bit_length_le)
  have "?k \<noteq> 0" using b(2) assms(1) by (intro notI) simp
  then have "(2 :: nat) ^ ?k = 2 * 2 ^ (?k - 1)" by (cases ?k) auto
  with b assms(1) have "2 ^ ?k < 2 * unat w" by linarith
  with b k w n show thesis
    by (intro that [of ?k]) (auto simp: next_power_of_two_def)
qed

section \<open>The schedule\<close>

abbreviation MINIMUM_SLOTS_PER_EPOCH :: u64 where "MINIMUM_SLOTS_PER_EPOCH \<equiv> 32"
abbreviation DEFAULT_SLOTS_PER_EPOCH :: u64 where "DEFAULT_SLOTS_PER_EPOCH \<equiv> 432000"
abbreviation DEFAULT_LEADER_SCHEDULE_SLOT_OFFSET :: u64 where
  "DEFAULT_LEADER_SCHEDULE_SLOT_OFFSET \<equiv> DEFAULT_SLOTS_PER_EPOCH"

text \<open>\<^verbatim>\<open>EpochSchedule::custom\<close>; \<^term>\<open>None\<close> is the failed assertion.\<close>

definition es_custom :: "u64 \<Rightarrow> u64 \<Rightarrow> bool \<Rightarrow> epoch_schedule option" where
  "es_custom slots offset warmup =
     (if MINIMUM_SLOTS_PER_EPOCH \<le> slots then
        let normal =
          (if warmup then
             let npot = next_power_of_two slots in
             (ucast (saturating_sub (trailing_zeros npot) (trailing_zeros MINIMUM_SLOTS_PER_EPOCH)),
              saturating_sub npot MINIMUM_SLOTS_PER_EPOCH)
           else (0, 0))
        in Some \<lparr>es_slots_per_epoch = slots, es_leader_schedule_slot_offset = offset,
                 es_warmup = warmup, es_first_normal_epoch = fst normal,
                 es_first_normal_slot = snd normal\<rparr>
      else None)"

definition es_default :: "epoch_schedule option" where
  "es_default = es_custom DEFAULT_SLOTS_PER_EPOCH DEFAULT_LEADER_SCHEDULE_SLOT_OFFSET True"

definition es_new :: "u64 \<Rightarrow> epoch_schedule option" where
  "es_new slots = es_custom slots slots True"

definition es_without_warmup :: "epoch_schedule option" where
  "es_without_warmup = es_custom DEFAULT_SLOTS_PER_EPOCH DEFAULT_LEADER_SCHEDULE_SLOT_OFFSET False"

definition get_slots_in_epoch :: "epoch_schedule \<Rightarrow> u64 \<Rightarrow> u64" where
  "get_slots_in_epoch es epoch =
     (if epoch < es_first_normal_epoch es
      then saturating_pow 2 (saturating_add (ucast epoch) (trailing_zeros MINIMUM_SLOTS_PER_EPOCH))
      else es_slots_per_epoch es)"

text \<open>\<open>checked_div\<close> and \<open>checked_rem\<close> with their \<^verbatim>\<open>unwrap_or(0)\<close>.\<close>

definition div_or_zero :: "u64 \<Rightarrow> u64 \<Rightarrow> u64" where
  "div_or_zero a b = (if b = 0 then 0 else a div b)"

definition rem_or_zero :: "u64 \<Rightarrow> u64 \<Rightarrow> u64" where
  "rem_or_zero a b = (if b = 0 then 0 else a mod b)"

definition get_epoch_and_slot_index :: "epoch_schedule \<Rightarrow> u64 \<Rightarrow> u64 \<times> u64" where
  "get_epoch_and_slot_index es slot =
     (if slot < es_first_normal_slot es then
        let epoch =
              saturating_sub
                (saturating_sub
                  (trailing_zeros
                    (next_power_of_two (saturating_add (saturating_add slot MINIMUM_SLOTS_PER_EPOCH) 1)))
                  (trailing_zeros MINIMUM_SLOTS_PER_EPOCH)) 1;
            epoch_len =
              saturating_pow 2 (saturating_add epoch (trailing_zeros MINIMUM_SLOTS_PER_EPOCH))
        in (ucast epoch, saturating_sub slot (saturating_sub epoch_len MINIMUM_SLOTS_PER_EPOCH))
      else
        let normal_slot_index = saturating_sub slot (es_first_normal_slot es);
            normal_epoch_index = div_or_zero normal_slot_index (es_slots_per_epoch es)
        in (saturating_add (es_first_normal_epoch es) normal_epoch_index,
            rem_or_zero normal_slot_index (es_slots_per_epoch es)))"

definition get_epoch :: "epoch_schedule \<Rightarrow> u64 \<Rightarrow> u64" where
  "get_epoch es slot = fst (get_epoch_and_slot_index es slot)"

definition get_leader_schedule_epoch :: "epoch_schedule \<Rightarrow> u64 \<Rightarrow> u64" where
  "get_leader_schedule_epoch es slot =
     (if slot < es_first_normal_slot es
      then saturating_add (fst (get_epoch_and_slot_index es slot)) 1
      else
        let new_slots = saturating_sub slot (es_first_normal_slot es);
            new_first = saturating_add new_slots (es_leader_schedule_slot_offset es)
        in saturating_add (es_first_normal_epoch es) (div_or_zero new_first (es_slots_per_epoch es)))"

definition get_first_slot_in_epoch :: "epoch_schedule \<Rightarrow> u64 \<Rightarrow> u64" where
  "get_first_slot_in_epoch es epoch =
     (if epoch \<le> es_first_normal_epoch es
      then saturating_mul (saturating_sub (saturating_pow 2 (ucast epoch)) 1) MINIMUM_SLOTS_PER_EPOCH
      else saturating_add
             (saturating_mul (saturating_sub epoch (es_first_normal_epoch es)) (es_slots_per_epoch es))
             (es_first_normal_slot es))"

definition get_last_slot_in_epoch :: "epoch_schedule \<Rightarrow> u64 \<Rightarrow> u64" where
  "get_last_slot_in_epoch es epoch =
     saturating_sub (saturating_add (get_first_slot_in_epoch es epoch) (get_slots_in_epoch es epoch)) 1"

section \<open>Values of the operations\<close>

lemma es_custom_shape:
  assumes "es_custom slots offset warmup = Some es" and "unat slots \<le> 2 ^ 63"
  obtains k where "5 \<le> k" and "k < 64" and "unat (es_first_normal_epoch es) = k - 5"
    and "unat (es_first_normal_slot es) = 2 ^ k - 32" and "32 \<le> unat (es_slots_per_epoch es)"
proof (cases warmup)
  case False
  with assms show thesis
    by (intro that [of 5]) (auto simp: es_custom_def word_le_nat_alt split: if_splits)
next
  case True
  have slots: "32 \<le> unat slots"
    using assms(1) by (auto simp: es_custom_def word_le_nat_alt split: if_splits)
  then obtain k where k: "next_power_of_two slots = 2 ^ k" "k < 64" "unat slots \<le> 2 ^ k"
    using assms(2) by (metis next_power_of_two_bounds less_le_trans numeral_less_iff one_less_numeral_iff semiring_norm(76))
  have five: "5 \<le> k"
  proof (rule ccontr)
    assume "\<not> 5 \<le> k"
    then have "(2 :: nat) ^ k \<le> 2 ^ 4" by (intro power_increasing) auto
    with slots k(3) show False by simp
  qed
  have "unat (saturating_sub (trailing_zeros (2 ^ k)) 5) = k - 5"
    using k(2) by (simp add: unat_saturating_sub trailing_zeros_two_power)
  moreover have "unat (saturating_sub (2 ^ k :: u64) 32) = 2 ^ k - 32"
    using k(2) by (simp add: unat_saturating_sub unat_two_power)
  ultimately show thesis
    using assms(1) True k(1,2) five slots
    by (intro that [of k]) (auto simp: es_custom_def Let_def unat_ucast_upward split: if_splits)
qed

lemma unat_saturating_mul_exact:
  "unat a * unat b < 2 ^ LENGTH('a::len) \<Longrightarrow> unat (saturating_mul (a :: 'a word) b) = unat a * unat b"
  by (simp add: saturating_mul_def unat_word_ariths)

lemma unat_saturating_add_exact:
  "unat a + unat b < 2 ^ LENGTH('a::len) \<Longrightarrow> unat (saturating_add (a :: 'a word) b) = unat a + unat b"
  by (simp add: saturating_add_def unat_word_ariths)

lemma unat_ucast_u32: "unat (w :: u64) < 2 ^ 32 \<Longrightarrow> unat (ucast w :: u32) = unat w"
  by (simp add: unsigned_ucast_eq take_bit_nat_eq_self)

text \<open>Lengths and first slots of the warm-up epochs, and of the epochs after them.\<close>

lemma slots_in_warmup_epoch:
  assumes "unat (es_first_normal_epoch es) = k - 5" and "k < 64" and "unat epoch < k - 5"
  shows "unat (get_slots_in_epoch es epoch) = 2 ^ (unat epoch + 5)"
proof -
  have "unat (saturating_add (ucast epoch :: u32) 5) = unat epoch + 5"
    using assms by (subst unat_saturating_add_exact) (simp_all add: unat_ucast_u32)
  with assms show ?thesis
    by (simp add: get_slots_in_epoch_def word_less_nat_alt unat_saturating_pow_two)
qed

lemma first_slot_of_warmup_epoch:
  assumes "unat (es_first_normal_epoch es) = k - 5" and "5 \<le> k" and "k < 64" and "unat epoch \<le> k - 5"
  shows "unat (get_first_slot_in_epoch es epoch) = 2 ^ (unat epoch + 5) - 32"
proof -
  have p: "unat (saturating_pow 2 (ucast epoch)) = 2 ^ unat epoch"
    using assms by (subst unat_saturating_pow_two) (simp_all add: unat_ucast_u32)
  have e: "((2 :: nat) ^ unat epoch - 1) * 32 = 2 ^ (unat epoch + 5) - 32"
    by (simp add: power_add diff_mult_distrib)
  have "(2 :: nat) ^ (unat epoch + 5) \<le> 2 ^ 63"
    using assms by (intro power_increasing) auto
  with p e assms show ?thesis
    by (simp add: get_first_slot_in_epoch_def word_le_nat_alt unat_saturating_sub unat_saturating_mul_exact)
qed

lemma first_slot_of_normal_epoch:
  assumes "unat (es_first_normal_epoch es) = k - 5" and "5 \<le> k" and "k < 64"
    and "unat (es_first_normal_slot es) = 2 ^ k - 32"
    and "unat epoch = k - 5 + n" and "n * unat (es_slots_per_epoch es) + (2 ^ k - 32) < 2 ^ 64"
  shows "unat (get_first_slot_in_epoch es epoch) = n * unat (es_slots_per_epoch es) + (2 ^ k - 32)"
proof (cases "n = 0")
  case True
  with assms show ?thesis by (simp add: first_slot_of_warmup_epoch)
next
  case False
  then have "\<not> epoch \<le> es_first_normal_epoch es"
    using assms by (simp add: word_le_nat_alt)
  moreover have "unat (saturating_sub epoch (es_first_normal_epoch es)) = n"
    using assms by (simp add: unat_saturating_sub)
  ultimately show ?thesis
    using assms
    by (simp add: get_first_slot_in_epoch_def unat_saturating_add_exact unat_saturating_mul_exact)
qed

section \<open>Slots and epochs\<close>

text \<open>The epoch of a warm-up slot is the binary logarithm of the slot counted from 32.\<close>

lemma warmup_epoch_of_slot:
  assumes "unat (es_first_normal_slot es) = 2 ^ k - 32" and "k < 64" and "slot < es_first_normal_slot es"
  obtains j where "j + 5 < k" and "2 ^ (j + 5) \<le> unat slot + 32" and "unat slot + 32 < 2 ^ (j + 6)"
    and "unat (fst (get_epoch_and_slot_index es slot)) = j"
    and "unat (snd (get_epoch_and_slot_index es slot)) = unat slot + 32 - 2 ^ (j + 5)"
proof -
  let ?w = "saturating_add (saturating_add slot 32) 1"
  have top: "(2 :: nat) ^ k \<le> 2 ^ 63" using assms(2) by (intro power_increasing) auto
  have lt: "unat slot + 32 < 2 ^ k" using assms by (simp add: word_less_nat_alt)
  have w: "unat ?w = unat slot + 33"
    using lt top by (simp add: unat_saturating_add)
  obtain m where m: "next_power_of_two ?w = 2 ^ m" "m < 64" "unat slot + 33 \<le> 2 ^ m"
      "2 ^ m < 2 * (unat slot + 33)"
    using lt top by (rule_tac next_power_of_two_bounds [of ?w]) (simp_all add: w)
  have "5 < m"
  proof (rule ccontr)
    assume "\<not> 5 < m"
    then have "(2 :: nat) ^ m \<le> 2 ^ 5" by (intro power_increasing) auto
    with m(3) show False by simp
  qed
  then have "6 \<le> m" by simp
  then obtain j where "m = 6 + j" by (auto dest: le_Suc_ex)
  then have j: "m = j + 6" by simp
  have half: "(2 :: nat) ^ (j + 6) = 2 * 2 ^ (j + 5)" by (simp add: power_add)
  have thirty_two: "(32 :: nat) \<le> 2 ^ (j + 5)" by (simp add: power_add)
  from half m(4) j have low: "2 ^ (j + 5) \<le> unat slot + 32" by simp
  with lt have "(2 :: nat) ^ (j + 5) < 2 ^ k" by linarith
  then have jk: "j + 5 < k" by (simp only: power_strict_increasing_iff)
  let ?e = "saturating_sub (saturating_sub (trailing_zeros (next_power_of_two ?w)) 5) 1"
  have e: "unat ?e = j"
    using m(2) by (simp add: m(1) j unat_saturating_sub trailing_zeros_two_power)
  have len: "unat (saturating_pow 2 (saturating_add ?e 5)) = 2 ^ (j + 5)"
    using e jk assms(2) by (subst unat_saturating_pow_two) (simp_all add: unat_saturating_add_exact)
  have "unat (snd (get_epoch_and_slot_index es slot)) = unat slot + 32 - 2 ^ (j + 5)"
    using assms(3) len thirty_two
    by (simp add: get_epoch_and_slot_index_def Let_def unat_saturating_sub)
  moreover have "unat (fst (get_epoch_and_slot_index es slot)) = j"
    using assms(3) e by (simp add: get_epoch_and_slot_index_def Let_def unat_ucast_upward)
  ultimately show thesis
    using jk low m(3) j by (intro that [of j]) simp_all
qed

lemma normal_epoch_of_slot:
  assumes "unat (es_first_normal_epoch es) = k - 5" and "k < 64" and "32 \<le> unat (es_slots_per_epoch es)"
    and "\<not> slot < es_first_normal_slot es"
  shows "unat (fst (get_epoch_and_slot_index es slot)) =
      k - 5 + (unat slot - unat (es_first_normal_slot es)) div unat (es_slots_per_epoch es)"
    and "unat (snd (get_epoch_and_slot_index es slot)) =
      (unat slot - unat (es_first_normal_slot es)) mod unat (es_slots_per_epoch es)"
proof -
  let ?d = "unat slot - unat (es_first_normal_slot es)"
  have "?d div unat (es_slots_per_epoch es) \<le> ?d div 32"
    using assms(3) by (intro div_le_mono2) simp_all
  moreover have "?d div 32 < 2 ^ 59"
    using unat_u64_less [of slot] by (intro less_mult_imp_div_less) simp
  ultimately have "?d div unat (es_slots_per_epoch es) < 2 ^ 59" by linarith
  then have "k - 5 + ?d div unat (es_slots_per_epoch es) < 2 ^ 64"
    using assms(2) by simp
  moreover have "es_slots_per_epoch es \<noteq> 0" using assms(3) by auto
  ultimately show "unat (fst (get_epoch_and_slot_index es slot)) =
      k - 5 + ?d div unat (es_slots_per_epoch es)"
    and "unat (snd (get_epoch_and_slot_index es slot)) = ?d mod unat (es_slots_per_epoch es)"
    using assms
    by (simp_all add: get_epoch_and_slot_index_def Let_def div_or_zero_def rem_or_zero_def
        unat_saturating_add_exact unat_saturating_sub unat_div unat_mod)
qed

text \<open>
  (C36) Epoch lookup: in every schedule that \<^verbatim>\<open>EpochSchedule::custom\<close> builds with at most
  \<^verbatim>\<open>2^63\<close> slots per epoch, the epoch and the index computed for a slot locate it: the index
  is below the length of the epoch, and it is the distance of the slot from the epoch's first slot.
\<close>

theorem epoch_index_locates:
  assumes "es_custom slots offset warmup = Some es" and "unat slots \<le> 2 ^ 63"
    and "get_epoch_and_slot_index es slot = (epoch, index)"
  shows "index < get_slots_in_epoch es epoch \<and>
    unat (get_first_slot_in_epoch es epoch) + unat index = unat slot"
proof -
  obtain k where k: "5 \<le> k" "k < 64" "unat (es_first_normal_epoch es) = k - 5"
      "unat (es_first_normal_slot es) = 2 ^ k - 32" "32 \<le> unat (es_slots_per_epoch es)"
    using es_custom_shape [OF assms(1,2)] by blast
  show ?thesis
  proof (cases "slot < es_first_normal_slot es")
    case True
    obtain j where "j + 5 < k" "2 ^ (j + 5) \<le> unat slot + 32" "unat slot + 32 < 2 ^ (j + 6)"
        "unat epoch = j" "unat index = unat slot + 32 - 2 ^ (j + 5)"
      using warmup_epoch_of_slot [OF k(4,2) True] unfolding assms(3) fst_conv snd_conv .
    moreover have "(32 :: nat) \<le> 2 ^ (j + 5)" "(2 :: nat) ^ (j + 6) = 2 * 2 ^ (j + 5)"
      by (simp_all add: power_add)
    ultimately show ?thesis
      using slots_in_warmup_epoch [OF k(3,2), of epoch] first_slot_of_warmup_epoch [OF k(3,1,2), of epoch]
      by (auto simp: word_less_nat_alt)
  next
    case False
    let ?s = "unat (es_slots_per_epoch es)"
    let ?d = "unat slot - (2 ^ k - 32)"
    have v: "unat epoch = k - 5 + ?d div ?s" "unat index = ?d mod ?s"
      using normal_epoch_of_slot [OF k(3,2,5) False] assms(3) k(4) by simp_all
    have le: "2 ^ k - 32 \<le> unat slot" using False k(4) by (simp add: word_less_nat_alt not_less)
    have d: "?d div ?s * ?s + ?d mod ?s = ?d" by simp
    with le have "?d div ?s * ?s + (2 ^ k - 32) \<le> unat slot" by linarith
    then have "unat (get_first_slot_in_epoch es epoch) = ?d div ?s * ?s + (2 ^ k - 32)"
      using v(1) unat_u64_less [of slot] by (intro first_slot_of_normal_epoch [OF k(3,1,2,4)]) auto
    moreover have "\<not> epoch < es_first_normal_epoch es" using v(1) k(3) by (simp add: word_less_nat_alt)
    ultimately show ?thesis
      using v(2) d le k(5) by (auto simp: get_slots_in_epoch_def word_less_nat_alt)
  qed
qed

theorem epoch_index_locates_witness:
  "\<exists>es. es_custom 432000 432000 True = Some es \<and>
     unat (get_first_slot_in_epoch es (get_epoch es 1000)) +
       unat (snd (get_epoch_and_slot_index es 1000)) = 1000"
proof -
  obtain es where es: "es_custom 432000 432000 True = Some es" by (simp add: es_custom_def Let_def)
  from epoch_index_locates [OF es, of 1000 "get_epoch es 1000" "snd (get_epoch_and_slot_index es 1000)"] es
  show ?thesis by (simp add: get_epoch_def)
qed

lemma unat_saturating_mul:
  "unat (saturating_mul (a :: 'a::len word) b) = min (2 ^ LENGTH('a) - 1) (unat a * unat b)"
  by (auto simp: saturating_mul_def unat_word_ariths unsigned_minus_1_eq_mask mask_eq_exp_minus_1)

lemma unat_Suc_u64: "unat (e :: u64) + 1 < 2 ^ 64 \<Longrightarrow> unat (e + 1) = unat e + 1"
  by (simp add: unat_word_ariths)

text \<open>An epoch that does not reach the end of the slot numbers has an unsaturated first slot.\<close>

lemma normal_epoch_fits:
  assumes "unat (es_first_normal_epoch es) = k - 5" and "5 \<le> k" and "k < 64"
    and "unat (es_first_normal_slot es) = 2 ^ k - 32" and "32 \<le> unat (es_slots_per_epoch es)"
    and "es_first_normal_epoch es \<le> epoch"
    and "unat (get_first_slot_in_epoch es epoch) + unat (es_slots_per_epoch es) < 2 ^ 64"
  shows "(unat epoch - (k - 5) + 1) * unat (es_slots_per_epoch es) + (2 ^ k - 32) < 2 ^ 64"
    and "unat (get_first_slot_in_epoch es epoch) =
      (unat epoch - (k - 5)) * unat (es_slots_per_epoch es) + (2 ^ k - 32)"
proof -
  let ?n = "unat epoch - (k - 5)" and ?s = "unat (es_slots_per_epoch es)"
  have e: "unat epoch = k - 5 + ?n" using assms(1,6) by (simp add: word_le_nat_alt)
  have "(2 :: nat) ^ k \<le> 2 ^ 63" using assms(3) by (intro power_increasing) auto
  have fits: "?n * ?s + (2 ^ k - 32) < 2 ^ 64"
  proof (cases "epoch \<le> es_first_normal_epoch es")
    case True
    then have "?n = 0" using assms(1) by (simp add: word_le_nat_alt)
    with \<open>2 ^ k \<le> 2 ^ 63\<close> show ?thesis by simp
  next
    case False
    then have "unat (get_first_slot_in_epoch es epoch) =
        min (2 ^ 64 - 1) (min (2 ^ 64 - 1) (?n * ?s) + (2 ^ k - 32))"
      using assms(1,4)
      by (simp add: get_first_slot_in_epoch_def unat_saturating_add unat_saturating_mul unat_saturating_sub)
    with assms(5,7) show ?thesis by linarith
  qed
  then show first: "unat (get_first_slot_in_epoch es epoch) = ?n * ?s + (2 ^ k - 32)"
    by (rule first_slot_of_normal_epoch [OF assms(1-4) e])
  show "(?n + 1) * ?s + (2 ^ k - 32) < 2 ^ 64" using assms(7) first by simp
qed

text \<open>
  Epochs are consecutive: in every schedule that \<^verbatim>\<open>EpochSchedule::custom\<close> builds, an epoch that
  ends before the last slot number is followed directly by the next one, and its last slot is the
  one before the first slot of the next epoch.
\<close>

theorem epochs_consecutive:
  assumes "es_custom slots offset warmup = Some es" and "unat slots \<le> 2 ^ 63"
    and "unat (get_first_slot_in_epoch es epoch) + unat (get_slots_in_epoch es epoch) < 2 ^ 64"
  shows "unat (get_first_slot_in_epoch es (epoch + 1)) =
      unat (get_first_slot_in_epoch es epoch) + unat (get_slots_in_epoch es epoch) \<and>
    get_last_slot_in_epoch es epoch = get_first_slot_in_epoch es (epoch + 1) - 1"
proof -
  obtain k where k: "5 \<le> k" "k < 64" "unat (es_first_normal_epoch es) = k - 5"
      "unat (es_first_normal_slot es) = 2 ^ k - 32" "32 \<le> unat (es_slots_per_epoch es)"
    using es_custom_shape [OF assms(1,2)] by blast
  have next_epoch: "unat (get_first_slot_in_epoch es (epoch + 1)) =
      unat (get_first_slot_in_epoch es epoch) + unat (get_slots_in_epoch es epoch)"
  proof (cases "epoch < es_first_normal_epoch es")
    case True
    then have lt: "unat epoch < k - 5" using k(3) by (simp add: word_less_nat_alt)
    then have suc: "unat (epoch + 1) = unat epoch + 1" using k(2) by (intro unat_Suc_u64) simp
    have "(32 :: nat) \<le> 2 ^ (unat epoch + 5)" "(2 :: nat) ^ (6 + unat epoch) = 2 * 2 ^ (unat epoch + 5)"
      by (simp_all add: power_add)
    with lt suc show ?thesis
      using slots_in_warmup_epoch [OF k(3,2) lt] first_slot_of_warmup_epoch [OF k(3,1,2), of epoch]
        first_slot_of_warmup_epoch [OF k(3,1,2), of "epoch + 1"] by simp
  next
    case False
    let ?n = "unat epoch - (k - 5)" and ?s = "unat (es_slots_per_epoch es)"
    have len: "get_slots_in_epoch es epoch = es_slots_per_epoch es"
      using False by (simp add: get_slots_in_epoch_def)
    have ge: "es_first_normal_epoch es \<le> epoch" using False by simp
    note fits = normal_epoch_fits [OF k(3,1,2,4,5) ge, folded len, OF assms(3), unfolded len]
    have "(?n + 1) * 32 \<le> (?n + 1) * ?s" using k(5) by (intro mult_le_mono) simp_all
    with fits(1) have "(?n + 1) * 32 < 2 ^ 64" by linarith
    then have "?n + 1 < 2 ^ 59" by simp
    then have "unat epoch + 1 < 2 ^ 64" using k(2) by simp
    then have "unat (epoch + 1) = k - 5 + (?n + 1)"
      using unat_Suc_u64 ge k(3) by (simp add: word_le_nat_alt)
    then show ?thesis
      using first_slot_of_normal_epoch [OF k(3,1,2,4) _ fits(1)] fits(2) len by simp
  qed
  have "unat (get_last_slot_in_epoch es epoch) = unat (get_first_slot_in_epoch es (epoch + 1)) - 1"
    using assms(3) by (simp add: get_last_slot_in_epoch_def unat_saturating_sub unat_saturating_add_exact next_epoch)
  moreover have "1 \<le> get_first_slot_in_epoch es (epoch + 1)"
  proof -
    have "0 < unat (get_slots_in_epoch es epoch)"
    proof (cases "epoch < es_first_normal_epoch es")
      case True
      then show ?thesis
        using slots_in_warmup_epoch [OF k(3,2), of epoch] k(3) by (simp add: word_less_nat_alt)
    qed (use k(5) in \<open>simp add: get_slots_in_epoch_def\<close>)
    with next_epoch show ?thesis by (simp add: word_le_nat_alt)
  qed
  ultimately show ?thesis
    using next_epoch by (simp add: word_unat_eq_iff unat_sub)
qed

theorem epochs_consecutive_witness:
  "\<exists>es. es_custom 8192 8192 False = Some es \<and>
     unat (get_first_slot_in_epoch es 4) =
       unat (get_first_slot_in_epoch es 3) + unat (get_slots_in_epoch es 3)"
proof -
  obtain es where es: "es_custom 8192 8192 False = Some es"
      "es_first_normal_epoch es = 0" "es_first_normal_slot es = 0" "es_slots_per_epoch es = 8192"
    by (simp add: es_custom_def Let_def)
  then have "unat (get_first_slot_in_epoch es 3) + unat (get_slots_in_epoch es 3) < 2 ^ 64"
    by (simp add: get_first_slot_in_epoch_def get_slots_in_epoch_def saturating_add_def
        saturating_sub_def saturating_mul_def)
  from epochs_consecutive [OF es(1) _ this] es(1) show ?thesis by simp
qed

text \<open>
  Leader schedules are computed one epoch ahead: in a schedule of \<^verbatim>\<open>EpochSchedule::new\<close>, whose
  offset is a whole epoch, the leader schedule saved off in a slot is the one of the next epoch,
  as long as a full epoch of slots is left.
\<close>

theorem leader_schedule_one_ahead:
  assumes "es_new slots = Some es" and "unat slots \<le> 2 ^ 63" and "unat slot + unat slots < 2 ^ 64"
  shows "unat (get_leader_schedule_epoch es slot) = unat (get_epoch es slot) + 1"
proof -
  have es: "es_custom slots slots True = Some es" using assms(1) by (simp add: es_new_def)
  then have off: "es_leader_schedule_slot_offset es = slots" "es_slots_per_epoch es = slots"
    by (auto simp: es_custom_def Let_def split: if_splits)
  obtain k where k: "5 \<le> k" "k < 64" "unat (es_first_normal_epoch es) = k - 5"
      "unat (es_first_normal_slot es) = 2 ^ k - 32" "32 \<le> unat (es_slots_per_epoch es)"
    using es_custom_shape [OF es assms(2)] by blast
  show ?thesis
  proof (cases "slot < es_first_normal_slot es")
    case True
    obtain j where "j + 5 < k" "unat (fst (get_epoch_and_slot_index es slot)) = j"
      using warmup_epoch_of_slot [OF k(4,2) True] by blast
    with True k(2) show ?thesis
      by (simp add: get_leader_schedule_epoch_def get_epoch_def unat_saturating_add_exact)
  next
    case False
    let ?d = "unat slot - unat (es_first_normal_slot es)"
    have "unat (saturating_add (saturating_sub slot (es_first_normal_slot es)) slots) = ?d + unat slots"
      using assms(3) by (simp add: unat_saturating_add_exact unat_saturating_sub)
    moreover have "(?d + unat slots) div unat slots = ?d div unat slots + 1"
      using k(5) off by (subst div_add_self2) auto
    moreover have "?d div unat slots + 1 < 2 ^ 64 - 63"
    proof -
      have "?d div unat slots \<le> ?d div 32" using k(5) off by (intro div_le_mono2) simp_all
      moreover have "?d div 32 < 2 ^ 59"
        using unat_u64_less [of slot] by (intro less_mult_imp_div_less) simp
      ultimately show ?thesis by simp
    qed
    moreover have "slots \<noteq> 0" using k(5) off by auto
    ultimately have "unat (div_or_zero (saturating_add (saturating_sub slot (es_first_normal_slot es)) slots) slots)
        = ?d div unat slots + 1" and "?d div unat slots + 1 < 2 ^ 64 - 63"
      by (simp_all add: div_or_zero_def unat_div)
    then show ?thesis
      using False off k(2,3) normal_epoch_of_slot(1) [OF k(3,2,5) False]
      by (simp add: get_leader_schedule_epoch_def get_epoch_def unat_saturating_add)
  qed
qed

theorem leader_schedule_one_ahead_witness:
  "\<exists>es. es_new 8192 = Some es \<and>
     unat (get_leader_schedule_epoch es 20000) = unat (get_epoch es 20000) + 1"
proof -
  obtain es where es: "es_new 8192 = Some es" by (simp add: es_new_def es_custom_def Let_def)
  from leader_schedule_one_ahead [OF es, of 20000] es show ?thesis by simp
qed

end
