(* ===== verification/Slot_History.thy ===== *)
theory Slot_History
  imports Prelude
begin

text \<open>
  The slot history (\<^verbatim>\<open>sdk/program/src/slot_history.rs\<close>), a ring of one bit for each of the last
  1048576 slots.  The bit vector is the \<^verbatim>\<open>bv\<close> crate's, so its operations are a parameter and its
  documented behaviour is the predicate \<open>bit_vec_laws\<close>.  Adding ascending slots is shown to
  implement a set of slots seen through a sliding window.
\<close>

section \<open>The bit vector interface\<close>

record 'b bit_vec =
  bv_new_fill :: "bool \<Rightarrow> nat \<Rightarrow> 'b"
  bv_len :: "'b \<Rightarrow> nat"
  bv_get :: "'b \<Rightarrow> nat \<Rightarrow> bool"
  bv_set :: "'b \<Rightarrow> nat \<Rightarrow> bool \<Rightarrow> 'b"
  bv_set_block :: "'b \<Rightarrow> nat \<Rightarrow> u64 \<Rightarrow> 'b"

definition bit_vec_laws :: "'b bit_vec \<Rightarrow> bool" where
  "bit_vec_laws ops \<longleftrightarrow>
     (\<forall>v n. bv_len ops (bv_new_fill ops v n) = n \<and>
        (\<forall>i < n. bv_get ops (bv_new_fill ops v n) i = v)) \<and>
     (\<forall>b i v. i < bv_len ops b \<longrightarrow>
        bv_len ops (bv_set ops b i v) = bv_len ops b \<and>
        (\<forall>j < bv_len ops b. bv_get ops (bv_set ops b i v) j = (if j = i then v else bv_get ops b j))) \<and>
     (\<forall>b k w. 64 * k < bv_len ops b \<longrightarrow>
        bv_len ops (bv_set_block ops b k w) = bv_len ops b \<and>
        (\<forall>j < bv_len ops b. bv_get ops (bv_set_block ops b k w) j =
           (if j div 64 = k then bit w (j mod 64) else bv_get ops b j)))"

lemma bv_set_laws:
  assumes "bit_vec_laws ops" and "i < bv_len ops b"
  shows "bv_len ops (bv_set ops b i v) = bv_len ops b"
    and "j < bv_len ops b \<Longrightarrow> bv_get ops (bv_set ops b i v) j = (if j = i then v else bv_get ops b j)"
  using assms unfolding bit_vec_laws_def by blast+

lemma bv_set_block_laws:
  assumes "bit_vec_laws ops" and "64 * k < bv_len ops b"
  shows "bv_len ops (bv_set_block ops b k w) = bv_len ops b"
    and "j < bv_len ops b \<Longrightarrow> bv_get ops (bv_set_block ops b k w) j =
      (if j div 64 = k then bit w (j mod 64) else bv_get ops b j)"
  using assms unfolding bit_vec_laws_def by blast+

section \<open>SlotHistory\<close>

record 'b slot_history =
  shist_bits :: 'b
  shist_next_slot :: u64

datatype history_check = Future | TooOld | Found | NotFound

abbreviation SLOT_HISTORY_MAX_ENTRIES :: nat where "SLOT_HISTORY_MAX_ENTRIES \<equiv> 1048576"

definition slot_history_default :: "'b bit_vec \<Rightarrow> 'b slot_history" where
  "slot_history_default ops =
     \<lparr>shist_bits = bv_set ops (bv_new_fill ops False SLOT_HISTORY_MAX_ENTRIES) 0 True,
      shist_next_slot = 1\<rparr>"

definition clear_blocks :: "'b bit_vec \<Rightarrow> nat \<Rightarrow> 'b \<Rightarrow> 'b" where
  "clear_blocks ops n b = fold (\<lambda>i b. bv_set_block ops b i 0) [0..<n] b"

definition clear_skipped :: "'b bit_vec \<Rightarrow> nat \<Rightarrow> nat \<Rightarrow> 'b \<Rightarrow> 'b" where
  "clear_skipped ops from til b =
     fold (\<lambda>skipped b. bv_set ops b (skipped mod SLOT_HISTORY_MAX_ENTRIES) False) [from..<til] b"

definition slot_history_add :: "'b bit_vec \<Rightarrow> u64 \<Rightarrow> 'b slot_history \<Rightarrow> 'b slot_history" where
  "slot_history_add ops slot h =
     (let cleared =
        (if shist_next_slot h < slot \<and> SLOT_HISTORY_MAX_ENTRIES \<le> unat (slot - shist_next_slot h)
         then clear_blocks ops (SLOT_HISTORY_MAX_ENTRIES div 64) (shist_bits h)
         else clear_skipped ops (unat (shist_next_slot h)) (unat slot) (shist_bits h))
      in \<lparr>shist_bits = bv_set ops cleared (unat slot mod SLOT_HISTORY_MAX_ENTRIES) True,
          shist_next_slot = slot + 1\<rparr>)"

definition slot_history_oldest :: "'b slot_history \<Rightarrow> u64" where
  "slot_history_oldest h = saturating_sub (shist_next_slot h) (of_nat SLOT_HISTORY_MAX_ENTRIES)"

definition slot_history_newest :: "'b slot_history \<Rightarrow> u64" where
  "slot_history_newest h = shist_next_slot h - 1"

definition slot_history_check :: "'b bit_vec \<Rightarrow> 'b slot_history \<Rightarrow> u64 \<Rightarrow> history_check" where
  "slot_history_check ops h slot =
     (if slot_history_newest h < slot then Future
      else if slot < slot_history_oldest h then TooOld
      else if bv_get ops (shist_bits h) (unat slot mod SLOT_HISTORY_MAX_ENTRIES) then Found
      else NotFound)"

section \<open>The window invariant\<close>

text \<open>
  \<open>history_of ops seen h\<close>: below the next slot, the last 1048576 slots have their bit set exactly
  when they are in the set \<open>seen\<close>.
\<close>

definition history_of :: "'b bit_vec \<Rightarrow> nat set \<Rightarrow> 'b slot_history \<Rightarrow> bool" where
  "history_of ops seen h \<longleftrightarrow>
     bv_len ops (shist_bits h) = SLOT_HISTORY_MAX_ENTRIES \<and> 0 < unat (shist_next_slot h) \<and>
     (\<forall>s \<in> seen. s < unat (shist_next_slot h)) \<and>
     (\<forall>s < unat (shist_next_slot h). unat (shist_next_slot h) \<le> s + SLOT_HISTORY_MAX_ENTRIES \<longrightarrow>
        bv_get ops (shist_bits h) (s mod SLOT_HISTORY_MAX_ENTRIES) = (s \<in> seen))"

lemma mod_window:
  assumes "a < b" and "b < a + (n :: nat)"
  shows "a mod n \<noteq> b mod n"
proof
  assume "a mod n = b mod n"
  with assms(1) have "n dvd b - a" by (metis less_imp_le mod_eq_dvd_iff_nat)
  moreover have "0 < b - a" "b - a < n" using assms by simp_all
  ultimately show False using nat_dvd_not_less by blast
qed

lemma clear_skipped_get:
  assumes "bit_vec_laws ops" and "bv_len ops b = SLOT_HISTORY_MAX_ENTRIES"
  shows "bv_len ops (clear_skipped ops from til b) = SLOT_HISTORY_MAX_ENTRIES \<and>
    (\<forall>j < SLOT_HISTORY_MAX_ENTRIES. bv_get ops (clear_skipped ops from til b) j =
       (bv_get ops b j \<and> (\<forall>s \<in> {from..<til}. s mod SLOT_HISTORY_MAX_ENTRIES \<noteq> j)))"
proof (cases "from \<le> til")
  case False
  then show ?thesis using assms(2) by (simp add: clear_skipped_def)
next
  case True
  then show ?thesis
  proof (induction til rule: dec_induct)
    case base
    show ?case using assms(2) by (simp add: clear_skipped_def)
  next
    case (step n)
    have "clear_skipped ops from (Suc n) b =
        bv_set ops (clear_skipped ops from n b) (n mod SLOT_HISTORY_MAX_ENTRIES) False"
      using step.hyps by (simp add: clear_skipped_def)
    with step assms(1) show ?case by (auto simp: bit_vec_laws_def less_Suc_eq)
  qed
qed

lemma clear_blocks_get:
  assumes "bit_vec_laws ops" and "bv_len ops b = SLOT_HISTORY_MAX_ENTRIES" and "n \<le> SLOT_HISTORY_MAX_ENTRIES div 64"
  shows "bv_len ops (clear_blocks ops n b) = SLOT_HISTORY_MAX_ENTRIES \<and>
    (\<forall>j < 64 * n. \<not> bv_get ops (clear_blocks ops n b) j)"
  using assms(3)
proof (induction n)
  case (Suc n)
  have e: "clear_blocks ops (Suc n) b = bv_set_block ops (clear_blocks ops n b) n 0"
    by (simp add: clear_blocks_def)
  from Suc have IH: "bv_len ops (clear_blocks ops n b) = SLOT_HISTORY_MAX_ENTRIES"
      "\<And>j. j < 64 * n \<Longrightarrow> \<not> bv_get ops (clear_blocks ops n b) j"
    by simp_all
  have n: "64 * n + 64 \<le> SLOT_HISTORY_MAX_ENTRIES" using Suc.prems by simp
  then have len: "64 * n < bv_len ops (clear_blocks ops n b)" unfolding IH(1) by linarith
  have "\<not> bv_get ops (bv_set_block ops (clear_blocks ops n b) n 0) j" if "j < 64 * Suc n" for j
  proof -
    have j: "j < 64 * n + 64" using that by simp
    have "j < bv_len ops (clear_blocks ops n b)" unfolding IH(1) using n j by linarith
    moreover have "j < 64 * n" if "j div 64 \<noteq> n"
    proof -
      have "j div 64 < Suc n" using j by (intro less_mult_imp_div_less) simp
      with that have "j div 64 < n" by simp
      then show ?thesis by (simp add: div_less_iff_less_mult)
    qed
    ultimately show ?thesis
      using IH(2) by (cases "j div 64 = n") (simp_all add: bv_set_block_laws(2) [OF assms(1) len])
  qed
  then show ?case
    unfolding e bv_set_block_laws(1) [OF assms(1) len] using IH(1) by blast
qed (simp add: clear_blocks_def assms(2))

text \<open>Before the new slot's bit is set, no bit of an older slot in the new window is left stale.\<close>

lemma cleared_window:
  assumes "bit_vec_laws ops" and "history_of ops seen h" and "shist_next_slot h \<le> slot"
    and "s < unat slot" and "unat slot < s + SLOT_HISTORY_MAX_ENTRIES"
  shows "bv_get ops
      (if shist_next_slot h < slot \<and> SLOT_HISTORY_MAX_ENTRIES \<le> unat (slot - shist_next_slot h)
       then clear_blocks ops (SLOT_HISTORY_MAX_ENTRIES div 64) (shist_bits h)
       else clear_skipped ops (unat (shist_next_slot h)) (unat slot) (shist_bits h))
      (s mod SLOT_HISTORY_MAX_ENTRIES) = (s \<in> seen)"
proof -
  let ?n = "unat (shist_next_slot h)"
  have len: "bv_len ops (shist_bits h) = SLOT_HISTORY_MAX_ENTRIES" using assms(2) by (simp add: history_of_def)
  have le: "?n \<le> unat slot" using assms(3) by (simp add: word_le_nat_alt)
  have sub: "unat (slot - shist_next_slot h) = unat slot - ?n" using assms(3) by (simp add: unat_sub)
  have mod: "s mod SLOT_HISTORY_MAX_ENTRIES < SLOT_HISTORY_MAX_ENTRIES" by simp
  show ?thesis
  proof (cases "shist_next_slot h < slot \<and> SLOT_HISTORY_MAX_ENTRIES \<le> unat (slot - shist_next_slot h)")
    case True
    then have "?n \<le> s" using assms(5) unfolding sub by linarith
    then have "s \<notin> seen" using assms(2) by (auto simp: history_of_def)
    with True show ?thesis
      using clear_blocks_get [OF assms(1) len, of "SLOT_HISTORY_MAX_ENTRIES div 64"] mod by simp
  next
    case False
    have "(s \<in> seen) = (bv_get ops (shist_bits h) (s mod SLOT_HISTORY_MAX_ENTRIES) \<and>
        (\<forall>t \<in> {?n..<unat slot}. t mod SLOT_HISTORY_MAX_ENTRIES \<noteq> s mod SLOT_HISTORY_MAX_ENTRIES))"
    proof (cases "?n \<le> s")
      case True
      then have "s \<notin> seen" using assms(2) by (auto simp: history_of_def)
      with True assms(4) show ?thesis by auto
    next
      case False
      have "t mod SLOT_HISTORY_MAX_ENTRIES \<noteq> s mod SLOT_HISTORY_MAX_ENTRIES" if "t \<in> {?n..<unat slot}" for t
        using mod_window [of s t SLOT_HISTORY_MAX_ENTRIES] that False assms(5) by auto
      moreover have "bv_get ops (shist_bits h) (s mod SLOT_HISTORY_MAX_ENTRIES) = (s \<in> seen)"
        using assms(2,5) False le by (simp add: history_of_def)
      ultimately show ?thesis by blast
    qed
    with False show ?thesis
      using clear_skipped_get [OF assms(1) len, of ?n "unat slot"] mod by auto
  qed
qed

lemma slot_history_add_history:
  assumes "bit_vec_laws ops" and "history_of ops seen h"
    and "shist_next_slot h \<le> slot" and "unat slot + 1 < 2 ^ 64"
  shows "history_of ops (insert (unat slot) seen) (slot_history_add ops slot h) \<and>
    unat (shist_next_slot (slot_history_add ops slot h)) = unat slot + 1"
proof -
  define c where "c = (if shist_next_slot h < slot \<and> SLOT_HISTORY_MAX_ENTRIES \<le> unat (slot - shist_next_slot h)
       then clear_blocks ops (SLOT_HISTORY_MAX_ENTRIES div 64) (shist_bits h)
       else clear_skipped ops (unat (shist_next_slot h)) (unat slot) (shist_bits h))"
  let ?m = "unat slot mod SLOT_HISTORY_MAX_ENTRIES"
  have len: "bv_len ops (shist_bits h) = SLOT_HISTORY_MAX_ENTRIES" using assms(2) by (simp add: history_of_def)
  have len_c: "bv_len ops c = SLOT_HISTORY_MAX_ENTRIES"
    using clear_blocks_get [OF assms(1) len order_refl] clear_skipped_get [OF assms(1) len]
    unfolding c_def by (simp only: split: if_split) blast
  have nxt: "unat (slot + 1) = unat slot + 1" using assms(4) by (simp add: unat_word_ariths)
  have set: "bv_len ops (bv_set ops c ?m True) = SLOT_HISTORY_MAX_ENTRIES"
      "\<And>j. j < SLOT_HISTORY_MAX_ENTRIES \<Longrightarrow>
         bv_get ops (bv_set ops c ?m True) j = (j = ?m \<or> bv_get ops c j)"
    using bv_set_laws [OF assms(1), where i = ?m and b = c and v = True] len_c by simp_all
  have bits: "bv_get ops (bv_set ops c ?m True) (s mod SLOT_HISTORY_MAX_ENTRIES) =
      (s \<in> insert (unat slot) seen)"
    if "s < unat slot + 1" "unat slot + 1 \<le> s + SLOT_HISTORY_MAX_ENTRIES" for s
  proof (cases "s = unat slot")
    case True
    then show ?thesis by (simp add: set)
  next
    case False
    with that have s: "s < unat slot" "unat slot < s + SLOT_HISTORY_MAX_ENTRIES" by simp_all
    with False show ?thesis
      using cleared_window [OF assms(1-3) s, folded c_def] mod_window [OF s] by (simp add: set)
  qed
  have "\<forall>s \<in> insert (unat slot) seen. s < unat slot + 1"
    using assms(2,3) by (fastforce simp: history_of_def word_le_nat_alt)
  with set(1) bits nxt show ?thesis
    by (simp add: history_of_def slot_history_add_def Let_def flip: c_def)
qed

lemma slot_history_default_history:
  assumes "bit_vec_laws ops"
  shows "history_of ops {0} (slot_history_default ops)"
proof -
  let ?b = "bv_new_fill ops False SLOT_HISTORY_MAX_ENTRIES"
  have "bv_len ops ?b = SLOT_HISTORY_MAX_ENTRIES"
    using assms unfolding bit_vec_laws_def by blast
  then have "bv_len ops (bv_set ops ?b 0 True) = SLOT_HISTORY_MAX_ENTRIES"
      "bv_get ops (bv_set ops ?b 0 True) 0"
    using assms unfolding bit_vec_laws_def by simp_all
  then show ?thesis by (simp add: history_of_def slot_history_default_def)
qed

text \<open>Every history the runtime builds: ascending slots added to the default history.\<close>

definition slot_history_run :: "'b bit_vec \<Rightarrow> u64 list \<Rightarrow> 'b slot_history" where
  "slot_history_run ops slots = fold (slot_history_add ops) slots (slot_history_default ops)"

lemma slot_history_run_history:
  assumes "bit_vec_laws ops" and "sorted_wrt (<) (0 # slots)" and "\<forall>s \<in> set slots. unat s + 1 < 2 ^ 64"
  shows "history_of ops (unat ` set (0 # slots)) (slot_history_run ops slots) \<and>
    unat (shist_next_slot (slot_history_run ops slots)) = unat (last (0 # slots)) + 1"
  using assms(2,3)
proof (induction slots rule: rev_induct)
  case Nil
  show ?case using slot_history_default_history [OF assms(1)]
    by (simp add: slot_history_run_def slot_history_default_def)
next
  case (snoc slot slots)
  let ?h = "slot_history_run ops slots"
  have IH: "history_of ops (unat ` set (0 # slots)) ?h"
      "unat (shist_next_slot ?h) = unat (last (0 # slots)) + 1"
    using snoc by (auto simp: sorted_wrt_append)
  have "last (0 # slots) < slot"
    using snoc.prems(1) by (cases slots rule: rev_cases) (auto simp: sorted_wrt_append)
  then have "shist_next_slot ?h \<le> slot" using IH(2) by (simp add: word_le_nat_alt word_less_nat_alt)
  moreover have "slot_history_run ops (slots @ [slot]) = slot_history_add ops slot ?h"
    by (simp add: slot_history_run_def)
  ultimately show ?case
    using slot_history_add_history [OF assms(1) IH(1), of slot] snoc.prems(2)
    by (simp add: insert_commute)
qed

text \<open>
  (C34) The slot history is a sliding-window set: after ascending slots were added to the default
  history, a slot above the newest is in the future, a slot 1048576 or more below the newest is
  too old, and any other is found exactly when it was added, no matter how often the ring wrapped.
\<close>

theorem slot_history_refines:
  assumes "bit_vec_laws ops" and "sorted_wrt (<) (0 # slots)" and "\<forall>s \<in> set slots. unat s + 1 < 2 ^ 64"
  shows "slot_history_check ops (slot_history_run ops slots) slot =
    (if last (0 # slots) < slot then Future
     else if unat slot + SLOT_HISTORY_MAX_ENTRIES \<le> unat (last (0 # slots)) then TooOld
     else if slot \<in> set (0 # slots) then Found else NotFound)"
proof -
  let ?h = "slot_history_run ops slots" and ?l = "last (0 # slots)"
  have H: "history_of ops (unat ` set (0 # slots)) ?h" "unat (shist_next_slot ?h) = unat ?l + 1"
    using slot_history_run_history [OF assms] by simp_all
  have newest: "unat (slot_history_newest ?h) = unat ?l"
    using H(2) by (simp add: slot_history_newest_def unat_sub word_le_nat_alt)
  have oldest: "unat (slot_history_oldest ?h) = unat ?l + 1 - SLOT_HISTORY_MAX_ENTRIES"
    using H(2) by (simp add: slot_history_oldest_def unat_saturating_sub)
  have found: "bv_get ops (shist_bits ?h) (unat slot mod SLOT_HISTORY_MAX_ENTRIES) = (slot \<in> set (0 # slots))"
    if "unat slot \<le> unat ?l" "unat ?l < unat slot + SLOT_HISTORY_MAX_ENTRIES"
  proof -
    have "bv_get ops (shist_bits ?h) (unat slot mod SLOT_HISTORY_MAX_ENTRIES) =
        (unat slot \<in> unat ` set (0 # slots))"
      using H that by (simp add: history_of_def)
    also have "\<dots> = (slot \<in> set (0 # slots))"
      by (simp only: image_iff word_unat_eq_iff [symmetric]) blast
    finally show ?thesis .
  qed
  have "slot_history_newest ?h < slot \<longleftrightarrow> ?l < slot"
    using newest by (simp only: word_less_nat_alt)
  moreover have "slot < slot_history_oldest ?h \<longleftrightarrow> unat slot + SLOT_HISTORY_MAX_ENTRIES \<le> unat ?l"
    using oldest by (simp only: word_less_nat_alt) linarith
  ultimately show ?thesis
    using found by (auto simp only: slot_history_check_def word_less_nat_alt not_less not_le split: if_split)
qed

text \<open>An instance of the interface: a length with a function from indices to bits.\<close>

definition fun_bit_vec :: "(nat \<times> (nat \<Rightarrow> bool)) bit_vec" where
  "fun_bit_vec =
     \<lparr>bv_new_fill = \<lambda>v n. (n, \<lambda>_. v), bv_len = fst, bv_get = snd,
      bv_set = \<lambda>b i v. (fst b, (snd b)(i := v)),
      bv_set_block = \<lambda>b k w. (fst b, \<lambda>j. if j div 64 = k then bit w (j mod 64) else snd b j)\<rparr>"

lemma fun_bit_vec_laws: "bit_vec_laws fun_bit_vec"
  by (simp add: bit_vec_laws_def fun_bit_vec_def)

theorem slot_history_refines_witness:
  "slot_history_check fun_bit_vec (slot_history_run fun_bit_vec [3, 5000000]) 5000000 = Found \<and>
   slot_history_check fun_bit_vec (slot_history_run fun_bit_vec [3, 5000000]) 4999999 = NotFound \<and>
   slot_history_check fun_bit_vec (slot_history_run fun_bit_vec [3, 5000000]) 3 = TooOld"
proof -
  have "sorted_wrt (<) [0 :: u64, 3, 5000000]" "\<forall>s \<in> set [3 :: u64, 5000000]. unat s + 1 < 2 ^ 64"
    by simp_all
  note R = slot_history_refines [OF fun_bit_vec_laws this]
  show ?thesis using R [of 5000000] R [of 4999999] R [of 3] by simp
qed

end
