(* ===== verification/Message.thy ===== *)
theory Message
  imports Pubkeys "HOL-Library.List_Lexorder"
begin

text \<open>
  Transaction messages (\<^verbatim>\<open>sdk/program/src/message\<close>): the compilation of instructions into a key list
  with a header (\<^verbatim>\<open>compiled_keys.rs\<close>), the legacy message (\<^verbatim>\<open>legacy.rs\<close>), the version 0 message with
  its loaded addresses (\<^verbatim>\<open>versions/v0/mod.rs\<close>, \<^verbatim>\<open>versions/v0/loaded.rs\<close>, \<^verbatim>\<open>account_keys.rs\<close>), their
  sanitization, and the sanitized view the runtime uses (\<^verbatim>\<open>sanitized.rs\<close>).  A panic of the source
  (an index out of range, a failed \<^verbatim>\<open>unwrap\<close> or \<^verbatim>\<open>expect\<close>) is \<^term>\<open>None\<close>.
\<close>

section \<open>Ordered maps\<close>

text \<open>
  Keys are ordered by their bytes.  A \<^verbatim>\<open>BTreeMap\<close> is the list of its entries in ascending key
  order; \<open>bt_entry\<close> is an update through \<^verbatim>\<open>entry(k).or_default()\<close>.
\<close>

instantiation pubkey :: linorder
begin

definition less_eq_pubkey :: "pubkey \<Rightarrow> pubkey \<Rightarrow> bool" where
  "less_eq_pubkey a b \<longleftrightarrow> pk_bytes a \<le> pk_bytes b"

definition less_pubkey :: "pubkey \<Rightarrow> pubkey \<Rightarrow> bool" where
  "less_pubkey a b \<longleftrightarrow> pk_bytes a < pk_bytes b"

instance
  by standard (auto simp: less_eq_pubkey_def less_pubkey_def pubkey.expand)

end

fun bt_entry :: "'k::linorder \<Rightarrow> 'v \<Rightarrow> ('v \<Rightarrow> 'v) \<Rightarrow> ('k \<times> 'v) list \<Rightarrow> ('k \<times> 'v) list" where
  "bt_entry k d f [] = [(k, f d)]"
| "bt_entry k d f ((k', v) # m) =
     (if k < k' then (k, f d) # (k', v) # m
      else if k = k' then (k', f v) # m
      else (k', v) # bt_entry k d f m)"

definition bt_remove :: "'k \<Rightarrow> ('k \<times> 'v) list \<Rightarrow> ('k \<times> 'v) list" where
  "bt_remove k m = filter (\<lambda>e. fst e \<noteq> k) m"

definition bt_ok :: "('k::linorder \<times> 'v) list \<Rightarrow> bool" where
  "bt_ok m \<longleftrightarrow> sorted_wrt (<) (map fst m)"

lemma bt_ok_distinct: "bt_ok m \<Longrightarrow> distinct (map fst m)"
  by (simp add: bt_ok_def strict_sorted_iff)

lemma keys_bt_entry: "fst ` set (bt_entry k d f m) = insert k (fst ` set m)"
proof (induction m)
  case (Cons e m)
  obtain k' v where "e = (k', v)" by force
  with Cons show ?case by (cases "k < k'"; cases "k = k'") (simp_all add: insert_commute)
qed simp

lemma bt_entry_ok: "bt_ok m \<Longrightarrow> bt_ok (bt_entry k d f m)"
proof (induction m)
  case (Cons e m)
  obtain k' v where e: "e = (k', v)" by force
  have "\<forall>x \<in> fst ` set (bt_entry k d f m). k' < x" if "\<not> k < k'" "k \<noteq> k'"
    using Cons.prems that e unfolding keys_bt_entry by (auto simp: bt_ok_def)
  with Cons e show ?case by (auto simp: bt_ok_def)
qed (simp add: bt_ok_def)

lemma map_of_bt_entry:
  "bt_ok m \<Longrightarrow> map_of (bt_entry k d f m) = (map_of m)(k \<mapsto> f (case map_of m k of None \<Rightarrow> d | Some v \<Rightarrow> v))"
proof (induction m)
  case (Cons e m)
  obtain k' v where e: "e = (k', v)" by force
  have ok: "bt_ok m" "\<forall>x \<in> fst ` set m. k' < x" using Cons.prems e by (auto simp: bt_ok_def)
  then have "k \<notin> fst ` set m" if "k < k'" using that by fastforce
  then have "map_of m k = None" if "k < k'" using that by (simp add: map_of_eq_None_iff)
  with Cons.IH [OF ok(1)] e show ?case by (auto simp: fun_eq_iff)
qed auto

lemma bt_remove_ok: "bt_ok m \<Longrightarrow> bt_ok (bt_remove k m)"
  by (auto simp: bt_ok_def bt_remove_def sorted_wrt_map intro: sorted_wrt_filter)

lemma map_of_bt_remove: "map_of (bt_remove k m) = (map_of m)(k := None)"
  by (induction m) (auto simp: bt_remove_def)

section \<open>Instructions and headers\<close>

record account_meta =
  am_pubkey :: pubkey
  am_is_signer :: bool
  am_is_writable :: bool

record instruction =
  ix_program_id :: pubkey
  ix_accounts :: "account_meta list"
  ix_data :: bytes

record compiled_instruction =
  ci_program_id_index :: u8
  ci_accounts :: "u8 list"
  ci_data :: bytes

record message_header =
  mh_num_required_signatures :: u8
  mh_num_readonly_signed_accounts :: u8
  mh_num_readonly_unsigned_accounts :: u8

datatype sanitize_error = IndexOutOfBounds | ValueOutOfBounds | InvalidValue

datatype compile_error =
  AccountIndexOverflow
| AddressTableLookupIndexOverflow
| UnknownInstructionKey pubkey

section \<open>Reserved keys\<close>

definition BUILTIN_PROGRAMS_KEYS :: "pubkey list" where
  "BUILTIN_PROGRAMS_KEYS =
     [config_program_id, feature_id, native_loader_id, stake_program_id, stake_config_id,
      vote_program_id, system_program_id, bpf_loader_id, bpf_loader_deprecated_id,
      bpf_loader_upgradeable_id]"

definition ALL_IDS :: "pubkey list" where
  "ALL_IDS =
     [clock_sysvar_id, epoch_schedule_sysvar_id, fees_sysvar_id, recent_blockhashes_sysvar_id,
      rent_sysvar_id, rewards_sysvar_id, slot_hashes_sysvar_id, slot_history_sysvar_id,
      stake_history_sysvar_id, instructions_sysvar_id]"

definition is_sysvar_id :: "pubkey \<Rightarrow> bool" where
  "is_sysvar_id key \<longleftrightarrow> list_ex (\<lambda>k. k = key) ALL_IDS"

text \<open>The table of first bytes; a key of 32 bytes always has one.\<close>

definition first_byte :: "pubkey \<Rightarrow> u8" where
  "first_byte key = hd (pk_bytes key)"

definition MAYBE_BUILTIN_KEY_OR_SYSVAR :: "bool list" where
  "MAYBE_BUILTIN_KEY_OR_SYSVAR =
     fold (\<lambda>key table. table[unat (first_byte key) := True]) (BUILTIN_PROGRAMS_KEYS @ ALL_IDS)
       (replicate 256 False)"

definition is_builtin_key_or_sysvar :: "pubkey \<Rightarrow> bool" where
  "is_builtin_key_or_sysvar key \<longleftrightarrow>
     (if MAYBE_BUILTIN_KEY_OR_SYSVAR ! unat (first_byte key)
      then is_sysvar_id key \<or> key \<in> set BUILTIN_PROGRAMS_KEYS
      else False)"

section \<open>Compiled keys\<close>

record key_meta =
  km_is_signer :: bool
  km_is_writable :: bool
  km_is_invoked :: bool

abbreviation key_meta_default :: key_meta where
  "key_meta_default \<equiv> \<lparr>km_is_signer = False, km_is_writable = False, km_is_invoked = False\<rparr>"

record compiled_keys =
  ck_payer :: "pubkey option"
  ck_key_meta_map :: "(pubkey \<times> key_meta) list"

definition compile_account ::
    "account_meta \<Rightarrow> (pubkey \<times> key_meta) list \<Rightarrow> (pubkey \<times> key_meta) list" where
  "compile_account am =
     bt_entry (am_pubkey am) key_meta_default
       (\<lambda>meta. meta\<lparr>km_is_signer := km_is_signer meta \<or> am_is_signer am,
                    km_is_writable := km_is_writable meta \<or> am_is_writable am\<rparr>)"

definition compile_ix ::
    "instruction \<Rightarrow> (pubkey \<times> key_meta) list \<Rightarrow> (pubkey \<times> key_meta) list" where
  "compile_ix ix m =
     fold compile_account (ix_accounts ix)
       (bt_entry (ix_program_id ix) key_meta_default (\<lambda>meta. meta\<lparr>km_is_invoked := True\<rparr>) m)"

definition compile_payer ::
    "pubkey option \<Rightarrow> (pubkey \<times> key_meta) list \<Rightarrow> (pubkey \<times> key_meta) list" where
  "compile_payer payer m =
     (case payer of
        None \<Rightarrow> m
      | Some p \<Rightarrow>
          bt_entry p key_meta_default (\<lambda>meta. meta\<lparr>km_is_signer := True, km_is_writable := True\<rparr>) m)"

definition ck_compile :: "instruction list \<Rightarrow> pubkey option \<Rightarrow> compiled_keys" where
  "ck_compile ixs payer =
     \<lparr>ck_payer = payer, ck_key_meta_map = compile_payer payer (fold compile_ix ixs [])\<rparr>"

definition u8_try_from :: "'e \<Rightarrow> nat \<Rightarrow> 'e + u8" where
  "u8_try_from e n = (if n < 256 then Inr (of_nat n) else Inl e)"

definition keys_with :: "(key_meta \<Rightarrow> bool) \<Rightarrow> (pubkey \<times> key_meta) list \<Rightarrow> pubkey list" where
  "keys_with f m = map fst (filter (\<lambda>(_, meta). f meta) m)"

definition try_into_message_components ::
    "compiled_keys \<Rightarrow> compile_error + message_header \<times> pubkey list" where
  "try_into_message_components ck =
     (let m = (case ck_payer ck of None \<Rightarrow> ck_key_meta_map ck
               | Some p \<Rightarrow> bt_remove p (ck_key_meta_map ck));
          writable_signer = (case ck_payer ck of None \<Rightarrow> [] | Some p \<Rightarrow> [p]) @
            keys_with (\<lambda>meta. km_is_signer meta \<and> km_is_writable meta) m;
          readonly_signer = keys_with (\<lambda>meta. km_is_signer meta \<and> \<not> km_is_writable meta) m;
          writable_non_signer = keys_with (\<lambda>meta. \<not> km_is_signer meta \<and> km_is_writable meta) m;
          readonly_non_signer = keys_with (\<lambda>meta. \<not> km_is_signer meta \<and> \<not> km_is_writable meta) m
      in and_then (u8_try_from AccountIndexOverflow (length writable_signer + length readonly_signer)) (\<lambda>signers.
         and_then (u8_try_from AccountIndexOverflow (length readonly_signer)) (\<lambda>ro_signed.
         and_then (u8_try_from AccountIndexOverflow (length readonly_non_signer)) (\<lambda>ro_unsigned.
         Inr (\<lparr>mh_num_required_signatures = signers, mh_num_readonly_signed_accounts = ro_signed,
               mh_num_readonly_unsigned_accounts = ro_unsigned\<rparr>,
              writable_signer @ readonly_signer @ writable_non_signer @ readonly_non_signer)))))"

section \<open>Legacy messages\<close>

record legacy_message =
  lm_header :: message_header
  lm_account_keys :: "pubkey list"
  lm_recent_blockhash :: hash
  lm_instructions :: "compiled_instruction list"

definition key_position :: "pubkey list \<Rightarrow> pubkey \<Rightarrow> u8 option" where
  "key_position keys key = map_option of_nat (position (\<lambda>k. k = key) keys)"

text \<open>Collecting fallible results, as \<^verbatim>\<open>collect\<close> does for \<^verbatim>\<open>Option\<close> and \<^verbatim>\<open>Result\<close> iterators.\<close>

fun collect_opt :: "'a option list \<Rightarrow> 'a list option" where
  "collect_opt [] = Some []"
| "collect_opt (x # xs) =
     (case x of None \<Rightarrow> None | Some a \<Rightarrow> map_option ((#) a) (collect_opt xs))"

fun collect_res :: "('e + 'a) list \<Rightarrow> 'e + 'a list" where
  "collect_res [] = Inr []"
| "collect_res (x # xs) =
     (case x of Inl e \<Rightarrow> Inl e | Inr a \<Rightarrow> and_then (collect_res xs) (\<lambda>as. Inr (a # as)))"

lemma collect_opt_Some: "collect_opt xs = Some ys \<longleftrightarrow> xs = map Some ys"
proof (induction xs arbitrary: ys)
  case (Cons x xs)
  then show ?case by (cases ys) (auto split: option.splits)
qed auto

lemma collect_res_Inr: "collect_res xs = Inr ys \<longleftrightarrow> xs = map Inr ys"
proof (induction xs arbitrary: ys)
  case (Cons x xs)
  show ?case
    using Cons.IH [of "tl ys"] by (cases ys; cases x; cases "collect_res xs") (auto simp: and_then_def)
qed auto

definition compile_instruction :: "instruction \<Rightarrow> pubkey list \<Rightarrow> compiled_instruction option" where
  "compile_instruction ix keys =
     (case collect_opt (map (\<lambda>am. key_position keys (am_pubkey am)) (ix_accounts ix)) of
        None \<Rightarrow> None
      | Some accounts \<Rightarrow>
          map_option
            (\<lambda>p. \<lparr>ci_program_id_index = p, ci_accounts = accounts, ci_data = ix_data ix\<rparr>)
            (key_position keys (ix_program_id ix)))"

definition compile_instructions :: "instruction list \<Rightarrow> pubkey list \<Rightarrow> compiled_instruction list option" where
  "compile_instructions ixs keys = collect_opt (map (\<lambda>ix. compile_instruction ix keys) ixs)"

definition new_with_blockhash :: "instruction list \<Rightarrow> pubkey option \<Rightarrow> hash \<Rightarrow> legacy_message option" where
  "new_with_blockhash ixs payer blockhash =
     (case try_into_message_components (ck_compile ixs payer) of
        Inl _ \<Rightarrow> None
      | Inr (header, keys) \<Rightarrow>
          map_option
            (\<lambda>cis. \<lparr>lm_header = header, lm_account_keys = keys, lm_recent_blockhash = blockhash,
                    lm_instructions = cis\<rparr>)
            (compile_instructions ixs keys))"

definition ci_in_bounds :: "nat \<Rightarrow> nat \<Rightarrow> compiled_instruction \<Rightarrow> bool" where
  "ci_in_bounds programs accounts ci \<longleftrightarrow>
     unat (ci_program_id_index ci) < programs \<and> ci_program_id_index ci \<noteq> 0 \<and>
     list_all (\<lambda>ai. unat ai < accounts) (ci_accounts ci)"

definition legacy_sanitize :: "legacy_message \<Rightarrow> sanitize_error + unit" where
  "legacy_sanitize m =
     (let n = length (lm_account_keys m); h = lm_header m in
      if n < unat (mh_num_required_signatures h) + unat (mh_num_readonly_unsigned_accounts h)
      then Inl IndexOutOfBounds
      else if mh_num_required_signatures h \<le> mh_num_readonly_signed_accounts h
      then Inl IndexOutOfBounds
      else if list_all (ci_in_bounds n n) (lm_instructions m) then Inr () else Inl IndexOutOfBounds)"

definition called_as_program :: "compiled_instruction list \<Rightarrow> nat \<Rightarrow> bool" where
  "called_as_program cis i \<longleftrightarrow>
     i < 256 \<and> list_ex (\<lambda>ci. ci_program_id_index ci = of_nat i) cis"

definition key_passed_to_program :: "compiled_instruction list \<Rightarrow> nat \<Rightarrow> bool" where
  "key_passed_to_program cis i \<longleftrightarrow>
     i < 256 \<and> list_ex (\<lambda>ci. of_nat i \<in> set (ci_accounts ci)) cis"

definition loader_present :: "pubkey list \<Rightarrow> bool" where
  "loader_present keys \<longleftrightarrow> list_ex (\<lambda>key. key = bpf_loader_upgradeable_id) keys"

definition legacy_demote_program_id :: "legacy_message \<Rightarrow> nat \<Rightarrow> bool" where
  "legacy_demote_program_id m i \<longleftrightarrow>
     called_as_program (lm_instructions m) i \<and> \<not> loader_present (lm_account_keys m)"

text \<open>
  \<^verbatim>\<open>Message::is_writable\<close>: the header subtractions wrap as in a release build, and the key access
  panics out of range.
\<close>

definition legacy_is_writable :: "legacy_message \<Rightarrow> nat \<Rightarrow> bool option" where
  "legacy_is_writable m i =
     (let h = lm_header m; n = length (lm_account_keys m) in
      if i < unat (mh_num_required_signatures h - mh_num_readonly_signed_accounts h) \<or>
         (unat (mh_num_required_signatures h) \<le> i \<and>
          i < unat (of_nat n - ucast (mh_num_readonly_unsigned_accounts h) :: u64))
      then map_option
             (\<lambda>key. \<not> is_builtin_key_or_sysvar key \<and> \<not> legacy_demote_program_id m i)
             (get (lm_account_keys m) i)
      else Some False)"

definition legacy_is_signer :: "legacy_message \<Rightarrow> nat \<Rightarrow> bool" where
  "legacy_is_signer m i \<longleftrightarrow> i < unat (mh_num_required_signatures (lm_header m))"

definition legacy_program_id :: "legacy_message \<Rightarrow> nat \<Rightarrow> pubkey option option" where
  "legacy_program_id m k =
     (case get (lm_instructions m) k of
        None \<Rightarrow> Some None
      | Some ci \<Rightarrow> map_option Some (get (lm_account_keys m) (unat (ci_program_id_index ci))))"

definition signer_keys :: "legacy_message \<Rightarrow> pubkey list" where
  "signer_keys m =
     take (min (length (lm_account_keys m)) (unat (mh_num_required_signatures (lm_header m))))
       (lm_account_keys m)"

text \<open>The quadratic search for duplicates: each key is looked up among the keys after it.\<close>

fun dup_loop :: "pubkey list \<Rightarrow> nat list \<Rightarrow> bool" where
  "dup_loop keys [] = False"
| "dup_loop keys (i # is) =
     (if keys ! (i - 1) \<in> set (drop i keys) then True else dup_loop keys is)"

definition legacy_has_duplicates :: "legacy_message \<Rightarrow> bool" where
  "legacy_has_duplicates m = dup_loop (lm_account_keys m) [1..<length (lm_account_keys m)]"

section \<open>Version 0 messages\<close>

record address_table_lookup =
  atl_account_key :: pubkey
  atl_writable_indexes :: "u8 list"
  atl_readonly_indexes :: "u8 list"

record v0_message =
  v0_header :: message_header
  v0_account_keys :: "pubkey list"
  v0_recent_blockhash :: hash
  v0_instructions :: "compiled_instruction list"
  v0_address_table_lookups :: "address_table_lookup list"

record loaded_addresses =
  la_writable :: "pubkey list"
  la_readonly :: "pubkey list"

definition collect_loaded_addresses :: "loaded_addresses list \<Rightarrow> loaded_addresses" where
  "collect_loaded_addresses las =
     \<lparr>la_writable = concat (map la_writable las), la_readonly = concat (map la_readonly las)\<rparr>"

fun lookup_keys_loop :: "address_table_lookup list \<Rightarrow> nat \<Rightarrow> sanitize_error + nat" where
  "lookup_keys_loop [] acc = Inr acc"
| "lookup_keys_loop (l # ls) acc =
     (let n = length (atl_writable_indexes l) + length (atl_readonly_indexes l) in
      if n = 0 then Inl InvalidValue else lookup_keys_loop ls (acc + n))"

definition v0_sanitize :: "v0_message \<Rightarrow> sanitize_error + unit" where
  "v0_sanitize m =
     (let n = length (v0_account_keys m); h = v0_header m in
      if n < unat (mh_num_required_signatures h) + unat (mh_num_readonly_unsigned_accounts h)
      then Inl IndexOutOfBounds
      else if mh_num_required_signatures h \<le> mh_num_readonly_signed_accounts h
      then Inl InvalidValue
      else and_then (lookup_keys_loop (v0_address_table_lookups m) 0) (\<lambda>dynamic.
        if n = 0 then Inl InvalidValue
        else if 256 < n + dynamic then Inl IndexOutOfBounds
        else if list_all (ci_in_bounds n (n + dynamic)) (v0_instructions m)
        then Inr () else Inl IndexOutOfBounds))"

record account_keys =
  ak_static_keys :: "pubkey list"
  ak_dynamic_keys :: "loaded_addresses option"

definition key_segments :: "account_keys \<Rightarrow> pubkey list list" where
  "key_segments ak =
     (case ak_dynamic_keys ak of
        Some d \<Rightarrow> [ak_static_keys ak, la_writable d, la_readonly d]
      | None \<Rightarrow> [ak_static_keys ak, [], []])"

fun segment_get :: "pubkey list list \<Rightarrow> nat \<Rightarrow> pubkey option" where
  "segment_get [] index = None"
| "segment_get (s # ss) index =
     (if index < length s then Some (s ! index) else segment_get ss (index - length s))"

definition ak_get :: "account_keys \<Rightarrow> nat \<Rightarrow> pubkey option" where
  "ak_get ak index = segment_get (key_segments ak) index"

definition ak_len :: "account_keys \<Rightarrow> nat" where
  "ak_len ak = sum_list (map length (key_segments ak))"

definition ak_iter :: "account_keys \<Rightarrow> pubkey list" where
  "ak_iter ak = concat (key_segments ak)"

fun account_index_map :: "pubkey list \<Rightarrow> nat \<Rightarrow> (pubkey \<times> u8) list \<Rightarrow> compile_error + (pubkey \<times> u8) list" where
  "account_index_map [] index m = Inr m"
| "account_index_map (key # keys) index m =
     and_then (u8_try_from AccountIndexOverflow index) (\<lambda>i.
       account_index_map keys (Suc index) (bt_entry key i (\<lambda>_. i) m))"

definition get_account_index :: "(pubkey \<times> u8) list \<Rightarrow> pubkey \<Rightarrow> compile_error + u8" where
  "get_account_index m key =
     (case map_of m key of None \<Rightarrow> Inl (UnknownInstructionKey key) | Some i \<Rightarrow> Inr i)"

definition try_compile_instructions ::
    "account_keys \<Rightarrow> instruction list \<Rightarrow> compile_error + compiled_instruction list" where
  "try_compile_instructions ak ixs =
     and_then (account_index_map (ak_iter ak) 0 []) (\<lambda>m.
       collect_res (map (\<lambda>ix.
         and_then (collect_res (map (\<lambda>am. get_account_index m (am_pubkey am)) (ix_accounts ix))) (\<lambda>accounts.
         and_then (get_account_index m (ix_program_id ix)) (\<lambda>p.
           Inr \<lparr>ci_program_id_index = p, ci_accounts = accounts, ci_data = ix_data ix\<rparr>))) ixs))"

fun drain_loop ::
    "pubkey list \<Rightarrow> pubkey list \<Rightarrow> u8 list \<Rightarrow> pubkey list \<Rightarrow> compile_error + u8 list \<times> pubkey list" where
  "drain_loop table [] indexes drained = Inr (indexes, drained)"
| "drain_loop table (search # keys) indexes drained =
     (case position (\<lambda>key. key = search) table of
        None \<Rightarrow> drain_loop table keys indexes drained
      | Some i \<Rightarrow>
          and_then (u8_try_from AddressTableLookupIndexOverflow i) (\<lambda>index.
            drain_loop table keys (indexes @ [index]) (drained @ [search])))"

definition try_drain_keys ::
    "pubkey list \<Rightarrow> (key_meta \<Rightarrow> bool) \<Rightarrow> compiled_keys \<Rightarrow>
     compile_error + (u8 list \<times> pubkey list) \<times> compiled_keys" where
  "try_drain_keys table f ck =
     and_then (drain_loop table (keys_with f (ck_key_meta_map ck)) [] []) (\<lambda>(indexes, drained).
       Inr ((indexes, drained),
            ck\<lparr>ck_key_meta_map := fold bt_remove drained (ck_key_meta_map ck)\<rparr>))"

record lookup_table_account =
  lta_key :: pubkey
  lta_addresses :: "pubkey list"

definition try_extract_table_lookup ::
    "lookup_table_account \<Rightarrow> compiled_keys \<Rightarrow>
     compile_error + (address_table_lookup \<times> loaded_addresses) option \<times> compiled_keys" where
  "try_extract_table_lookup lta ck =
     and_then (try_drain_keys (lta_addresses lta)
       (\<lambda>meta. \<not> km_is_signer meta \<and> \<not> km_is_invoked meta \<and> km_is_writable meta) ck)
     (\<lambda>((writable_indexes, writable_keys), ck1).
     and_then (try_drain_keys (lta_addresses lta)
       (\<lambda>meta. \<not> km_is_signer meta \<and> \<not> km_is_invoked meta \<and> \<not> km_is_writable meta) ck1)
     (\<lambda>((readonly_indexes, readonly_keys), ck2).
       if writable_indexes = [] \<and> readonly_indexes = [] then Inr (None, ck2)
       else Inr (Some (\<lparr>atl_account_key = lta_key lta, atl_writable_indexes = writable_indexes,
                        atl_readonly_indexes = readonly_indexes\<rparr>,
                       \<lparr>la_writable = writable_keys, la_readonly = readonly_keys\<rparr>), ck2)))"

fun extract_lookups ::
    "lookup_table_account list \<Rightarrow> compiled_keys \<Rightarrow>
     compile_error + (address_table_lookup \<times> loaded_addresses) list \<times> compiled_keys" where
  "extract_lookups [] ck = Inr ([], ck)"
| "extract_lookups (lta # ltas) ck =
     and_then (try_extract_table_lookup lta ck) (\<lambda>(found, ck1).
     and_then (extract_lookups ltas ck1) (\<lambda>(rest, ck2).
       Inr ((case found of None \<Rightarrow> rest | Some l \<Rightarrow> l # rest), ck2)))"

definition try_compile ::
    "pubkey \<Rightarrow> instruction list \<Rightarrow> lookup_table_account list \<Rightarrow> hash \<Rightarrow> compile_error + v0_message" where
  "try_compile payer ixs tables blockhash =
     and_then (extract_lookups tables (ck_compile ixs (Some payer))) (\<lambda>(lookups, ck).
     and_then (try_into_message_components ck) (\<lambda>(header, static_keys).
     and_then (try_compile_instructions
         \<lparr>ak_static_keys = static_keys,
          ak_dynamic_keys = Some (collect_loaded_addresses (map snd lookups))\<rparr> ixs) (\<lambda>cis.
       Inr \<lparr>v0_header = header, v0_account_keys = static_keys, v0_recent_blockhash = blockhash,
            v0_instructions = cis, v0_address_table_lookups = map fst lookups\<rparr>)))"

section \<open>Loaded and sanitized messages\<close>

record loaded_message =
  ldm_message :: v0_message
  ldm_loaded_addresses :: loaded_addresses
  ldm_is_writable_cache :: "bool list"

definition ldm_account_keys :: "loaded_message \<Rightarrow> account_keys" where
  "ldm_account_keys m =
     \<lparr>ak_static_keys = v0_account_keys (ldm_message m),
      ak_dynamic_keys = Some (ldm_loaded_addresses m)\<rparr>"

definition ldm_is_writable_index :: "loaded_message \<Rightarrow> nat \<Rightarrow> bool" where
  "ldm_is_writable_index m i =
     (let h = v0_header (ldm_message m);
          n = length (v0_account_keys (ldm_message m));
          signed = unat (mh_num_required_signatures h)
      in if n \<le> i then i - n < length (la_writable (ldm_loaded_addresses m))
         else if signed \<le> i
         then i - signed < n - signed - unat (mh_num_readonly_unsigned_accounts h)
         else i < signed - unat (mh_num_readonly_signed_accounts h))"

definition ldm_demote_program_id :: "loaded_message \<Rightarrow> nat \<Rightarrow> bool" where
  "ldm_demote_program_id m i \<longleftrightarrow>
     called_as_program (v0_instructions (ldm_message m)) i \<and>
     \<not> loader_present (ak_iter (ldm_account_keys m))"

definition ldm_is_writable_internal :: "loaded_message \<Rightarrow> nat \<Rightarrow> bool" where
  "ldm_is_writable_internal m i =
     (if ldm_is_writable_index m i
      then case ak_get (ldm_account_keys m) i of
             Some key \<Rightarrow> \<not> (is_builtin_key_or_sysvar key \<or> ldm_demote_program_id m i)
           | None \<Rightarrow> False
      else False)"

definition loaded_message_new :: "v0_message \<Rightarrow> loaded_addresses \<Rightarrow> loaded_message" where
  "loaded_message_new m la =
     (let ldm = \<lparr>ldm_message = m, ldm_loaded_addresses = la, ldm_is_writable_cache = []\<rparr>
      in ldm\<lparr>ldm_is_writable_cache :=
           map (ldm_is_writable_internal ldm) [0..<length (ak_iter (ldm_account_keys ldm))]\<rparr>)"

definition ldm_is_writable :: "loaded_message \<Rightarrow> nat \<Rightarrow> bool" where
  "ldm_is_writable m i = (case get (ldm_is_writable_cache m) i of None \<Rightarrow> False | Some b \<Rightarrow> b)"

text \<open>The set-based search for duplicates: the first key that is already in the set is one.\<close>

fun any_seen :: "pubkey list \<Rightarrow> pubkey set \<Rightarrow> bool" where
  "any_seen [] uniq = False"
| "any_seen (x # xs) uniq = (if x \<in> uniq then True else any_seen xs (insert x uniq))"

definition ldm_has_duplicates :: "loaded_message \<Rightarrow> bool" where
  "ldm_has_duplicates m = any_seen (ak_iter (ldm_account_keys m)) {}"

record cached_legacy_message =
  clm_message :: legacy_message
  clm_is_writable_cache :: "bool list"

definition cached_legacy_new :: "legacy_message \<Rightarrow> cached_legacy_message option" where
  "cached_legacy_new m =
     map_option (\<lambda>cache. \<lparr>clm_message = m, clm_is_writable_cache = cache\<rparr>)
       (collect_opt (map (legacy_is_writable m) [0..<length (lm_account_keys m)]))"

datatype sanitized_message = LegacyMsg cached_legacy_message | V0Msg loaded_message

definition try_from_legacy :: "legacy_message \<Rightarrow> (sanitize_error + sanitized_message) option" where
  "try_from_legacy m =
     (case legacy_sanitize m of
        Inl e \<Rightarrow> Some (Inl e)
      | Inr _ \<Rightarrow> map_option (\<lambda>c. Inr (LegacyMsg c)) (cached_legacy_new m))"

fun sm_header :: "sanitized_message \<Rightarrow> message_header" where
  "sm_header (LegacyMsg c) = lm_header (clm_message c)"
| "sm_header (V0Msg l) = v0_header (ldm_message l)"

fun sm_instructions :: "sanitized_message \<Rightarrow> compiled_instruction list" where
  "sm_instructions (LegacyMsg c) = lm_instructions (clm_message c)"
| "sm_instructions (V0Msg l) = v0_instructions (ldm_message l)"

fun sm_recent_blockhash :: "sanitized_message \<Rightarrow> hash" where
  "sm_recent_blockhash (LegacyMsg c) = lm_recent_blockhash (clm_message c)"
| "sm_recent_blockhash (V0Msg l) = v0_recent_blockhash (ldm_message l)"

fun sm_account_keys :: "sanitized_message \<Rightarrow> account_keys" where
  "sm_account_keys (LegacyMsg c) =
     \<lparr>ak_static_keys = lm_account_keys (clm_message c), ak_dynamic_keys = None\<rparr>"
| "sm_account_keys (V0Msg l) = ldm_account_keys l"

fun sm_is_writable :: "sanitized_message \<Rightarrow> nat \<Rightarrow> bool" where
  "sm_is_writable (LegacyMsg c) i =
     (case get (clm_is_writable_cache c) i of None \<Rightarrow> False | Some b \<Rightarrow> b)"
| "sm_is_writable (V0Msg l) i = ldm_is_writable l i"

definition sm_is_signer :: "sanitized_message \<Rightarrow> nat \<Rightarrow> bool" where
  "sm_is_signer m i \<longleftrightarrow> i < unat (mh_num_required_signatures (sm_header m))"

fun sm_has_duplicates :: "sanitized_message \<Rightarrow> bool" where
  "sm_has_duplicates (LegacyMsg c) = legacy_has_duplicates (clm_message c)"
| "sm_has_duplicates (V0Msg l) = ldm_has_duplicates l"

definition sm_fee_payer :: "sanitized_message \<Rightarrow> pubkey option" where
  "sm_fee_payer m = ak_get (sm_account_keys m) 0"

definition program_instructions_iter ::
    "sanitized_message \<Rightarrow> (pubkey \<times> compiled_instruction) list option" where
  "program_instructions_iter m =
     collect_opt (map (\<lambda>ci. map_option (\<lambda>key. (key, ci))
       (ak_get (sm_account_keys m) (unat (ci_program_id_index ci)))) (sm_instructions m))"

definition sm_is_invoked :: "sanitized_message \<Rightarrow> nat \<Rightarrow> bool" where
  "sm_is_invoked m i = called_as_program (sm_instructions m) i"

definition is_non_loader_key :: "sanitized_message \<Rightarrow> nat \<Rightarrow> bool" where
  "is_non_loader_key m i \<longleftrightarrow> \<not> sm_is_invoked m i \<or> key_passed_to_program (sm_instructions m) i"

definition num_readonly_accounts :: "sanitized_message \<Rightarrow> nat" where
  "num_readonly_accounts m =
     (case m of LegacyMsg _ \<Rightarrow> 0 | V0Msg l \<Rightarrow> length (la_readonly (ldm_loaded_addresses l))) +
     unat (mh_num_readonly_signed_accounts (sm_header m)) +
     unat (mh_num_readonly_unsigned_accounts (sm_header m))"

definition num_write_locks :: "sanitized_message \<Rightarrow> nat" where
  "num_write_locks m = ak_len (sm_account_keys m) - num_readonly_accounts m"

definition decompile_instructions :: "sanitized_message \<Rightarrow> instruction list option" where
  "decompile_instructions m =
     (case program_instructions_iter m of
        None \<Rightarrow> None
      | Some pis \<Rightarrow>
          collect_opt (map (\<lambda>(program_id, ci).
            map_option (\<lambda>ams. \<lparr>ix_program_id = program_id, ix_accounts = ams, ix_data = ci_data ci\<rparr>)
              (collect_opt (map (\<lambda>ai.
                 map_option (\<lambda>key. \<lparr>am_pubkey = key, am_is_signer = sm_is_signer m (unat ai),
                                   am_is_writable = sm_is_writable m (unat ai)\<rparr>)
                   (ak_get (sm_account_keys m) (unat ai))) (ci_accounts ci)))) pis))"

definition get_ix_signers :: "sanitized_message \<Rightarrow> nat \<Rightarrow> pubkey list" where
  "get_ix_signers m k =
     (case get (sm_instructions m) k of
        None \<Rightarrow> []
      | Some ci \<Rightarrow>
          List.map_filter (ak_get (sm_account_keys m))
            (filter (sm_is_signer m) (map unat (ci_accounts ci))))"

record signature_details =
  sd_num_transaction_signatures :: u64
  sd_num_secp256k1_instruction_signatures :: u64
  sd_num_ed25519_instruction_signatures :: u64

definition count_precompile :: "pubkey \<times> compiled_instruction \<Rightarrow> signature_details \<Rightarrow> signature_details" where
  "count_precompile pi sd =
     (case pi of (program_id, ci) \<Rightarrow>
      if program_id = secp256k1_program_id then
        (case ci_data ci of [] \<Rightarrow> sd
         | n # _ \<Rightarrow> sd\<lparr>sd_num_secp256k1_instruction_signatures :=
             saturating_add (sd_num_secp256k1_instruction_signatures sd) (ucast n)\<rparr>)
      else if program_id = ed25519_program_id then
        (case ci_data ci of [] \<Rightarrow> sd
         | n # _ \<Rightarrow> sd\<lparr>sd_num_ed25519_instruction_signatures :=
             saturating_add (sd_num_ed25519_instruction_signatures sd) (ucast n)\<rparr>)
      else sd)"

definition get_signature_details :: "sanitized_message \<Rightarrow> signature_details option" where
  "get_signature_details m =
     map_option
       (\<lambda>pis. fold count_precompile pis
          \<lparr>sd_num_transaction_signatures = ucast (mh_num_required_signatures (sm_header m)),
           sd_num_secp256k1_instruction_signatures = 0, sd_num_ed25519_instruction_signatures = 0\<rparr>)
       (program_instructions_iter m)"

definition total_signatures :: "signature_details \<Rightarrow> u64" where
  "total_signatures sd =
     saturating_add
       (saturating_add (sd_num_transaction_signatures sd) (sd_num_secp256k1_instruction_signatures sd))
       (sd_num_ed25519_instruction_signatures sd)"

definition num_signatures :: "sanitized_message \<Rightarrow> u64 option" where
  "num_signatures m = map_option total_signatures (get_signature_details m)"

end
