(* ===== verification/Message_Properties.thy ===== *)
theory Message_Properties
  imports Message
begin

text \<open>
  What the message operations guarantee: the first-byte table in front of the reserved-key lists
  never changes an answer, both duplicate searches find exactly the repeated keys, a sanitized
  legacy message has the same write permissions as the version 0 message with the same fields,
  a compiled message gives its instructions back, and no index of a sanitized message leads out of
  its account keys.
\<close>

section \<open>Reserved keys and duplicates\<close>

lemma flag_table:
  assumes "length table = 256" and "i < 256"
  shows "length (fold (\<lambda>key t. t[unat (first_byte key) := True]) keys table) = 256 \<and>
    fold (\<lambda>key t. t[unat (first_byte key) := True]) keys table ! i =
      (table ! i \<or> (\<exists>key \<in> set keys. unat (first_byte key) = i))"
  using assms
proof (induction keys arbitrary: table)
  case (Cons k keys)
  have "unat (first_byte k) < 256" using unsigned_less [of "first_byte k"] by simp
  with Cons show ?case by (auto simp: nth_list_update)
qed simp

text \<open>
  The reserved-key test with its table of first bytes answers exactly whether the key is one of
  the builtin programs or sysvars.
\<close>

theorem builtin_table_exact:
  "is_builtin_key_or_sysvar key \<longleftrightarrow> key \<in> set (BUILTIN_PROGRAMS_KEYS @ ALL_IDS)"
proof -
  have "unat (first_byte key) < 256" using unsigned_less [of "first_byte key"] by simp
  then have "MAYBE_BUILTIN_KEY_OR_SYSVAR ! unat (first_byte key) \<longleftrightarrow>
      (\<exists>k \<in> set (BUILTIN_PROGRAMS_KEYS @ ALL_IDS). first_byte k = first_byte key)"
    unfolding MAYBE_BUILTIN_KEY_OR_SYSVAR_def
    using flag_table [of "replicate 256 False" "unat (first_byte key)" "BUILTIN_PROGRAMS_KEYS @ ALL_IDS"]
    by (simp del: fold_append set_append add: word_unat_eq_iff)
  moreover have "is_sysvar_id key \<longleftrightarrow> key \<in> set ALL_IDS"
    by (auto simp: is_sysvar_id_def list_ex_iff)
  ultimately show ?thesis
    by (auto simp: is_builtin_key_or_sysvar_def)
qed

lemma dup_loop_iff:
  "dup_loop keys is \<longleftrightarrow> (\<exists>i \<in> set is. keys ! (i - 1) \<in> set (drop i keys))"
  by (induction "is") auto

lemma legacy_has_duplicates_iff: "legacy_has_duplicates m \<longleftrightarrow> \<not> distinct (lm_account_keys m)"
proof -
  let ?keys = "lm_account_keys m"
  have "distinct ?keys \<longleftrightarrow> (\<forall>i \<in> set [1..<length ?keys]. ?keys ! (i - 1) \<notin> set (drop i ?keys))"
  proof
    assume d: "distinct ?keys"
    show "\<forall>i \<in> set [1..<length ?keys]. ?keys ! (i - 1) \<notin> set (drop i ?keys)"
    proof
      fix i assume i: "i \<in> set [1..<length ?keys]"
      then have "drop (i - 1) ?keys = ?keys ! (i - 1) # drop i ?keys"
        using Cons_nth_drop_Suc [of "i - 1" ?keys] by auto
      then show "?keys ! (i - 1) \<notin> set (drop i ?keys)" using d by (metis distinct.simps(2) distinct_drop)
    qed
  next
    assume r: "\<forall>i \<in> set [1..<length ?keys]. ?keys ! (i - 1) \<notin> set (drop i ?keys)"
    have "?keys ! i \<noteq> ?keys ! j" if "i < j" "j < length ?keys" for i j
    proof -
      have "?keys ! j \<in> set (drop (Suc i) ?keys)"
        using that by (auto simp: in_set_conv_nth intro!: exI [of _ "j - Suc i"])
      moreover have "?keys ! (Suc i - 1) \<notin> set (drop (Suc i) ?keys)"
        using r that by (intro bspec [OF r]) auto
      ultimately show ?thesis by auto
    qed
    then show "distinct ?keys" by (metis distinct_conv_nth linorder_neqE_nat)
  qed
  then show ?thesis by (auto simp: legacy_has_duplicates_def dup_loop_iff)
qed

lemma any_seen_iff: "any_seen xs uniq \<longleftrightarrow> \<not> distinct xs \<or> set xs \<inter> uniq \<noteq> {}"
  by (induction xs arbitrary: uniq) auto

lemma has_duplicates_distinct: "sm_has_duplicates m \<longleftrightarrow> \<not> distinct (ak_iter (sm_account_keys m))"
  by (cases m) (auto simp: legacy_has_duplicates_iff ldm_has_duplicates_def any_seen_iff
      ak_iter_def key_segments_def)

text \<open>
  Duplicate keys: for both message versions the runtime's search, quadratic for legacy messages
  and set-based for version 0, reports a duplicate exactly when two of the loaded keys are equal.
\<close>

theorem has_duplicates_exact:
  "sm_has_duplicates m \<longleftrightarrow> \<not> distinct (ak_iter (sm_account_keys m))"
  by (rule has_duplicates_distinct)

section \<open>Write permissions\<close>

lemma segment_get_concat: "segment_get ss i = get (concat ss) i"
  by (induction ss arbitrary: i) (auto simp: get_def nth_append)

lemma ak_get_iter: "ak_get ak i = get (ak_iter ak) i"
  by (simp add: ak_get_def ak_iter_def segment_get_concat)

lemma collect_opt_map: "collect_opt (map (\<lambda>x. Some (f x)) xs) = Some (map f xs)"
  by (simp add: collect_opt_Some)

text \<open>A version 0 message with the fields of a legacy message and no table lookups.\<close>

definition v0_of_legacy :: "legacy_message \<Rightarrow> v0_message" where
  "v0_of_legacy m =
     \<lparr>v0_header = lm_header m, v0_account_keys = lm_account_keys m,
      v0_recent_blockhash = lm_recent_blockhash m, v0_instructions = lm_instructions m,
      v0_address_table_lookups = []\<rparr>"

abbreviation no_addresses :: loaded_addresses where
  "no_addresses \<equiv> \<lparr>la_writable = [], la_readonly = []\<rparr>"

lemma unat_of_nat_u64: "n < 2 ^ 64 \<Longrightarrow> unat (of_nat n :: u64) = n"
  by (simp add: unsigned_of_nat take_bit_nat_eq_self)

lemma legacy_is_writable_sanitized:
  assumes "legacy_sanitize m = Inr ()" and "length (lm_account_keys m) < 2 ^ 64"
    and "i < length (lm_account_keys m)"
  shows "legacy_is_writable m i =
    Some (ldm_is_writable_internal
      \<lparr>ldm_message = v0_of_legacy m, ldm_loaded_addresses = no_addresses, ldm_is_writable_cache = []\<rparr> i)"
proof -
  let ?h = "lm_header m" and ?n = "length (lm_account_keys m)"
  have s: "unat (mh_num_required_signatures ?h) + unat (mh_num_readonly_unsigned_accounts ?h) \<le> ?n"
      "mh_num_readonly_signed_accounts ?h < mh_num_required_signatures ?h"
    using assms(1) by (auto simp: legacy_sanitize_def Let_def split: if_splits)
  have w: "unat (mh_num_required_signatures ?h - mh_num_readonly_signed_accounts ?h) =
      unat (mh_num_required_signatures ?h) - unat (mh_num_readonly_signed_accounts ?h)"
    using s(2) by (simp add: unat_sub)
  have "unat (of_nat ?n :: u64) = ?n" using assms(2) by (rule unat_of_nat_u64)
  then have n: "unat (of_nat ?n - ucast (mh_num_readonly_unsigned_accounts ?h) :: u64) =
      ?n - unat (mh_num_readonly_unsigned_accounts ?h)"
    using s(1) by (subst unat_sub) (simp_all add: word_le_nat_alt unat_ucast_upward)
  have "get (lm_account_keys m) i = Some (lm_account_keys m ! i)" using assms(3) by (simp add: get_def)
  then show ?thesis
    using assms(3) s unfolding legacy_is_writable_def Let_def w n
    by (auto simp: ldm_is_writable_internal_def ldm_is_writable_index_def Let_def v0_of_legacy_def
        ldm_account_keys_def ak_get_iter ak_iter_def key_segments_def ldm_demote_program_id_def
        legacy_demote_program_id_def word_less_nat_alt)
qed

text \<open>
  (C33) Both message versions grant the same permissions: sanitizing a legacy message never panics, and
  when it succeeds each key is writable exactly when it is in the version 0 message with the same
  header, keys and instructions and no lookup tables.
\<close>

theorem legacy_v0_writable_agree:
  assumes "legacy_sanitize m = Inr ()" and "length (lm_account_keys m) < 2 ^ 64"
  shows "\<exists>sm. try_from_legacy m = Some (Inr sm) \<and>
    (\<forall>i. sm_is_writable sm i =
       sm_is_writable (V0Msg (loaded_message_new (v0_of_legacy m) no_addresses)) i)"
proof -
  let ?ldm = "\<lparr>ldm_message = v0_of_legacy m, ldm_loaded_addresses = no_addresses, ldm_is_writable_cache = []\<rparr>"
  let ?cache = "map (ldm_is_writable_internal ?ldm) [0..<length (lm_account_keys m)]"
  have "map (legacy_is_writable m) [0..<length (lm_account_keys m)] = map Some ?cache"
    using legacy_is_writable_sanitized [OF assms] by simp
  then have "cached_legacy_new m = Some \<lparr>clm_message = m, clm_is_writable_cache = ?cache\<rparr>"
    by (simp only: cached_legacy_new_def) (simp add: collect_opt_Some)
  with assms(1) show ?thesis
    by (simp add: try_from_legacy_def ldm_is_writable_def loaded_message_new_def Let_def
        ldm_account_keys_def ak_iter_def key_segments_def v0_of_legacy_def)
qed

theorem legacy_v0_writable_agree_witness:
  "\<exists>sm. try_from_legacy
       \<lparr>lm_header = \<lparr>mh_num_required_signatures = 1, mh_num_readonly_signed_accounts = 0,
                    mh_num_readonly_unsigned_accounts = 1\<rparr>,
        lm_account_keys = [Pubkey (replicate 32 7), system_program_id],
        lm_recent_blockhash = hash_default,
        lm_instructions = [\<lparr>ci_program_id_index = 1, ci_accounts = [0], ci_data = []\<rparr>]\<rparr> = Some (Inr sm)"
  (is "\<exists>sm. try_from_legacy ?m = _")
proof -
  have "legacy_sanitize ?m = Inr ()" by (simp add: legacy_sanitize_def ci_in_bounds_def)
  from legacy_v0_writable_agree [OF this] show ?thesis by (auto simp del: replicate.simps)
qed

section \<open>Compilation\<close>

text \<open>The flags a key map records, and what the instructions and the payer ask for.\<close>

definition flag :: "(key_meta \<Rightarrow> bool) \<Rightarrow> (pubkey \<times> key_meta) list \<Rightarrow> pubkey \<Rightarrow> bool" where
  "flag f m key = (case map_of m key of None \<Rightarrow> False | Some meta \<Rightarrow> f meta)"

definition mentioned :: "instruction list \<Rightarrow> pubkey set" where
  "mentioned ixs = (\<Union>ix \<in> set ixs. insert (ix_program_id ix) (am_pubkey ` set (ix_accounts ix)))"

definition wants :: "(account_meta \<Rightarrow> bool) \<Rightarrow> instruction list \<Rightarrow> pubkey \<Rightarrow> bool" where
  "wants f ixs key \<longleftrightarrow>
     (\<exists>ix \<in> set ixs. \<exists>am \<in> set (ix_accounts ix). am_pubkey am = key \<and> f am)"

lemma compile_account_facts:
  assumes "bt_ok m"
  shows "bt_ok (compile_account am m)"
    and "fst ` set (compile_account am m) = insert (am_pubkey am) (fst ` set m)"
    and "flag km_is_signer (compile_account am m) key \<longleftrightarrow>
      flag km_is_signer m key \<or> am_pubkey am = key \<and> am_is_signer am"
    and "flag km_is_writable (compile_account am m) key \<longleftrightarrow>
      flag km_is_writable m key \<or> am_pubkey am = key \<and> am_is_writable am"
  using assms
  by (auto simp: compile_account_def bt_entry_ok keys_bt_entry flag_def map_of_bt_entry split: option.splits)

lemma compile_accounts_facts:
  assumes "bt_ok m"
  shows "bt_ok (fold compile_account ams m) \<and>
    fst ` set (fold compile_account ams m) = am_pubkey ` set ams \<union> fst ` set m \<and>
    (flag km_is_signer (fold compile_account ams m) key \<longleftrightarrow>
      flag km_is_signer m key \<or> (\<exists>am \<in> set ams. am_pubkey am = key \<and> am_is_signer am)) \<and>
    (flag km_is_writable (fold compile_account ams m) key \<longleftrightarrow>
      flag km_is_writable m key \<or> (\<exists>am \<in> set ams. am_pubkey am = key \<and> am_is_writable am))"
  using assms
proof (induction ams arbitrary: m)
  case (Cons am ams)
  show ?case
    using Cons.IH [OF compile_account_facts(1) [OF Cons.prems]] compile_account_facts [OF Cons.prems]
    by auto
qed simp

lemma compile_ixs_facts:
  assumes "bt_ok m"
  shows "bt_ok (fold compile_ix ixs m) \<and>
    fst ` set (fold compile_ix ixs m) = mentioned ixs \<union> fst ` set m \<and>
    (flag km_is_signer (fold compile_ix ixs m) key \<longleftrightarrow> flag km_is_signer m key \<or> wants am_is_signer ixs key) \<and>
    (flag km_is_writable (fold compile_ix ixs m) key \<longleftrightarrow>
      flag km_is_writable m key \<or> wants am_is_writable ixs key)"
  using assms
proof (induction ixs arbitrary: m)
  case (Cons ix ixs)
  let ?p = "bt_entry (ix_program_id ix) key_meta_default (\<lambda>meta. meta\<lparr>km_is_invoked := True\<rparr>) m"
  have p: "bt_ok ?p" "fst ` set ?p = insert (ix_program_id ix) (fst ` set m)"
      "flag km_is_signer ?p key = flag km_is_signer m key"
      "flag km_is_writable ?p key = flag km_is_writable m key"
    using Cons.prems by (auto simp: bt_entry_ok keys_bt_entry flag_def map_of_bt_entry split: option.splits)
  note a = compile_accounts_facts [OF p(1), of "ix_accounts ix" key]
  have "bt_ok (compile_ix ix m)" using a by (simp add: compile_ix_def)
  note IH = Cons.IH [OF this]
  show ?case using IH a p by (auto simp: compile_ix_def mentioned_def wants_def)
qed (auto simp: mentioned_def wants_def)

text \<open>The key map of a compilation with a payer, after the payer was taken out.\<close>

lemma compiled_map_facts:
  assumes "m = bt_remove p (ck_key_meta_map (ck_compile ixs (Some p)))"
  shows "bt_ok m" and "fst ` set m = mentioned ixs - {p}"
    and "key \<noteq> p \<Longrightarrow> flag km_is_signer m key = wants am_is_signer ixs key"
    and "key \<noteq> p \<Longrightarrow> flag km_is_writable m key = wants am_is_writable ixs key"
proof -
  have f: "bt_ok (fold compile_ix ixs [])" "fst ` set (fold compile_ix ixs []) = mentioned ixs"
      "flag km_is_signer (fold compile_ix ixs []) key = wants am_is_signer ixs key"
      "flag km_is_writable (fold compile_ix ixs []) key = wants am_is_writable ixs key"
    using compile_ixs_facts [of "[]" ixs key] by (simp_all add: bt_ok_def flag_def)
  show "bt_ok m" using f(1) by (simp add: assms ck_compile_def compile_payer_def bt_entry_ok bt_remove_ok)
  have "fst ` set (ck_key_meta_map (ck_compile ixs (Some p))) = insert p (mentioned ixs)"
    using f(2) by (simp add: ck_compile_def compile_payer_def keys_bt_entry)
  then show "fst ` set m = mentioned ixs - {p}" by (auto simp: assms bt_remove_def)
  show "key \<noteq> p \<Longrightarrow> flag km_is_signer m key = wants am_is_signer ixs key"
    and "key \<noteq> p \<Longrightarrow> flag km_is_writable m key = wants am_is_writable ixs key"
    using f by (auto simp: assms ck_compile_def compile_payer_def flag_def map_of_bt_remove map_of_bt_entry)
qed

lemma keys_with_facts:
  assumes "bt_ok m"
  shows "distinct (keys_with f m)" and "set (keys_with f m) \<subseteq> fst ` set m"
    and "key \<in> fst ` set m \<Longrightarrow> key \<in> set (keys_with f m) \<longleftrightarrow> flag f m key"
proof -
  note d = bt_ok_distinct [OF assms]
  show "distinct (keys_with f m)" unfolding keys_with_def using d by (rule distinct_map_filter)
  show "set (keys_with f m) \<subseteq> fst ` set m" by (auto simp: keys_with_def)
  assume "key \<in> fst ` set m"
  then obtain meta where meta: "(key, meta) \<in> set m" by force
  then have "map_of m key = Some meta" using d by simp
  moreover have "key \<in> set (keys_with f m) \<longleftrightarrow> f meta"
    using meta d by (force simp: keys_with_def dest: eq_key_imp_eq_value [OF d])
  ultimately show "key \<in> set (keys_with f m) \<longleftrightarrow> flag f m key" by (simp add: flag_def)
qed

lemma flag_conj: "key \<in> fst ` set m \<Longrightarrow>
    flag (\<lambda>meta. f meta \<and> g meta) m key = (flag f m key \<and> flag g m key) \<and>
    flag (\<lambda>meta. \<not> f meta) m key = (\<not> flag f m key)"
  by (auto simp: flag_def map_of_eq_None_iff split: option.splits)

lemma nth_append_mem:
  assumes "distinct (xs @ ys)" and "i < length (xs @ ys)"
  shows "(xs @ ys) ! i \<in> set xs \<longleftrightarrow> i < length xs"
  using assms by (auto simp: nth_append disjoint_iff)

text \<open>The four groups of keys behind a header, and the header that counts them.\<close>

lemma components_groups:
  assumes "try_into_message_components (ck_compile ixs (Some p)) = Inr (h, keys)"
  obtains A B C D where "keys = (p # A) @ B @ C @ D" and "distinct keys"
    and "set keys = insert p (mentioned ixs)"
    and "\<forall>k \<in> set keys. k \<noteq> p \<longrightarrow> (k \<in> set A \<longleftrightarrow> wants am_is_signer ixs k \<and> wants am_is_writable ixs k)"
    and "\<forall>k \<in> set keys. k \<noteq> p \<longrightarrow> (k \<in> set B \<longleftrightarrow> wants am_is_signer ixs k \<and> \<not> wants am_is_writable ixs k)"
    and "\<forall>k \<in> set keys. k \<noteq> p \<longrightarrow> (k \<in> set C \<longleftrightarrow> \<not> wants am_is_signer ixs k \<and> wants am_is_writable ixs k)"
    and "unat (mh_num_required_signatures h) = length (p # A) + length B"
    and "unat (mh_num_readonly_signed_accounts h) = length B"
    and "unat (mh_num_readonly_unsigned_accounts h) = length D"
proof -
  define m where "m = bt_remove p (ck_key_meta_map (ck_compile ixs (Some p)))"
  let ?S = km_is_signer and ?W = km_is_writable
  let ?A = "keys_with (\<lambda>meta. ?S meta \<and> ?W meta) m" and ?B = "keys_with (\<lambda>meta. ?S meta \<and> \<not> ?W meta) m"
  let ?C = "keys_with (\<lambda>meta. \<not> ?S meta \<and> ?W meta) m" and ?D = "keys_with (\<lambda>meta. \<not> ?S meta \<and> \<not> ?W meta) m"
  note m = compiled_map_facts [OF m_def] and kw = keys_with_facts [OF m(1)]
  have payer: "ck_payer (ck_compile ixs (Some p)) = Some p" by (simp add: ck_compile_def)
  have keys: "keys = (p # ?A) @ ?B @ ?C @ ?D"
      and h: "length (p # ?A) + length ?B < 256" "length ?B < 256" "length ?D < 256"
        "mh_num_required_signatures h = of_nat (length (p # ?A) + length ?B)"
        "mh_num_readonly_signed_accounts h = of_nat (length ?B)"
        "mh_num_readonly_unsigned_accounts h = of_nat (length ?D)"
    using assms unfolding try_into_message_components_def payer Let_def option.case m_def [symmetric]
    by (auto simp: u8_try_from_def and_then_def split: if_splits sum.splits)
  have u8: "unat (of_nat n :: u8) = n" if "n < 256" for n
    using that by (simp add: unsigned_of_nat take_bit_nat_eq_self)
  have p: "p \<notin> fst ` set m" using m(2) by simp
  have mem: "k \<in> set (keys_with f m) \<longleftrightarrow> flag f m k" if "k \<in> fst ` set m" for f k
    using kw(3) that by blast
  have "k \<in> set ?A \<union> set ?B \<union> set ?C \<union> set ?D" if "k \<in> fst ` set m" for k
    unfolding Un_iff mem [OF that] using that by (auto simp: flag_conj)
  then have "set ?A \<union> set ?B \<union> set ?C \<union> set ?D = fst ` set m"
    using kw(2) by blast
  then have set_keys: "set keys = insert p (mentioned ixs)" using keys m(2) by auto
  have disj: "set (keys_with f m) \<inter> set (keys_with g m) = {}" if "\<And>meta. \<not> (f meta \<and> g meta)" for f g
  proof -
    have "k \<notin> set (keys_with g m)" if "k \<in> set (keys_with f m)" for k
    proof -
      have "k \<in> fst ` set m" using that kw(2) by blast
      with that \<open>\<And>meta. \<not> (f meta \<and> g meta)\<close> show ?thesis by (auto simp: mem flag_def split: option.splits)
    qed
    then show ?thesis by blast
  qed
  have "set ?A \<inter> set ?B = {}" "set ?A \<inter> set ?C = {}" "set ?A \<inter> set ?D = {}" "set ?B \<inter> set ?C = {}"
      "set ?B \<inter> set ?D = {}" "set ?C \<inter> set ?D = {}"
    by (rule disj, blast)+
  moreover have "p \<notin> set (keys_with f m)" for f using p kw(2) by blast
  ultimately have d: "distinct keys" using kw(1) unfolding keys by auto
  have other: "k \<in> fst ` set m" if "k \<in> set keys" "k \<noteq> p" for k
    using that set_keys m(2) by simp
  have groups: "(k \<in> set ?A \<longleftrightarrow> wants am_is_signer ixs k \<and> wants am_is_writable ixs k) \<and>
      (k \<in> set ?B \<longleftrightarrow> wants am_is_signer ixs k \<and> \<not> wants am_is_writable ixs k) \<and>
      (k \<in> set ?C \<longleftrightarrow> \<not> wants am_is_signer ixs k \<and> wants am_is_writable ixs k)"
    if k: "k \<in> set keys" "k \<noteq> p" for k
    using m(3,4) [OF k(2)] by (simp add: mem [OF other [OF k]] flag_conj [OF other [OF k]])
  show thesis
    using groups by (intro that [OF keys d set_keys]) (simp_all only: h u8, simp_all)
qed

text \<open>What the layout says about the key at an index.\<close>

lemma components_layout:
  assumes "try_into_message_components (ck_compile ixs (Some p)) = Inr (h, keys)"
  shows "distinct keys" and "set keys = insert p (mentioned ixs)" and "get keys 0 = Some p"
    and "unat (mh_num_required_signatures h) + unat (mh_num_readonly_unsigned_accounts h) \<le> length keys"
    and "mh_num_readonly_signed_accounts h < mh_num_required_signatures h"
    and "i < length keys \<Longrightarrow>
      i < unat (mh_num_required_signatures h) \<longleftrightarrow> keys ! i = p \<or> wants am_is_signer ixs (keys ! i)"
    and "i < length keys \<Longrightarrow>
      (i < unat (mh_num_required_signatures h) - unat (mh_num_readonly_signed_accounts h) \<or>
       unat (mh_num_required_signatures h) \<le> i \<and>
         i < length keys - unat (mh_num_readonly_unsigned_accounts h)) \<longleftrightarrow>
      keys ! i = p \<or> wants am_is_writable ixs (keys ! i)"
proof -
  obtain A B C D where g: "keys = (p # A) @ B @ C @ D" "distinct keys" "set keys = insert p (mentioned ixs)"
    and A: "\<forall>k \<in> set keys. k \<noteq> p \<longrightarrow> (k \<in> set A \<longleftrightarrow> wants am_is_signer ixs k \<and> wants am_is_writable ixs k)"
    and B: "\<forall>k \<in> set keys. k \<noteq> p \<longrightarrow> (k \<in> set B \<longleftrightarrow> wants am_is_signer ixs k \<and> \<not> wants am_is_writable ixs k)"
    and C: "\<forall>k \<in> set keys. k \<noteq> p \<longrightarrow> (k \<in> set C \<longleftrightarrow> \<not> wants am_is_signer ixs k \<and> wants am_is_writable ixs k)"
    and n: "unat (mh_num_required_signatures h) = length (p # A) + length B"
      "unat (mh_num_readonly_signed_accounts h) = length B" "unat (mh_num_readonly_unsigned_accounts h) = length D"
    by (rule components_groups [OF assms])
  show "distinct keys" "set keys = insert p (mentioned ixs)" "get keys 0 = Some p"
    using g by (simp_all add: get_def)
  show "unat (mh_num_required_signatures h) + unat (mh_num_readonly_unsigned_accounts h) \<le> length keys"
    using g n by simp
  show "mh_num_readonly_signed_accounts h < mh_num_required_signatures h"
    using n by (simp add: word_less_nat_alt)
  assume i: "i < length keys"
  let ?k = "keys ! i"
  have k: "?k \<in> set keys" using i by simp
  have inA: "?k \<in> set (p # A) \<longleftrightarrow> i < length (p # A)"
    using nth_append_mem [of "p # A" "B @ C @ D" i] g i by simp
  have inAB: "?k \<in> set (p # A) \<union> set B \<longleftrightarrow> i < length (p # A) + length B"
    using nth_append_mem [of "(p # A) @ B" "C @ D" i] g i by simp
  have inABC: "?k \<in> set (p # A) \<union> set B \<union> set C \<longleftrightarrow> i < length (p # A) + length B + length C"
    using nth_append_mem [of "(p # A) @ B @ C" "D" i] g i by (simp add: Un_assoc add.assoc)
  show "i < unat (mh_num_required_signatures h) \<longleftrightarrow> ?k = p \<or> wants am_is_signer ixs ?k"
    using inAB A [rule_format, OF k] B [rule_format, OF k] n by auto
  have "?k \<notin> set B" if "?k = p" using that g by auto
  moreover have "length keys - length D = length (p # A) + length B + length C" using g by simp
  ultimately show "(i < unat (mh_num_required_signatures h) - unat (mh_num_readonly_signed_accounts h) \<or>
       unat (mh_num_required_signatures h) \<le> i \<and>
         i < length keys - unat (mh_num_readonly_unsigned_accounts h)) \<longleftrightarrow>
      ?k = p \<or> wants am_is_writable ixs ?k"
    using inA inAB inABC A [rule_format, OF k] B [rule_format, OF k] C [rule_format, OF k] n by auto
qed

lemma key_position_get:
  assumes "key_position keys key = Some w" and "length keys \<le> 256"
  shows "get keys (unat w) = Some key"
proof -
  obtain i where i: "position (\<lambda>k. k = key) keys = Some i" "w = of_nat i"
    using assms(1) by (auto simp: key_position_def)
  then have "i < length keys" "keys ! i = key" by (auto simp: position_Some)
  moreover from this assms(2) have "unat (of_nat i :: u8) = i"
    by (simp add: unsigned_of_nat take_bit_nat_eq_self)
  ultimately show ?thesis by (simp add: i get_def)
qed

lemma compile_instruction_get:
  assumes "compile_instruction ix keys = Some ci" and "length keys \<le> 256"
  shows "get keys (unat (ci_program_id_index ci)) = Some (ix_program_id ix)"
    and "list_all2 (\<lambda>am ai. get keys (unat ai) = Some (am_pubkey am)) (ix_accounts ix) (ci_accounts ci)"
    and "ci_data ci = ix_data ix"
proof -
  from assms(1) obtain w accounts where
      w: "key_position keys (ix_program_id ix) = Some w" and
      a: "map (\<lambda>am. key_position keys (am_pubkey am)) (ix_accounts ix) = map Some accounts" and
      ci: "ci = \<lparr>ci_program_id_index = w, ci_accounts = accounts, ci_data = ix_data ix\<rparr>"
    by (auto simp: compile_instruction_def collect_opt_Some split: option.splits)
  have "list_all2 (\<lambda>am ai. key_position keys (am_pubkey am) = Some ai) (ix_accounts ix) accounts"
    using a by (simp add: list_eq_iff_nth_eq list_all2_conv_all_nth)
  then have "list_all2 (\<lambda>am ai. get keys (unat ai) = Some (am_pubkey am)) (ix_accounts ix) accounts"
    by (rule list_all2_mono) (simp add: key_position_get [OF _ assms(2)])
  then show "list_all2 (\<lambda>am ai. get keys (unat ai) = Some (am_pubkey am)) (ix_accounts ix) (ci_accounts ci)"
    by (simp add: ci)
  show "get keys (unat (ci_program_id_index ci)) = Some (ix_program_id ix)" "ci_data ci = ix_data ix"
    using key_position_get [OF w assms(2)] by (simp_all add: ci)
qed

text \<open>The instruction that decompilation builds from a compiled one.\<close>

definition redecompiled :: "sanitized_message \<Rightarrow> instruction \<Rightarrow> compiled_instruction \<Rightarrow> instruction" where
  "redecompiled sm ix ci =
     \<lparr>ix_program_id = ix_program_id ix,
      ix_accounts = map2 (\<lambda>am ai. \<lparr>am_pubkey = am_pubkey am, am_is_signer = sm_is_signer sm (unat ai),
                                  am_is_writable = sm_is_writable sm (unat ai)\<rparr>) (ix_accounts ix) (ci_accounts ci),
      ix_data = ix_data ix\<rparr>"

lemma decompile_accounts:
  "list_all2 (\<lambda>am ai. get keys (unat ai) = Some (am_pubkey am)) ams ais \<Longrightarrow>
   map (\<lambda>ai. map_option (\<lambda>key. \<lparr>am_pubkey = key, am_is_signer = f (unat ai), am_is_writable = g (unat ai)\<rparr>)
     (get keys (unat ai))) ais =
   map Some (map2 (\<lambda>am ai. \<lparr>am_pubkey = am_pubkey am, am_is_signer = f (unat ai),
                           am_is_writable = g (unat ai)\<rparr>) ams ais)"
  by (induction rule: list_all2_induct) auto

lemma decompile_compiled:
  assumes "list_all2 (\<lambda>ix ci. compile_instruction ix keys = Some ci) ixs cis" and "length keys \<le> 256"
    and "ak_iter (sm_account_keys sm) = keys" and "sm_instructions sm = cis"
  shows "decompile_instructions sm = Some (map2 (redecompiled sm) ixs cis)"
proof -
  have "map (\<lambda>ci. map_option (\<lambda>key. (key, ci)) (get keys (unat (ci_program_id_index ci)))) cis =
      map Some (map2 (\<lambda>ix ci. (ix_program_id ix, ci)) ixs cis)"
    using assms(1) by (induction rule: list_all2_induct) (auto simp: compile_instruction_get(1) [OF _ assms(2)])
  then have iter: "program_instructions_iter sm = Some (map2 (\<lambda>ix ci. (ix_program_id ix, ci)) ixs cis)"
    using assms(3,4) by (simp only: program_instructions_iter_def ak_get_iter collect_opt_Some)
  have "map (\<lambda>(program_id, ci).
      map_option (\<lambda>ams. \<lparr>ix_program_id = program_id, ix_accounts = ams, ix_data = ci_data ci\<rparr>)
        (collect_opt (map (\<lambda>ai.
           map_option (\<lambda>key. \<lparr>am_pubkey = key, am_is_signer = sm_is_signer sm (unat ai),
                             am_is_writable = sm_is_writable sm (unat ai)\<rparr>) (get keys (unat ai)))
           (ci_accounts ci)))) (map2 (\<lambda>ix ci. (ix_program_id ix, ci)) ixs cis) =
      map Some (map2 (redecompiled sm) ixs cis)"
    using assms(1)
  proof (induction rule: list_all2_induct)
    case (Cons ix ixs ci cis)
    note g = compile_instruction_get [OF Cons.hyps(1) assms(2)]
    then show ?case
      using Cons.IH decompile_accounts [OF g(2), of "sm_is_signer sm" "sm_is_writable sm"]
      by (simp add: redecompiled_def collect_opt_Some)
  qed simp
  then show ?thesis
    unfolding decompile_instructions_def iter using assms(3) by (simp add: ak_get_iter collect_opt_Some)
qed

lemma sanitized_legacy:
  assumes "legacy_sanitize m = Inr ()" and "length (lm_account_keys m) < 2 ^ 64"
  obtains sm where "try_from_legacy m = Some (Inr sm)" and "ak_iter (sm_account_keys sm) = lm_account_keys m"
    and "sm_instructions sm = lm_instructions m" and "sm_header sm = lm_header m"
    and "\<And>i. sm_is_writable sm i \<longleftrightarrow> i < length (lm_account_keys m) \<and> legacy_is_writable m i = Some True"
proof -
  have "map (legacy_is_writable m) [0..<length (lm_account_keys m)] =
      map Some (map (\<lambda>i. the (legacy_is_writable m i)) [0..<length (lm_account_keys m)])"
    using legacy_is_writable_sanitized [OF assms] by simp
  then have c: "cached_legacy_new m = Some \<lparr>clm_message = m,
      clm_is_writable_cache = map (\<lambda>i. the (legacy_is_writable m i)) [0..<length (lm_account_keys m)]\<rparr>"
    by (simp only: cached_legacy_new_def) (simp add: collect_opt_Some)
  show thesis
  proof (rule that)
    show "try_from_legacy m = Some (Inr (LegacyMsg \<lparr>clm_message = m,
        clm_is_writable_cache = map (\<lambda>i. the (legacy_is_writable m i)) [0..<length (lm_account_keys m)]\<rparr>))"
      by (simp add: try_from_legacy_def assms(1) c)
  qed (use legacy_is_writable_sanitized [OF assms] in
      \<open>auto simp: ak_iter_def key_segments_def get_def split: if_splits option.splits\<close>)
qed

text \<open>
  What a compilation with a payer promises about the instructions it gives back.  A key may be written
  when it is the payer or some instruction asked for it, unless it is reserved, or some instruction
  calls it as a program and the upgradeable loader is not among the keys.
\<close>

definition write_granted :: "instruction list \<Rightarrow> pubkey \<Rightarrow> pubkey \<Rightarrow> bool" where
  "write_granted ixs payer key \<longleftrightarrow>
     (key = payer \<or> wants am_is_writable ixs key) \<and> key \<notin> set (BUILTIN_PROGRAMS_KEYS @ ALL_IDS) \<and>
     (key \<in> ix_program_id ` set ixs \<longrightarrow> bpf_loader_upgradeable_id \<in> insert payer (mentioned ixs))"

definition faithful :: "instruction list \<Rightarrow> pubkey \<Rightarrow> instruction \<Rightarrow> instruction \<Rightarrow> bool" where
  "faithful ixs payer d ix \<longleftrightarrow>
     ix_program_id d = ix_program_id ix \<and> ix_data d = ix_data ix \<and>
     map am_pubkey (ix_accounts d) = map am_pubkey (ix_accounts ix) \<and>
     (\<forall>am \<in> set (ix_accounts d).
        am_is_signer am = (am_pubkey am = payer \<or> wants am_is_signer ixs (am_pubkey am)) \<and>
        am_is_writable am = write_granted ixs payer (am_pubkey am))"

lemma redecompiled_faithful:
  assumes "compile_instruction ix keys = Some ci" and "length keys \<le> 256"
    and "\<And>i. i < length keys \<Longrightarrow> sm_is_signer sm i = (keys ! i = p \<or> wants am_is_signer ixs (keys ! i))"
    and "\<And>i. i < length keys \<Longrightarrow> sm_is_writable sm i = write_granted ixs p (keys ! i)"
  shows "faithful ixs p (redecompiled sm ix ci) ix"
proof -
  have "list_all2 (\<lambda>am ai. unat ai < length keys \<and> keys ! unat ai = am_pubkey am) (ix_accounts ix) (ci_accounts ci)"
    using compile_instruction_get(2) [OF assms(1,2)] by (simp only: get_Some)
  then have "map am_pubkey (ix_accounts (redecompiled sm ix ci)) = map am_pubkey (ix_accounts ix) \<and>
    (\<forall>am \<in> set (ix_accounts (redecompiled sm ix ci)).
        am_is_signer am = (am_pubkey am = p \<or> wants am_is_signer ixs (am_pubkey am)) \<and>
        am_is_writable am = write_granted ixs p (am_pubkey am))"
    unfolding redecompiled_def instruction.simps
  proof (induction rule: list_all2_induct)
    case (Cons am ams ai ais)
    then show ?case using assms(3,4) [of "unat ai"] by auto
  qed simp
  then show ?thesis by (simp add: faithful_def redecompiled_def)
qed

lemma compiled_parts:
  assumes "new_with_blockhash ixs (Some p) blockhash = Some m"
  shows "try_into_message_components (ck_compile ixs (Some p)) = Inr (lm_header m, lm_account_keys m)"
    and "list_all2 (\<lambda>ix ci. compile_instruction ix (lm_account_keys m) = Some ci) ixs (lm_instructions m)"
  using assms by (auto simp: new_with_blockhash_def compile_instructions_def collect_opt_Some
      list_eq_iff_nth_eq list_all2_conv_all_nth split: sum.splits prod.splits)

text \<open>Compiling with a payer succeeds when few enough keys are mentioned.\<close>

lemma keys_with_length: "length (keys_with f m) \<le> length m"
  by (simp add: keys_with_def)

lemma keys_with_split: "length (keys_with (\<lambda>x. f x \<and> g x) m) + length (keys_with (\<lambda>x. f x \<and> \<not> g x) m) \<le> length m"
  by (induction m) (auto simp: keys_with_def)

lemma key_position_total: "key \<in> set keys \<Longrightarrow> \<exists>w. key_position keys key = Some w"
  using position_None [of "\<lambda>k. k = key" keys] by (auto simp: key_position_def)

lemma compile_total:
  assumes "card (insert p (mentioned ixs)) < 256"
  shows "\<exists>m. new_with_blockhash ixs (Some p) blockhash = Some m \<and> length (lm_account_keys m) < 256"
proof -
  define m where "m = bt_remove p (ck_key_meta_map (ck_compile ixs (Some p)))"
  note m = compiled_map_facts [OF m_def]
  have payer: "ck_payer (ck_compile ixs (Some p)) = Some p" by (simp add: ck_compile_def)
  have "length m = card (mentioned ixs - {p})"
    using distinct_card [OF bt_ok_distinct [OF m(1)]] m(2) by simp
  moreover have "finite (mentioned ixs)" by (simp add: mentioned_def)
  ultimately have few: "Suc (length m) < 256" using assms by (simp add: card.insert_remove)
  have "\<exists>c. try_into_message_components (ck_compile ixs (Some p)) = Inr c"
    using few keys_with_split [of km_is_signer km_is_writable m] keys_with_length [of _ m, THEN le_less_trans]
    unfolding try_into_message_components_def payer Let_def option.case m_def [symmetric]
    by (simp add: u8_try_from_def and_then_def)
  then obtain h keys where c: "try_into_message_components (ck_compile ixs (Some p)) = Inr (h, keys)" by force
  note L = components_layout [OF c]
  have "\<exists>ci. compile_instruction ix keys = Some ci" if "ix \<in> set ixs" for ix
  proof -
    have "insert (ix_program_id ix) (am_pubkey ` set (ix_accounts ix)) \<subseteq> set keys"
      using that L(2) by (auto simp: mentioned_def)
    then have "\<forall>am \<in> set (ix_accounts ix). key_position keys (am_pubkey am) \<noteq> None"
        and p: "key_position keys (ix_program_id ix) \<noteq> None"
      using key_position_total by fastforce+
    then have "collect_opt (map (\<lambda>am. key_position keys (am_pubkey am)) (ix_accounts ix)) =
        Some (map (\<lambda>am. the (key_position keys (am_pubkey am))) (ix_accounts ix))"
      unfolding collect_opt_Some by auto
    with p show ?thesis by (auto simp: compile_instruction_def)
  qed
  then have "map (\<lambda>ix. compile_instruction ix keys) ixs = map Some (map (\<lambda>ix. the (compile_instruction ix keys)) ixs)"
    by auto
  then have "\<exists>cis. compile_instructions ixs keys = Some cis" unfolding compile_instructions_def collect_opt_Some by blast
  moreover have "length keys < 256" using distinct_card [OF L(1)] L(2) assms by simp
  ultimately show ?thesis using c by (auto simp: new_with_blockhash_def)
qed

lemma compiled_sane:
  assumes "new_with_blockhash ixs (Some p) blockhash = Some m" and "length (lm_account_keys m) \<le> 256"
    and "p \<notin> ix_program_id ` set ixs"
  shows "legacy_sanitize m = Inr ()"
proof -
  let ?keys = "lm_account_keys m"
  note L = components_layout [OF compiled_parts(1) [OF assms(1)]]
  have "ci_in_bounds (length ?keys) (length ?keys) ci" if "compile_instruction ix ?keys = Some ci" "ix \<in> set ixs" for ix ci
  proof -
    note g = compile_instruction_get [OF that(1) assms(2)]
    have "ci_program_id_index ci \<noteq> 0"
      using g(1) L(3) assms(3) that(2) by (auto simp: image_iff)
    moreover have "list_all (\<lambda>ai. unat ai < length ?keys) (ci_accounts ci)"
      using g(2) by (induction rule: list_all2_induct) (auto simp: get_Some)
    ultimately show ?thesis using g(1) by (simp add: ci_in_bounds_def get_Some)
  qed
  then have "list_all (ci_in_bounds (length ?keys) (length ?keys)) (lm_instructions m)"
    using compiled_parts(2) [OF assms(1)] by (auto simp: list_all_length list_all2_conv_all_nth)
  then show ?thesis using L(4,5) by (simp add: legacy_sanitize_def Let_def not_le)
qed

lemma compiled_called:
  assumes "list_all2 (\<lambda>ix ci. compile_instruction ix keys = Some ci) ixs cis" and "length keys \<le> 256"
    and "distinct keys" and "i < length keys"
  shows "called_as_program cis i \<longleftrightarrow> keys ! i \<in> ix_program_id ` set ixs"
proof -
  have "ci_program_id_index ci = of_nat i \<longleftrightarrow> keys ! i = ix_program_id ix" if "compile_instruction ix keys = Some ci" for ix ci
  proof -
    have p: "unat (ci_program_id_index ci) < length keys" "keys ! unat (ci_program_id_index ci) = ix_program_id ix"
      using compile_instruction_get(1) [OF that assms(2)] by (auto simp: get_Some)
    have "unat (of_nat i :: u8) = i" using assms(2,4) by (simp add: unsigned_of_nat take_bit_nat_eq_self)
    then have "ci_program_id_index ci = of_nat i \<longleftrightarrow> unat (ci_program_id_index ci) = i" by (metis word_unat_eq_iff)
    then show ?thesis using p nth_eq_iff_index_eq [OF assms(3,4) p(1)] by auto
  qed
  with assms(1) have "list_all2 (\<lambda>ix ci. (ci_program_id_index ci = of_nat i) = (keys ! i = ix_program_id ix)) ixs cis"
    by (rule list_all2_mono)
  then have "list_ex (\<lambda>ci. ci_program_id_index ci = of_nat i) cis \<longleftrightarrow> keys ! i \<in> ix_program_id ` set ixs"
    by (induction rule: list_all2_induct) auto
  then show ?thesis using assms(2,4) by (simp add: called_as_program_def)
qed

lemma compiled_writable:
  assumes "new_with_blockhash ixs (Some p) blockhash = Some m" and "length (lm_account_keys m) \<le> 256"
    and "p \<notin> ix_program_id ` set ixs" and "i < length (lm_account_keys m)"
  shows "legacy_is_writable m i = Some (write_granted ixs p (lm_account_keys m ! i))"
proof -
  let ?keys = "lm_account_keys m"
  note L = components_layout [OF compiled_parts(1) [OF assms(1)]]
  note called = compiled_called [OF compiled_parts(2) [OF assms(1)] assms(2) L(1) assms(4)]
  have loader: "loader_present ?keys \<longleftrightarrow> bpf_loader_upgradeable_id \<in> insert p (mentioned ixs)"
    by (auto simp: loader_present_def list_ex_iff simp flip: L(2))
  have "length ?keys < 2 ^ 64" using assms(2) by simp
  note writable = legacy_is_writable_sanitized [OF compiled_sane [OF assms(1-3)] this assms(4)]
  let ?ldm = "\<lparr>ldm_message = v0_of_legacy m, ldm_loaded_addresses = no_addresses, ldm_is_writable_cache = []\<rparr>"
  have "ldm_is_writable_index ?ldm i \<longleftrightarrow> ?keys ! i = p \<or> wants am_is_writable ixs (?keys ! i)"
    using assms(4) L(4) unfolding L(7) [OF assms(4), symmetric]
    by (auto simp: ldm_is_writable_index_def v0_of_legacy_def Let_def)
  moreover have "ldm_demote_program_id ?ldm i \<longleftrightarrow>
      ?keys ! i \<in> ix_program_id ` set ixs \<and> bpf_loader_upgradeable_id \<notin> insert p (mentioned ixs)"
    using called loader by (simp add: ldm_demote_program_id_def ldm_account_keys_def ak_iter_def key_segments_def v0_of_legacy_def)
  moreover have "ak_get (ldm_account_keys ?ldm) i = Some (?keys ! i)"
    using assms(4) by (simp add: ldm_account_keys_def ak_get_iter ak_iter_def key_segments_def get_def v0_of_legacy_def)
  ultimately show ?thesis
    unfolding writable ldm_is_writable_internal_def write_granted_def builtin_table_exact by (simp del: set_append)
qed

lemma compile_faithful:
  assumes "new_with_blockhash ixs (Some p) blockhash = Some m" and "length (lm_account_keys m) \<le> 256"
    and "p \<notin> ix_program_id ` set ixs"
  shows "\<exists>sm ds. try_from_legacy m = Some (Inr sm) \<and> \<not> sm_has_duplicates sm \<and>
    sm_fee_payer sm = Some p \<and> decompile_instructions sm = Some ds \<and> list_all2 (faithful ixs p) ds ixs"
proof -
  let ?keys = "lm_account_keys m" and ?cis = "lm_instructions m" and ?h = "lm_header m"
  note cis = compiled_parts(2) [OF assms(1)]
  note L = components_layout [OF compiled_parts(1) [OF assms(1)]]
  have "length ?keys < 2 ^ 64" using assms(2) by simp
  then obtain sm where sm: "try_from_legacy m = Some (Inr sm)" "ak_iter (sm_account_keys sm) = ?keys"
      "sm_instructions sm = ?cis" "sm_header sm = ?h"
    and w: "\<And>i. sm_is_writable sm i \<longleftrightarrow> i < length ?keys \<and> legacy_is_writable m i = Some True"
    using sanitized_legacy [OF compiled_sane [OF assms]] by blast
  have signer: "sm_is_signer sm i = (?keys ! i = p \<or> wants am_is_signer ixs (?keys ! i))" if "i < length ?keys" for i
    using L(6) [OF that] sm(4) by (simp add: sm_is_signer_def)
  have writable: "sm_is_writable sm i = write_granted ixs p (?keys ! i)" if "i < length ?keys" for i
    using w [of i] compiled_writable [OF assms that] that by simp
  have "list_all2 (faithful ixs p) (map2 (redecompiled sm) ixs ?cis) ixs"
    using cis redecompiled_faithful [OF _ assms(2) signer writable]
    by (auto simp: list_all2_conv_all_nth)
  with sm L(1,3) show ?thesis
    using decompile_compiled [OF cis assms(2) sm(2,3)]
    by (auto simp: has_duplicates_distinct sm_fee_payer_def ak_get_iter)
qed

text \<open>
  (C25) Compiling is faithful: a legacy message of at most 256 keys compiled from instructions with a fee
  payer that none of them calls as a program passes sanitization, has no duplicate keys and the payer
  first, and decompiles to the same programs, data and accounts, in order.  There an account signs exactly
  when it is the payer or some instruction asked for its signature.  It is writable exactly when it is
  the payer or some instruction asked to write it, it is no builtin program or sysvar, and it is not
  called as a program, unless the upgradeable loader is among the keys.
\<close>

theorem compile_round_trip:
  assumes "new_with_blockhash ixs (Some p) blockhash = Some m" and "length (lm_account_keys m) \<le> 256"
    and "p \<notin> ix_program_id ` set ixs"
  shows "\<exists>sm ds. try_from_legacy m = Some (Inr sm) \<and> \<not> sm_has_duplicates sm \<and>
    sm_fee_payer sm = Some p \<and> decompile_instructions sm = Some ds \<and> list_all2 (faithful ixs p) ds ixs"
  by (rule compile_faithful [OF assms])

text \<open>A transfer-like instruction of program 3 from the payer 1 to account 2.\<close>

abbreviation sample_key :: "u8 \<Rightarrow> pubkey" where
  "sample_key n \<equiv> Pubkey (n # replicate 31 0)"

definition sample_ix :: instruction where
  "sample_ix =
     \<lparr>ix_program_id = sample_key 3,
      ix_accounts =
        [\<lparr>am_pubkey = sample_key 1, am_is_signer = True, am_is_writable = True\<rparr>,
         \<lparr>am_pubkey = sample_key 2, am_is_signer = False, am_is_writable = True\<rparr>],
      ix_data = [2, 0, 0, 0]\<rparr>"

theorem compile_round_trip_witness:
  "\<exists>m sm ds. new_with_blockhash [sample_ix] (Some (sample_key 1)) hash_default = Some m \<and>
     try_from_legacy m = Some (Inr sm) \<and> decompile_instructions sm = Some ds \<and>
     list_all2 (faithful [sample_ix] (sample_key 1)) ds [sample_ix]"
proof -
  obtain m where m: "new_with_blockhash [sample_ix] (Some (sample_key 1)) hash_default = Some m"
      and len: "length (lm_account_keys m) \<le> 256"
    by (simp add: new_with_blockhash_def ck_compile_def compile_payer_def compile_ix_def compile_account_def
        sample_ix_def less_pubkey_def try_into_message_components_def Let_def bt_remove_def keys_with_def
        u8_try_from_def and_then_def compile_instructions_def compile_instruction_def key_position_def)
  have "sample_key 1 \<notin> ix_program_id ` set [sample_ix]" by (simp add: sample_ix_def)
  from compile_round_trip [OF m len this] m show ?thesis by blast
qed

section \<open>Indices of a sanitized message\<close>

text \<open>Every index that the runtime follows leads to an account key, and no flag is set outside the keys.\<close>

definition well_indexed :: "sanitized_message \<Rightarrow> bool" where
  "well_indexed sm \<longleftrightarrow>
     sm_fee_payer sm \<noteq> None \<and>
     (\<forall>ci \<in> set (sm_instructions sm).
        ak_get (sm_account_keys sm) (unat (ci_program_id_index ci)) \<noteq> None \<and>
        (\<forall>ai \<in> set (ci_accounts ci). ak_get (sm_account_keys sm) (unat ai) \<noteq> None)) \<and>
     (\<forall>i. sm_is_writable sm i \<or> sm_is_signer sm i \<longrightarrow> i < ak_len (sm_account_keys sm)) \<and>
     decompile_instructions sm \<noteq> None"

lemma collect_opt_total: "collect_opt xs \<noteq> None \<longleftrightarrow> None \<notin> set xs"
  by (induction xs) (auto split: option.splits)

lemma paired_snd: "map (\<lambda>x. map_option (\<lambda>k. (k, x)) (f x)) xs = map Some ps \<Longrightarrow> map snd ps = xs"
proof (induction xs arbitrary: ps)
  case (Cons x xs)
  then show ?case by (cases ps) auto
qed simp

lemma ak_len_iter: "ak_len ak = length (ak_iter ak)"
  by (simp add: ak_len_def ak_iter_def length_concat)

lemma well_indexedI:
  assumes "ak_iter (sm_account_keys sm) \<noteq> []"
    and "\<And>ci. ci \<in> set (sm_instructions sm) \<Longrightarrow>
      unat (ci_program_id_index ci) < length (ak_iter (sm_account_keys sm)) \<and>
      (\<forall>ai \<in> set (ci_accounts ci). unat ai < length (ak_iter (sm_account_keys sm)))"
    and "\<And>i. sm_is_writable sm i \<or> sm_is_signer sm i \<Longrightarrow> i < length (ak_iter (sm_account_keys sm))"
  shows "well_indexed sm"
proof -
  have get: "ak_get (sm_account_keys sm) i \<noteq> None" if "i < length (ak_iter (sm_account_keys sm))" for i
    using that by (simp add: ak_get_iter get_def)
  have "program_instructions_iter sm \<noteq> None"
    using assms(2) get by (auto simp: program_instructions_iter_def collect_opt_total simp del: not_None_eq)
  then obtain pis where pis: "program_instructions_iter sm = Some pis" by blast
  then have "map snd pis = sm_instructions sm"
    by (intro paired_snd) (simp add: program_instructions_iter_def collect_opt_Some)
  then have "snd ` set pis = set (sm_instructions sm)" by (simp add: flip: set_map)
  then have known: "ak_get (sm_account_keys sm) (unat ai) \<noteq> None" if "p \<in> set pis" "ai \<in> set (ci_accounts (snd p))" for p ai
    using that assms(2) get by blast
  have inner: "collect_opt (map (\<lambda>ai. map_option (f ai) (ak_get (sm_account_keys sm) (unat ai))) (ci_accounts (snd p))) \<noteq> None"
    if "p \<in> set pis" for p and f :: "u8 \<Rightarrow> pubkey \<Rightarrow> account_meta"
    unfolding collect_opt_total
  proof
    assume "None \<in> set (map (\<lambda>ai. map_option (f ai) (ak_get (sm_account_keys sm) (unat ai))) (ci_accounts (snd p)))"
    then obtain ai where "ai \<in> set (ci_accounts (snd p))" "ak_get (sm_account_keys sm) (unat ai) = None" by auto
    with known [OF that] show False by blast
  qed
  have "decompile_instructions sm \<noteq> None"
    unfolding decompile_instructions_def pis option.case collect_opt_total
  proof
    assume "None \<in> set (map (\<lambda>(program_id, ci).
            map_option (\<lambda>ams. \<lparr>ix_program_id = program_id, ix_accounts = ams, ix_data = ci_data ci\<rparr>)
              (collect_opt (map (\<lambda>ai.
                 map_option (\<lambda>key. \<lparr>am_pubkey = key, am_is_signer = sm_is_signer sm (unat ai),
                                   am_is_writable = sm_is_writable sm (unat ai)\<rparr>)
                   (ak_get (sm_account_keys sm) (unat ai))) (ci_accounts ci)))) pis)"
    then obtain p where "p \<in> set pis" "collect_opt (map (\<lambda>ai.
        map_option (\<lambda>key. \<lparr>am_pubkey = key, am_is_signer = sm_is_signer sm (unat ai),
                          am_is_writable = sm_is_writable sm (unat ai)\<rparr>)
          (ak_get (sm_account_keys sm) (unat ai))) (ci_accounts (snd p))) = None"
      by (auto simp del: not_None_eq)
    with inner [where p = p and f = "\<lambda>ai key. \<lparr>am_pubkey = key, am_is_signer = sm_is_signer sm (unat ai),
        am_is_writable = sm_is_writable sm (unat ai)\<rparr>"] show False by simp
  qed
  moreover have "sm_fee_payer sm \<noteq> None" using get [of 0] assms(1) by (simp add: sm_fee_payer_def)
  ultimately show ?thesis
    unfolding well_indexed_def ak_len_iter using assms(2,3) get by blast
qed

lemma ci_in_boundsD:
  assumes "list_all (ci_in_bounds programs accounts) cis" and "ci \<in> set cis" and "programs \<le> n" and "accounts = n"
  shows "unat (ci_program_id_index ci) < n \<and> (\<forall>ai \<in> set (ci_accounts ci). unat ai < n)"
  using assms by (auto simp: list_all_iff ci_in_bounds_def)

lemma lookup_keys_loop_sum:
  "lookup_keys_loop ls acc = Inr d \<Longrightarrow>
   d = acc + sum_list (map (\<lambda>l. length (atl_writable_indexes l) + length (atl_readonly_indexes l)) ls)"
proof (induction ls arbitrary: acc)
  case (Cons l ls)
  then have "lookup_keys_loop ls (acc + (length (atl_writable_indexes l) + length (atl_readonly_indexes l))) = Inr d"
    by (auto simp: Let_def split: if_splits)
  from Cons.IH [OF this] show ?case by simp
qed simp

lemma legacy_well_indexed:
  assumes "legacy_sanitize m = Inr ()" and "length (lm_account_keys m) < 2 ^ 64"
  shows "\<exists>sm. try_from_legacy m = Some (Inr sm) \<and> well_indexed sm"
proof -
  let ?n = "length (lm_account_keys m)"
  obtain sm where sm: "try_from_legacy m = Some (Inr sm)" "ak_iter (sm_account_keys sm) = lm_account_keys m"
      "sm_instructions sm = lm_instructions m" "sm_header sm = lm_header m"
    and w: "\<And>i. sm_is_writable sm i \<longleftrightarrow> i < ?n \<and> legacy_is_writable m i = Some True"
    using sanitized_legacy [OF assms] by blast
  have san: "unat (mh_num_required_signatures (lm_header m)) \<le> ?n"
      "mh_num_readonly_signed_accounts (lm_header m) < mh_num_required_signatures (lm_header m)"
      "list_all (ci_in_bounds ?n ?n) (lm_instructions m)"
    using assms(1) by (auto simp: legacy_sanitize_def Let_def split: if_splits)
  have "0 < unat (mh_num_required_signatures (lm_header m))"
    using san(2) unfolding word_less_nat_alt by linarith
  then have nonempty: "lm_account_keys m \<noteq> []" using san(1) by auto
  have "well_indexed sm"
  proof (rule well_indexedI, unfold sm(2,3))
    show "i < ?n" if "sm_is_writable sm i \<or> sm_is_signer sm i" for i
      using that w [of i] san(1) by (auto simp: sm_is_signer_def sm(4))
  qed (rule nonempty, rule ci_in_boundsD [OF san(3) _ order_refl refl])
  with sm(1) show ?thesis by blast
qed

lemma v0_well_indexed:
  assumes "v0_sanitize m = Inr ()"
    and "length (la_writable la) + length (la_readonly la) =
      sum_list (map (\<lambda>l. length (atl_writable_indexes l) + length (atl_readonly_indexes l)) (v0_address_table_lookups m))"
  shows "well_indexed (V0Msg (loaded_message_new m la))"
proof -
  let ?n = "length (v0_account_keys m)" and ?sm = "V0Msg (loaded_message_new m la)"
  obtain d where d: "lookup_keys_loop (v0_address_table_lookups m) 0 = Inr d"
    and san: "unat (mh_num_required_signatures (v0_header m)) \<le> ?n" "?n \<noteq> 0"
      "list_all (ci_in_bounds ?n (?n + d)) (v0_instructions m)"
    using assms(1) by (auto simp: v0_sanitize_def Let_def and_then_def split: if_splits sum.splits)
  have keys: "ak_iter (sm_account_keys ?sm) = v0_account_keys m @ la_writable la @ la_readonly la"
    by (simp add: loaded_message_new_def Let_def ldm_account_keys_def ak_iter_def key_segments_def)
  then have len: "length (ak_iter (sm_account_keys ?sm)) = ?n + d"
    using lookup_keys_loop_sum [OF d] assms(2) by simp
  have ixs: "sm_instructions ?sm = v0_instructions m" and h: "sm_header ?sm = v0_header m"
    by (simp_all add: loaded_message_new_def Let_def)
  have "i < length (ak_iter (sm_account_keys ?sm))" if "sm_is_writable ?sm i" for i
    using that keys
    by (auto simp: ldm_is_writable_def loaded_message_new_def Let_def get_def ldm_account_keys_def ak_iter_def key_segments_def
        split: option.splits if_splits)
  moreover have "i < length (ak_iter (sm_account_keys ?sm))" if "sm_is_signer ?sm i" for i
    using that san(1) h len by (simp add: sm_is_signer_def)
  moreover have "ak_iter (sm_account_keys ?sm) \<noteq> []" using keys san(2) by auto
  ultimately show ?thesis
    by (intro well_indexedI) (blast, unfold len ixs, rule ci_in_boundsD [OF san(3) _ le_add1 refl], blast+)
qed

text \<open>
  (C26) Sanitized messages are well-typed: a legacy message that passes sanitization becomes a sanitized
  message, and this one, like a sanitized version 0 message with as many loaded addresses as its lookups
  name, has a fee payer, names only account keys it has in all its instructions, marks only such keys as
  writable or signers, and decompiles.
\<close>

theorem sanitized_well_indexed:
  "(\<forall>m. legacy_sanitize m = Inr () \<and> length (lm_account_keys m) < 2 ^ 64 \<longrightarrow>
      (\<exists>sm. try_from_legacy m = Some (Inr sm) \<and> well_indexed sm)) \<and>
   (\<forall>m la. v0_sanitize m = Inr () \<and> length (la_writable la) + length (la_readonly la) =
      sum_list (map (\<lambda>l. length (atl_writable_indexes l) + length (atl_readonly_indexes l)) (v0_address_table_lookups m)) \<longrightarrow>
      well_indexed (V0Msg (loaded_message_new m la)))"
  using legacy_well_indexed v0_well_indexed by blast

definition indexed_legacy :: legacy_message where
  "indexed_legacy =
     \<lparr>lm_header = \<lparr>mh_num_required_signatures = 1, mh_num_readonly_signed_accounts = 0,
                   mh_num_readonly_unsigned_accounts = 1\<rparr>,
      lm_account_keys = [sample_key 1, sample_key 3], lm_recent_blockhash = hash_default,
      lm_instructions = [\<lparr>ci_program_id_index = 1, ci_accounts = [0], ci_data = []\<rparr>]\<rparr>"

definition indexed_v0 :: v0_message where
  "indexed_v0 =
     \<lparr>v0_header = lm_header indexed_legacy, v0_account_keys = lm_account_keys indexed_legacy,
      v0_recent_blockhash = hash_default,
      v0_instructions = [\<lparr>ci_program_id_index = 1, ci_accounts = [0, 2], ci_data = []\<rparr>],
      v0_address_table_lookups = [\<lparr>atl_account_key = sample_key 4, atl_writable_indexes = [7], atl_readonly_indexes = []\<rparr>]\<rparr>"

theorem sanitized_well_indexed_witness:
  "(\<exists>sm. try_from_legacy indexed_legacy = Some (Inr sm) \<and> well_indexed sm) \<and>
   well_indexed (V0Msg (loaded_message_new indexed_v0 \<lparr>la_writable = [sample_key 2], la_readonly = []\<rparr>))"
proof -
  have "legacy_sanitize indexed_legacy = Inr ()" "length (lm_account_keys indexed_legacy) < 2 ^ 64"
    by (simp_all add: indexed_legacy_def legacy_sanitize_def ci_in_bounds_def)
  moreover have "v0_sanitize indexed_v0 = Inr ()"
    by (simp add: indexed_v0_def indexed_legacy_def v0_sanitize_def ci_in_bounds_def and_then_def)
  moreover have "length (la_writable \<lparr>la_writable = [sample_key 2], la_readonly = []\<rparr>) +
      length (la_readonly \<lparr>la_writable = [sample_key 2], la_readonly = []\<rparr>) =
      sum_list (map (\<lambda>l. length (atl_writable_indexes l) + length (atl_readonly_indexes l)) (v0_address_table_lookups indexed_v0))"
    by (simp add: indexed_v0_def)
  ultimately show ?thesis using sanitized_well_indexed by blast
qed

end
