(* ===== verification/Log_Collector.thy ===== *)
theory Log_Collector
  imports Prelude
begin

text \<open>
  The log of a transaction (\<^verbatim>\<open>program-runtime/src/log_collector.rs\<close>) and the stable log lines of
  \<^verbatim>\<open>program-runtime/src/stable_log.rs\<close>.  A string is the list of its bytes.  Base58 and base64 are
  third-party crates: the text of a key and of encoded data are arguments of the log functions.
\<close>

record log_collector =
  lc_messages :: "string list"
  lc_bytes_written :: nat
  lc_bytes_limit :: "nat option"
  lc_limit_warning :: bool

abbreviation LOG_MESSAGES_BYTES_LIMIT :: nat where "LOG_MESSAGES_BYTES_LIMIT \<equiv> 10 * 1000"

definition lc_default :: log_collector where
  "lc_default =
     \<lparr>lc_messages = [], lc_bytes_written = 0, lc_bytes_limit = Some LOG_MESSAGES_BYTES_LIMIT,
      lc_limit_warning = False\<rparr>"

definition lc_new_with_limit :: "nat option \<Rightarrow> log_collector" where
  "lc_new_with_limit limit = lc_default\<lparr>lc_bytes_limit := limit\<rparr>"

abbreviation LOG_TRUNCATED :: string where "LOG_TRUNCATED \<equiv> ''Log truncated''"

text \<open>\<^verbatim>\<open>usize::saturating_add\<close> on a 64-bit machine.\<close>

definition usize_saturating_add :: "nat \<Rightarrow> nat \<Rightarrow> nat" where
  "usize_saturating_add a b = min (2 ^ 64 - 1) (a + b)"

definition lc_log :: "string \<Rightarrow> log_collector \<Rightarrow> log_collector" where
  "lc_log message lc =
     (case lc_bytes_limit lc of
        None \<Rightarrow> lc\<lparr>lc_messages := lc_messages lc @ [message]\<rparr>
      | Some limit \<Rightarrow>
          (let bytes_written = usize_saturating_add (lc_bytes_written lc) (length message) in
           if limit \<le> bytes_written then
             if \<not> lc_limit_warning lc
             then lc\<lparr>lc_limit_warning := True, lc_messages := lc_messages lc @ [LOG_TRUNCATED]\<rparr>
             else lc
           else lc\<lparr>lc_bytes_written := bytes_written, lc_messages := lc_messages lc @ [message]\<rparr>))"

text \<open>The \<^verbatim>\<open>ic_logger_msg\<close> macro: nothing is logged without a collector.\<close>

definition ic_logger_msg :: "string \<Rightarrow> log_collector option \<Rightarrow> log_collector option" where
  "ic_logger_msg message = map_option (lc_log message)"

function decimal :: "nat \<Rightarrow> string" where
  "decimal n =
     (if n < 10 then [char_of (48 + n)] else decimal (n div 10) @ [char_of (48 + n mod 10)])"
  by pat_completeness auto
termination by (relation "measure id") auto

declare decimal.simps [simp del]

definition program_invoke :: "string \<Rightarrow> nat \<Rightarrow> log_collector option \<Rightarrow> log_collector option" where
  "program_invoke program_id depth =
     ic_logger_msg (''Program '' @ program_id @ '' invoke ['' @ decimal depth @ '']'')"

definition program_log :: "string \<Rightarrow> log_collector option \<Rightarrow> log_collector option" where
  "program_log message = ic_logger_msg (''Program log: '' @ message)"

definition program_data :: "string list \<Rightarrow> log_collector option \<Rightarrow> log_collector option" where
  "program_data encoded =
     ic_logger_msg (''Program data: '' @
       (case encoded of [] \<Rightarrow> [] | e # es \<Rightarrow> e @ concat (map (\<lambda>x. '' '' @ x) es)))"

definition program_return :: "string \<Rightarrow> string \<Rightarrow> log_collector option \<Rightarrow> log_collector option" where
  "program_return program_id encoded =
     ic_logger_msg (''Program return: '' @ program_id @ '' '' @ encoded)"

definition program_success :: "string \<Rightarrow> log_collector option \<Rightarrow> log_collector option" where
  "program_success program_id = ic_logger_msg (''Program '' @ program_id @ '' success'')"

definition program_failure :: "string \<Rightarrow> string \<Rightarrow> log_collector option \<Rightarrow> log_collector option" where
  "program_failure program_id err =
     ic_logger_msg (''Program '' @ program_id @ '' failed: '' @ err)"

section \<open>The log is bounded\<close>

definition log_bytes :: "string list \<Rightarrow> nat" where
  "log_bytes messages = sum_list (map length messages)"

text \<open>The messages that still fit below the limit, one after the other, when \<open>used\<close> bytes are taken.\<close>

fun fitting :: "nat \<Rightarrow> nat \<Rightarrow> string list \<Rightarrow> string list" where
  "fitting limit used [] = []"
| "fitting limit used (m # ms) =
     (if used + length m < limit then m # fitting limit (used + length m) ms else fitting limit used ms)"

lemma log_bytes_simps [simp]:
  "log_bytes [] = 0" "log_bytes (m # ms) = length m + log_bytes ms" "log_bytes (ms @ ms') = log_bytes ms + log_bytes ms'"
  by (simp_all add: log_bytes_def)

lemma fitting_bytes: "used < limit \<Longrightarrow> used + log_bytes (fitting limit used ms) < limit"
proof (induction ms arbitrary: used)
  case (Cons m ms)
  show ?case
    using Cons.IH [of "used + length m"] Cons.IH [OF Cons.prems] by (simp only: fitting.simps) (simp add: add.assoc)
qed simp

lemma saturating_limit: "limit < 2 ^ 64 \<Longrightarrow> limit \<le> usize_saturating_add a b \<longleftrightarrow> limit \<le> a + b"
  by (simp add: usize_saturating_add_def)

lemma saturating_below: "a + b < limit \<Longrightarrow> limit < 2 ^ 64 \<Longrightarrow> usize_saturating_add a b = a + b"
  by (simp add: usize_saturating_add_def)

text \<open>Before the notice, and from the notice on.\<close>

lemma log_while_fitting:
  assumes "lc_bytes_limit lc = Some limit" and "lc_bytes_written lc + log_bytes ms < limit" and "limit < 2 ^ 64"
  shows "fold lc_log ms lc = lc\<lparr>lc_bytes_written := lc_bytes_written lc + log_bytes ms, lc_messages := lc_messages lc @ ms\<rparr>"
  using assms(1,2)
proof (induction ms arbitrary: lc)
  case (Cons m ms)
  have "lc_log m lc = lc\<lparr>lc_bytes_written := lc_bytes_written lc + length m, lc_messages := lc_messages lc @ [m]\<rparr>"
    using Cons.prems saturating_below [OF _ assms(3), of "lc_bytes_written lc" "length m"] by (simp add: lc_log_def Let_def)
  with Cons.IH [of "lc_log m lc"] Cons.prems show ?case by (simp add: add.assoc)
qed simp

lemma log_after_notice:
  assumes "lc_bytes_limit lc = Some limit" and "lc_limit_warning lc" and "limit < 2 ^ 64"
  shows "lc_messages (fold lc_log ms lc) = lc_messages lc @ fitting limit (lc_bytes_written lc) ms"
  using assms(1,2)
proof (induction ms arbitrary: lc)
  case (Cons m ms)
  have "lc_log m lc = (if lc_bytes_written lc + length m < limit
      then lc\<lparr>lc_bytes_written := lc_bytes_written lc + length m, lc_messages := lc_messages lc @ [m]\<rparr> else lc)"
    using Cons.prems saturating_limit [OF assms(3), of "lc_bytes_written lc" "length m"]
      saturating_below [OF _ assms(3), of "lc_bytes_written lc" "length m"]
    by (simp add: lc_log_def Let_def not_less)
  with Cons.IH [of "lc_log m lc"] Cons.prems show ?case by simp
qed simp

text \<open>
  (C37) The log of a transaction is cut at its limit, a positive 64-bit number: messages that together stay below the limit are all
  recorded; otherwise the messages before the first one that would reach the limit are recorded,
  that one is replaced by a single truncation notice, and of the later ones those that still fit are
  recorded.  The recorded messages, which the notice is not counted among, stay below the limit.
\<close>

theorem log_bounded:
  assumes "0 < limit" and "limit < 2 ^ 64"
  shows "(log_bytes messages < limit \<longrightarrow>
      lc_messages (fold lc_log messages (lc_new_with_limit (Some limit))) = messages) \<and>
    (\<forall>before m after. messages = before @ m # after \<and> log_bytes before < limit \<and> limit \<le> log_bytes before + length m \<longrightarrow>
      lc_messages (fold lc_log messages (lc_new_with_limit (Some limit))) =
        before @ LOG_TRUNCATED # fitting limit (log_bytes before) after \<and>
      log_bytes (before @ fitting limit (log_bytes before) after) < limit)"
proof -
  let ?new = "lc_new_with_limit (Some limit)"
  have new: "lc_bytes_limit ?new = Some limit" "lc_bytes_written ?new = 0" "lc_messages ?new = []" "\<not> lc_limit_warning ?new"
    by (simp_all add: lc_new_with_limit_def lc_default_def)
  have "lc_messages (fold lc_log messages ?new) = messages" if "log_bytes messages < limit"
    using log_while_fitting [OF new(1), of messages] new that assms(2) by simp
  moreover have "lc_messages (fold lc_log messages ?new) = before @ LOG_TRUNCATED # fitting limit (log_bytes before) after"
    if m: "messages = before @ m # after" "log_bytes before < limit" "limit \<le> log_bytes before + length m" for before m after
  proof -
    let ?lc = "?new\<lparr>lc_bytes_written := log_bytes before, lc_messages := before\<rparr>"
    have "fold lc_log before ?new = ?lc" using log_while_fitting [OF new(1), of before] new m(2) assms(2) by simp
    moreover have "lc_log m ?lc = ?lc\<lparr>lc_limit_warning := True, lc_messages := before @ [LOG_TRUNCATED]\<rparr>"
      using new m(3) saturating_limit [OF assms(2)] by (simp add: lc_log_def Let_def)
    ultimately show ?thesis using log_after_notice [OF _ _ assms(2), of "lc_log m ?lc" after] new m(1) by simp
  qed
  moreover have "log_bytes (before @ fitting limit (log_bytes before) after) < limit" if "log_bytes before < limit" for before after
    using fitting_bytes [OF that] by simp
  ultimately show ?thesis by blast
qed

theorem log_bounded_witness:
  "lc_messages (fold lc_log [''ab'', ''cdefgh'', ''x''] (lc_new_with_limit (Some 5))) = [''ab'', LOG_TRUNCATED, ''x'']"
proof -
  have cut: "[''ab'', ''cdefgh'', ''x''] = [''ab''] @ ''cdefgh'' # [''x''] \<and> log_bytes [''ab''] < 5 \<and>
      5 \<le> log_bytes [''ab''] + length ''cdefgh''"
    by simp
  have "(0 :: nat) < 5" "(5 :: nat) < 2 ^ 64" by simp_all
  from log_bounded [OF this, THEN conjunct2, THEN spec, THEN spec, THEN spec, THEN mp, OF cut, THEN conjunct1]
  show ?thesis by simp
qed

end
