(* ===== verification/Invoke_Context.thy ===== *)
theory Invoke_Context
  imports Borrowed_Account Message Log_Collector
begin

text \<open>
  The invoke context (\<^verbatim>\<open>program-runtime/src/invoke_context.rs\<close>): compute metering, the heap allocator
  of a program, the invocation stack with its reentrancy rule, the preparation of cross-program
  invocations and the execution of an instruction by a builtin program.

  A builtin program is a function of the runtime's \<^verbatim>\<open>native_invoke\<close> and of the context, so that a
  program which calls other programs is an ordinary argument of the model.  The virtual machine
  (\<^verbatim>\<open>solana_rbpf\<close>) only passes the call on; the program cache appears as its lookup function.  The
  nesting of invocations is bounded by the stack capacity; the recursion counts it down, and
  \<open>Call_Depth\<close> shows that the bound is never what ends the recursion.
\<close>

section \<open>State\<close>

record bpf_allocator =
  alloc_len :: u64
  alloc_pos :: u64

record syscall_context =
  sc_allocator :: bpf_allocator
  sc_trace_log :: "u64 list list"

text \<open>The part of \<^verbatim>\<open>ComputeBudget\<close> that the invoke context itself reads.\<close>

record compute_budget =
  cb_compute_unit_limit :: u64

record invoke_context =
  iv_tc :: transaction_context
  iv_log_collector :: "log_collector option"
  iv_compute_budget :: compute_budget
  iv_current_compute_budget :: compute_budget
  iv_compute_meter :: u64
  iv_syscall_context :: "syscall_context option list"
  iv_traces :: "u64 list list list"

type_synonym 'a iv_action = "(invoke_context, instruction_error, 'a) action"

text \<open>How keys and errors are printed: base58 and the generated \<^verbatim>\<open>Display\<close> implementations.\<close>

record display =
  show_key :: "pubkey \<Rightarrow> string"
  show_error :: "instruction_error \<Rightarrow> string"

definition with_tc :: "'a tx_action \<Rightarrow> 'a iv_action" where
  "with_tc m iv = (case m (iv_tc iv) of (r, tc) \<Rightarrow> (r, iv\<lparr>iv_tc := tc\<rparr>))"

definition invoke_context_new ::
    "transaction_context \<Rightarrow> log_collector option \<Rightarrow> compute_budget \<Rightarrow> invoke_context" where
  "invoke_context_new tc lc budget =
     \<lparr>iv_tc = tc, iv_log_collector = lc, iv_compute_budget = budget,
      iv_current_compute_budget = budget, iv_compute_meter = cb_compute_unit_limit budget,
      iv_syscall_context = [], iv_traces = []\<rparr>"

definition iv_msg :: "(log_collector option \<Rightarrow> log_collector option) \<Rightarrow> invoke_context \<Rightarrow> invoke_context" where
  "iv_msg f iv = iv\<lparr>iv_log_collector := f (iv_log_collector iv)\<rparr>"

section \<open>Metering and the heap\<close>

definition iv_consume :: "u64 \<Rightarrow> invoke_context \<Rightarrow> invoke_context" where
  "iv_consume amount iv = iv\<lparr>iv_compute_meter := saturating_sub (iv_compute_meter iv) amount\<rparr>"

definition get_remaining :: "invoke_context \<Rightarrow> u64" where
  "get_remaining iv = iv_compute_meter iv"

definition consume_checked :: "u64 \<Rightarrow> unit iv_action" where
  "consume_checked amount iv =
     (let exceeded = iv_compute_meter iv < amount;
          iv' = iv\<lparr>iv_compute_meter := saturating_sub (iv_compute_meter iv) amount\<rparr>
      in if exceeded then (Inl ComputationalBudgetExceeded, iv') else (Inr (), iv'))"

definition bpf_allocator_new :: "u64 \<Rightarrow> bpf_allocator" where
  "bpf_allocator_new len = \<lparr>alloc_len = len, alloc_pos = 0\<rparr>"

text \<open>\<^verbatim>\<open>align_offset\<close> of a byte pointer, for the power-of-two alignments of a \<^verbatim>\<open>Layout\<close>.\<close>

definition align_offset :: "u64 \<Rightarrow> nat \<Rightarrow> u64" where
  "align_offset pos align = of_nat ((align - unat pos mod align) mod align)"

definition bpf_alloc :: "u64 \<Rightarrow> nat \<Rightarrow> u64 \<Rightarrow> bpf_allocator \<Rightarrow> u64 option \<times> bpf_allocator" where
  "bpf_alloc heap_start align layout_size a =
     (let bytes_to_align = align_offset (alloc_pos a) align in
      if saturating_add (saturating_add (alloc_pos a) bytes_to_align) layout_size \<le> alloc_len a then
        let pos = saturating_add (alloc_pos a) bytes_to_align
        in (Some (saturating_add heap_start pos), a\<lparr>alloc_pos := saturating_add pos layout_size\<rparr>)
      else (None, a))"

section \<open>The invocation stack\<close>

text \<open>A borrow that is dropped at once: its outcome without the borrow flag it sets and clears.\<close>

definition peek :: "borrowed_account tx_action \<Rightarrow> transaction_context \<Rightarrow> instruction_error + borrowed_account" where
  "peek m tc = fst (m tc)"

definition runs_program :: "transaction_context \<Rightarrow> pubkey \<Rightarrow> instruction_error + instruction_context \<Rightarrow> bool" where
  "runs_program tc program_id level =
     (case and_then level (\<lambda>ic. peek (try_borrow_last_program_account ic) tc) of
        Inl _ \<Rightarrow> False
      | Inr b \<Rightarrow> ba_get_key b tc = program_id)"

definition iv_push :: "unit iv_action" where
  "iv_push iv =
     (let tc = iv_tc iv in
      case get_instruction_context_at_index_in_trace tc (get_instruction_trace_length tc) of
        Inl e \<Rightarrow> (Inl e, iv)
      | Inr ic \<Rightarrow>
          (case get_last_program_key ic tc of
             Inl _ \<Rightarrow> (Inl UnsupportedProgramId, iv)
           | Inr program_id \<Rightarrow>
               if get_instruction_context_stack_height tc = 0 then
                 bind (modify (\<lambda>iv. iv\<lparr>iv_syscall_context := iv_syscall_context iv @ [None]\<rparr>))
                   (\<lambda>_. with_tc tc_push) (iv\<lparr>iv_current_compute_budget := iv_compute_budget iv\<rparr>)
               else
                 let contains = list_ex (\<lambda>level.
                       runs_program tc program_id (get_instruction_context_at_nesting_level tc level))
                       [0..<get_instruction_context_stack_height tc];
                     is_last = runs_program tc program_id (get_current_instruction_context tc)
                 in if contains \<and> \<not> is_last then (Inl ReentrancyNotAllowed, iv)
                    else bind (modify (\<lambda>iv. iv\<lparr>iv_syscall_context := iv_syscall_context iv @ [None]\<rparr>))
                           (\<lambda>_. with_tc tc_push) iv))"

definition iv_pop :: "unit iv_action" where
  "iv_pop =
     bind (modify (\<lambda>iv.
       (case last_opt (iv_syscall_context iv) of
          Some (Some sc) \<Rightarrow> iv\<lparr>iv_traces := iv_traces iv @ [sc_trace_log sc],
                              iv_syscall_context := butlast (iv_syscall_context iv)\<rparr>
        | _ \<Rightarrow> iv\<lparr>iv_syscall_context := butlast (iv_syscall_context iv)\<rparr>)))
     (\<lambda>_. with_tc tc_pop)"

definition iv_get_stack_height :: "invoke_context \<Rightarrow> nat" where
  "iv_get_stack_height iv = get_instruction_context_stack_height (iv_tc iv)"

definition set_syscall_context :: "syscall_context \<Rightarrow> unit iv_action" where
  "set_syscall_context sc =
     bind (reads (\<lambda>iv. ok_or CallDepth (last_opt (iv_syscall_context iv)))) (\<lambda>_.
     modify (\<lambda>iv. iv\<lparr>iv_syscall_context := butlast (iv_syscall_context iv) @ [Some sc]\<rparr>))"

definition get_syscall_context :: "invoke_context \<Rightarrow> instruction_error + syscall_context" where
  "get_syscall_context iv =
     (case last_opt (iv_syscall_context iv) of Some (Some sc) \<Rightarrow> Inr sc | _ \<Rightarrow> Inl CallDepth)"

text \<open>Alignment is enforced unless the current program belongs to the deprecated loader.\<close>

definition get_check_aligned :: "invoke_context \<Rightarrow> bool" where
  "get_check_aligned iv =
     (case and_then (get_current_instruction_context (iv_tc iv))
             (\<lambda>ic. peek (try_borrow_last_program_account ic) (iv_tc iv)) of
        Inl _ \<Rightarrow> True
      | Inr b \<Rightarrow> ba_get_owner b (iv_tc iv) \<noteq> bpf_loader_deprecated_id)"

section \<open>Preparing an invocation\<close>

text \<open>A refused preparation: the error and the line it logs, if any.\<close>

type_synonym refusal = "instruction_error \<times> string option"

abbreviation unknown_account :: "display \<Rightarrow> pubkey \<Rightarrow> refusal" where
  "unknown_account d key \<equiv>
     (MissingAccount, Some (''Instruction references an unknown account '' @ show_key d key))"

fun prepare_dedup ::
    "display \<Rightarrow> transaction_context \<Rightarrow> instruction_context \<Rightarrow> nat \<Rightarrow> account_meta list \<Rightarrow>
     instruction_account list \<Rightarrow> nat list \<Rightarrow> refusal + instruction_account list \<times> nat list" where
  "prepare_dedup d tc ic index [] dedup dups = Inr (dedup, dups)"
| "prepare_dedup d tc ic index (am # ams) dedup dups =
     (case find_index_of_account tc (am_pubkey am) of
        None \<Rightarrow> Inl (unknown_account d (am_pubkey am))
      | Some index_in_transaction \<Rightarrow>
          (case position (\<lambda>ia. ia_index_in_transaction ia = index_in_transaction) dedup of
             Some dup \<Rightarrow>
               (case get dedup dup of
                  None \<Rightarrow> Inl (NotEnoughAccountKeys, None)
                | Some ia \<Rightarrow>
                    prepare_dedup d tc ic (Suc index) ams
                      (dedup[dup := ia\<lparr>ia_is_signer := ia_is_signer ia \<or> am_is_signer am,
                                       ia_is_writable := ia_is_writable ia \<or> am_is_writable am\<rparr>])
                      (dups @ [dup]))
           | None \<Rightarrow>
               (case ic_find_index_of_instruction_account ic tc (am_pubkey am) of
                  None \<Rightarrow> Inl (unknown_account d (am_pubkey am))
                | Some index_in_caller \<Rightarrow>
                    prepare_dedup d tc ic (Suc index) ams
                      (dedup @ [\<lparr>ia_index_in_transaction = index_in_transaction,
                                 ia_index_in_caller = index_in_caller,
                                 ia_index_in_callee = as_u16 index,
                                 ia_is_signer = am_is_signer am, ia_is_writable = am_is_writable am\<rparr>])
                      (dups @ [length dedup]))))"

fun check_privileges ::
    "display \<Rightarrow> transaction_context \<Rightarrow> instruction_context \<Rightarrow> pubkey list \<Rightarrow>
     instruction_account list \<Rightarrow> refusal + unit" where
  "check_privileges d tc ic signers [] = Inr ()"
| "check_privileges d tc ic signers (ia # ias) =
     (case peek (try_borrow_instruction_account ic (ia_index_in_caller ia)) tc of
        Inl e \<Rightarrow> Inl (e, None)
      | Inr b \<Rightarrow>
          if ia_is_writable ia \<and> \<not> ba_is_writable b then
            Inl (PrivilegeEscalation, Some (show_key d (ba_get_key b tc) @ CHR 0x27 # ''s writable privilege escalated''))
          else if ia_is_signer ia \<and> \<not> (ba_is_signer b \<or> ba_get_key b tc \<in> set signers) then
            Inl (PrivilegeEscalation, Some (show_key d (ba_get_key b tc) @ CHR 0x27 # ''s signer privilege escalated''))
          else check_privileges d tc ic signers ias)"

definition callee_program ::
    "display \<Rightarrow> transaction_context \<Rightarrow> instruction_context \<Rightarrow> pubkey \<Rightarrow> refusal + nat list" where
  "callee_program d tc ic callee =
     (case ic_find_index_of_instruction_account ic tc callee of
        None \<Rightarrow> Inl (MissingAccount, Some (''Unknown program '' @ show_key d callee))
      | Some index \<Rightarrow>
          (case peek (try_borrow_instruction_account ic index) tc of
             Inl e \<Rightarrow> Inl (e, None)
           | Inr b \<Rightarrow>
               if \<not> ba_is_executable b tc
               then Inl (AccountNotExecutable,
                         Some (''Account '' @ show_key d callee @ '' is not executable''))
               else Inr [ba_index_in_transaction b]))"

definition prepare ::
    "display \<Rightarrow> instruction \<Rightarrow> pubkey list \<Rightarrow> transaction_context \<Rightarrow>
     refusal + instruction_account list \<times> nat list" where
  "prepare d ix signers tc =
     (case get_current_instruction_context tc of
        Inl e \<Rightarrow> Inl (e, None)
      | Inr ic \<Rightarrow>
          and_then (prepare_dedup d tc ic 0 (ix_accounts ix) [] []) (\<lambda>(dedup, dups).
          and_then (check_privileges d tc ic signers dedup) (\<lambda>_.
          and_then (collect_res (map (\<lambda>dup. ok_or (NotEnoughAccountKeys, None) (get dedup dup)) dups)) (\<lambda>accounts.
          and_then (callee_program d tc ic (ix_program_id ix)) (\<lambda>program_indices.
            Inr (accounts, program_indices))))))"

definition prepare_instruction ::
    "display \<Rightarrow> instruction \<Rightarrow> pubkey list \<Rightarrow> (instruction_account list \<times> nat list) iv_action" where
  "prepare_instruction d ix signers iv =
     (case prepare d ix signers (iv_tc iv) of
        Inr r \<Rightarrow> (Inr r, iv)
      | Inl (e, None) \<Rightarrow> (Inl e, iv)
      | Inl (e, Some line) \<Rightarrow> (Inl e, iv_msg (ic_logger_msg line) iv))"

section \<open>Executing an instruction\<close>

text \<open>What a builtin returns: its instruction error, or another boxed error and how it is printed.\<close>

datatype program_failure = InstructionFailure instruction_error | OtherFailure string

type_synonym invoke = "instruction \<Rightarrow> pubkey list \<Rightarrow> unit iv_action"
type_synonym builtin = "invoke \<Rightarrow> (invoke_context, program_failure, unit) action"

datatype loaded_program_type = Builtin "builtin option" | NotBuiltin

type_synonym programs = "pubkey \<Rightarrow> loaded_program_type option"

text \<open>\<^verbatim>\<open>declare_process_instruction!\<close>: the adapter that charges the default compute units.\<close>

definition declare_process_instruction :: "u64 \<Rightarrow> (invoke \<Rightarrow> unit iv_action) \<Rightarrow> builtin" where
  "declare_process_instruction cu inner invoke iv =
     (case (if 0 < cu then consume_checked cu else ret ()) iv of
        (Inl e, iv') \<Rightarrow> (Inl (InstructionFailure e), iv')
      | (Inr _, iv') \<Rightarrow>
          (case inner invoke iv' of
             (Inl e, iv'') \<Rightarrow> (Inl (InstructionFailure e), iv'')
           | (Inr _, iv'') \<Rightarrow> (Inr (), iv'')))"

definition find_builtin ::
    "programs \<Rightarrow> transaction_context \<Rightarrow> instruction_error + pubkey \<times> builtin \<times> pubkey" where
  "find_builtin programs tc =
     and_then (get_current_instruction_context tc) (\<lambda>ic.
     (case peek (try_borrow_program_account ic 0) tc of
        Inl _ \<Rightarrow> Inl UnsupportedProgramId
      | Inr root \<Rightarrow>
          (let owner = ba_get_owner root tc;
               builtin_id = (if owner = native_loader_id then ba_get_key root tc else owner)
           in case programs builtin_id of
                Some (Builtin (Some function)) \<Rightarrow>
                  and_then (get_last_program_key ic tc) (\<lambda>program_id.
                    Inr (builtin_id, function, program_id))
              | _ \<Rightarrow> Inl UnsupportedProgramId)))"

definition program_outcome ::
    "display \<Rightarrow> pubkey \<Rightarrow> (program_failure + unit) \<times> invoke_context \<Rightarrow>
     (instruction_error + unit) \<times> invoke_context" where
  "program_outcome d program_id outcome =
     (case outcome of
        (Inr _, iv) \<Rightarrow> (Inr (), iv_msg (program_success (show_key d program_id)) iv)
      | (Inl (InstructionFailure e), iv) \<Rightarrow>
          (Inl e, iv_msg (program_failure (show_key d program_id) (show_error d e)) iv)
      | (Inl (OtherFailure text), iv) \<Rightarrow>
          (Inl ProgramFailedToComplete, iv_msg (program_failure (show_key d program_id) text) iv))"

text \<open>The result, the compute units consumed, and the context after the call.\<close>

type_synonym execution = "((instruction_error + unit) \<times> u64) \<times> invoke_context"

definition process_executable_chain :: "display \<Rightarrow> programs \<Rightarrow> invoke \<Rightarrow> invoke_context \<Rightarrow> execution" where
  "process_executable_chain d programs invoke iv =
     (case find_builtin programs (iv_tc iv) of
        Inl e \<Rightarrow> ((Inl e, 0), iv)
      | Inr (builtin_id, function, program_id) \<Rightarrow>
          (let iv1 = snd (with_tc (set_return_data program_id []) iv);
               iv2 = iv_msg (program_invoke (show_key d program_id) (iv_get_stack_height iv1)) iv1;
               pre = get_remaining iv2;
               (result, iv3) = program_outcome d program_id (function invoke iv2);
               consumed = saturating_sub pre (get_remaining iv3)
           in if builtin_id = program_id \<and> result = Inr () \<and> consumed = 0
              then ((Inl BuiltinProgramsMustConsumeComputeUnits, consumed), iv3)
              else ((result, consumed), iv3)))"

text \<open>\<^verbatim>\<open>Result::and\<close>: the second result, unless the first one is an error.\<close>

definition result_and :: "'e + unit \<Rightarrow> 'e + unit \<Rightarrow> 'e + unit" where
  "result_and r s = (case r of Inl e \<Rightarrow> Inl e | Inr _ \<Rightarrow> s)"

type_synonym process = "bytes \<Rightarrow> instruction_account list \<Rightarrow> nat list \<Rightarrow> invoke_context \<Rightarrow> execution"

definition process_with :: "display \<Rightarrow> programs \<Rightarrow> invoke \<Rightarrow> process" where
  "process_with d programs invoke instruction_data accounts program_indices iv =
     (case with_tc (with_next_instruction_context
             (ic_configure program_indices accounts instruction_data)) iv of
        (Inl e, iv1) \<Rightarrow> ((Inl e, 0), iv1)
      | (Inr _, iv1) \<Rightarrow>
          (case iv_push iv1 of
             (Inl e, iv2) \<Rightarrow> ((Inl e, 0), iv2)
           | (Inr _, iv2) \<Rightarrow>
               (case process_executable_chain d programs invoke iv2 of
                  ((result, consumed), iv3) \<Rightarrow>
                    (case iv_pop iv3 of
                       (popped, iv4) \<Rightarrow> ((result_and result popped, consumed), iv4)))))"

definition native_invoke_with :: "display \<Rightarrow> process \<Rightarrow> invoke" where
  "native_invoke_with d process ix signers =
     bind (prepare_instruction d ix signers) (\<lambda>(accounts, program_indices) iv.
       case process (ix_data ix) accounts program_indices iv of ((result, _), iv') \<Rightarrow> (result, iv'))"

text \<open>\<^verbatim>\<open>process_instruction\<close> and \<^verbatim>\<open>native_invoke\<close>, with a bound on the nesting of invocations.\<close>

primrec process_instruction :: "nat \<Rightarrow> display \<Rightarrow> programs \<Rightarrow> process" where
  "process_instruction 0 d programs =
     (\<lambda>instruction_data accounts program_indices iv. ((Inl CallDepth, 0), iv))"
| "process_instruction (Suc n) d programs =
     process_with d programs (native_invoke_with d (process_instruction n d programs))"

definition native_invoke :: "nat \<Rightarrow> display \<Rightarrow> programs \<Rightarrow> invoke" where
  "native_invoke n d programs = native_invoke_with d (process_instruction n d programs)"

end
