(* ===== verification/Message_Processor.thy ===== *)
theory Message_Processor
  imports Invoke_Context
begin

text \<open>
  \<^verbatim>\<open>MessageProcessor::process_message\<close> (\<^verbatim>\<open>program-runtime/src/message_processor.rs\<close>): the instructions of
  a message run one after the other, each with the privileges the message grants, except that an
  account which was loaded from the base layer is never writable.  A panic is \<^term>\<open>None\<close>; timings are
  not modelled.
\<close>

datatype transaction_error =
  TE_AccountInUse
| TE_AccountLoadedTwice
| TE_AccountNotFound
| TE_ProgramAccountNotFound
| TE_InsufficientFundsForFee
| TE_InvalidAccountForFee
| TE_AlreadyProcessed
| TE_BlockhashNotFound
| TE_InstructionError u8 instruction_error
| TE_CallChainTooDeep
| TE_MissingSignatureForFee
| TE_InvalidAccountIndex
| TE_SignatureFailure
| TE_InvalidProgramForExecution
| TE_SanitizeFailure
| TE_ClusterMaintenance
| TE_AccountBorrowOutstanding
| TE_WouldExceedMaxBlockCostLimit
| TE_UnsupportedVersion
| TE_InvalidWritableAccount
| TE_WouldExceedMaxAccountCostLimit
| TE_WouldExceedAccountDataBlockLimit
| TE_TooManyAccountLocks
| TE_AddressLookupTableNotFound
| TE_InvalidAddressLookupTableOwner
| TE_InvalidAddressLookupTableData
| TE_InvalidAddressLookupTableIndex
| TE_InvalidRentPayingAccount
| TE_WouldExceedMaxVoteCostLimit
| TE_WouldExceedAccountDataTotalLimit
| TE_DuplicateInstruction u8
| TE_InsufficientFundsForRent u8
| TE_MaxLoadedAccountsDataSizeExceeded
| TE_InvalidLoadedAccountsDataSizeLimit
| TE_ResanitizationNeeded
| TE_ProgramExecutionTemporarilyRestricted u8
| TE_UnbalancedTransaction

text \<open>Both precompiles are always enabled.\<close>

definition PRECOMPILES :: "pubkey list" where
  "PRECOMPILES = [secp256k1_program_id, ed25519_program_id]"

definition is_precompile :: "pubkey \<Rightarrow> bool" where
  "is_precompile program_id \<longleftrightarrow> list_ex (\<lambda>p. p = program_id) PRECOMPILES"

definition store_current_index :: "nat \<Rightarrow> bytes \<Rightarrow> bytes option" where
  "store_current_index index bs =
     (if length bs < 2 then None
      else Some (take (length bs - 2) bs @ [of_nat (index mod 256), of_nat (index div 256 mod 256)]))"

text \<open>Before each instruction its index is written into the instructions sysvar, if it is loaded.\<close>

definition fixup_instructions_sysvar ::
    "nat \<Rightarrow> transaction_context \<Rightarrow> (transaction_error + transaction_context) option" where
  "fixup_instructions_sysvar index tc =
     (case find_index_of_account tc instructions_sysvar_id of
        None \<Rightarrow> Some (Inr tc)
      | Some i \<Rightarrow>
          (case get_account_at_index tc i of
             Inl _ \<Rightarrow> Some (Inl TE_InvalidAccountIndex)
           | Inr cell \<Rightarrow>
               if \<not> can_borrow_mut cell then None
               else map_option (\<lambda>d. Inr (update_account i (\<lambda>a. a\<lparr>acct_data := d\<rparr>) tc))
                      (store_current_index index (acct_data (rc_value cell)))))"

definition is_remote_account :: "transaction_context \<Rightarrow> pubkey \<Rightarrow> bool option" where
  "is_remote_account tc key =
     (case find_index_of_account tc key of
        None \<Rightarrow> Some False
      | Some i \<Rightarrow>
          (case get_account_at_index tc i of
             Inl _ \<Rightarrow> None
           | Inr cell \<Rightarrow> if can_borrow cell then Some (acct_remote (rc_value cell)) else None))"

definition message_account ::
    "sanitized_message \<Rightarrow> transaction_context \<Rightarrow> u8 list \<Rightarrow> nat \<Rightarrow> u8 \<Rightarrow> instruction_account option" where
  "message_account message tc accounts index account_index =
     (let index_in_callee =
            (case position (\<lambda>a. a = account_index) (take index accounts) of
               None \<Rightarrow> index | Some i \<Rightarrow> i);
          index_in_transaction = unat account_index
      in case ak_get (sm_account_keys message) index_in_transaction of
           None \<Rightarrow> None
         | Some pubkey \<Rightarrow>
             map_option
               (\<lambda>remote.
                 \<lparr>ia_index_in_transaction = index_in_transaction,
                  ia_index_in_caller = index_in_transaction,
                  ia_index_in_callee = as_u16 index_in_callee,
                  ia_is_signer = sm_is_signer message index_in_transaction,
                  ia_is_writable =
                    (if remote then False else sm_is_writable message index_in_transaction)\<rparr>)
               (is_remote_account tc pubkey))"

definition message_accounts ::
    "sanitized_message \<Rightarrow> transaction_context \<Rightarrow> u8 list \<Rightarrow> instruction_account list option" where
  "message_accounts message tc accounts =
     collect_opt (map (\<lambda>(index, account_index). message_account message tc accounts index account_index)
       (enumerate 0 accounts))"

text \<open>A precompile only passes through the stack; its verification happened before.\<close>

definition run_precompile :: "nat list \<Rightarrow> instruction_account list \<Rightarrow> bytes \<Rightarrow> unit tx_action" where
  "run_precompile program_indices accounts instruction_data =
     bind (with_next_instruction_context (ic_configure program_indices accounts instruction_data)) (\<lambda>_.
     bind tc_push (\<lambda>_. tc_pop))"

definition process_one ::
    "process \<Rightarrow> sanitized_message \<Rightarrow> nat \<Rightarrow> pubkey \<times> compiled_instruction \<Rightarrow> nat list \<Rightarrow>
     u64 \<times> invoke_context \<Rightarrow> ((transaction_error + unit) \<times> u64 \<times> invoke_context) option" where
  "process_one process message index pi program_indices s =
     (case (pi, s) of ((program_id, ci), (units, iv)) \<Rightarrow>
      case fixup_instructions_sysvar index (iv_tc iv) of
        None \<Rightarrow> None
      | Some (Inl e) \<Rightarrow> Some (Inl e, units, iv)
      | Some (Inr tc) \<Rightarrow>
          (case message_accounts message tc (ci_accounts ci) of
             None \<Rightarrow> None
           | Some accounts \<Rightarrow>
               (let iv1 = iv\<lparr>iv_tc := tc\<rparr>;
                    wrap = (\<lambda>r. case r of Inl e \<Rightarrow> Inl (TE_InstructionError (of_nat index) e) | Inr u \<Rightarrow> Inr u)
                in if is_precompile program_id then
                     (case with_tc (run_precompile program_indices accounts (ci_data ci)) iv1 of
                        (r, iv2) \<Rightarrow> Some (wrap r, units, iv2))
                   else
                     (case process (ci_data ci) accounts program_indices iv1 of
                        ((r, consumed), iv2) \<Rightarrow> Some (wrap r, saturating_add units consumed, iv2)))))"

text \<open>
  The loop over the instructions and their program indices.  The program key of an instruction is
  looked up when its turn comes, as the lazy iterator does, and a missing key panics then.
\<close>

fun process_all ::
    "process \<Rightarrow> sanitized_message \<Rightarrow> nat \<Rightarrow> (compiled_instruction \<times> nat list) list \<Rightarrow>
     u64 \<times> invoke_context \<Rightarrow> ((transaction_error + unit) \<times> u64 \<times> invoke_context) option" where
  "process_all process message index [] s = Some (Inr (), s)"
| "process_all process message index ((ci, program_indices) # rest) s =
     (case ak_get (sm_account_keys message) (unat (ci_program_id_index ci)) of
        None \<Rightarrow> None
      | Some program_id \<Rightarrow>
          (case process_one process message index (program_id, ci) program_indices s of
             None \<Rightarrow> None
           | Some (Inl e, s') \<Rightarrow> Some (Inl e, s')
           | Some (Inr _, s') \<Rightarrow> process_all process message (Suc index) rest s'))"

definition process_message ::
    "nat \<Rightarrow> display \<Rightarrow> programs \<Rightarrow> sanitized_message \<Rightarrow> nat list list \<Rightarrow> transaction_context \<Rightarrow>
     log_collector option \<Rightarrow> compute_budget \<Rightarrow> u64 \<Rightarrow>
     ((transaction_error + unit) \<times> u64 \<times> invoke_context) option" where
  "process_message depth d programs message program_indices tc lc budget units =
     process_all (process_instruction depth d programs) message 0
       (zip (sm_instructions message) program_indices) (units, invoke_context_new tc lc budget)"

end
