(* ===== verification/Runtime_Properties.thy ===== *)
theory Runtime_Properties
  imports Message_Processor System_Properties
begin

text \<open>
  What the runtime guarantees around programs: a prepared invocation carries no privilege that its
  caller lacks, and the heap allocator hands out disjoint aligned blocks.
\<close>

section \<open>Heap blocks\<close>

text \<open>
  The heap of a program: an allocation from a power-of-two-aligned request that succeeds starts
  at an aligned offset at or after the old position, lies within the heap and ends at the new position,
  so that later blocks never overlap earlier ones; a request that does not fit changes nothing.
\<close>

theorem bpf_alloc_blocks:
  assumes "bpf_alloc heap_start align layout_size a = (r, a')" and "align = 2 ^ k" and "k < 64"
    and "unat heap_start + unat (alloc_len a) + 1 < 2 ^ 64"
  shows "(case r of
      None \<Rightarrow> a' = a
    | Some addr \<Rightarrow>
        alloc_len a' = alloc_len a \<and> alloc_pos a' \<le> alloc_len a \<and>
        (\<exists>off. unat addr = unat heap_start + off \<and> align dvd off \<and> unat (alloc_pos a) \<le> off \<and>
           unat (alloc_pos a') = off + unat layout_size))"
proof -
  let ?pos = "unat (alloc_pos a)" and ?al = "unat (align_offset (alloc_pos a) align)"
  have "(align - ?pos mod align) mod align < align" using assms(2) by simp
  also have "\<dots> \<le> 2 ^ 64" unfolding assms(2) using assms(3) by (intro power_increasing) auto
  finally have "(align - ?pos mod align) mod align < 2 ^ 64" .
  then have al: "?al = (align - ?pos mod align) mod align"
    by (simp add: align_offset_def unsigned_of_nat take_bit_nat_eq_self)
  have dvd: "align dvd ?pos + ?al"
  proof (cases "?pos mod align = 0")
    case True
    then show ?thesis by (auto simp: al)
  next
    case False
    then have "?al = align - ?pos mod align" unfolding al using assms(2) by (intro mod_less) simp
    moreover have "?pos mod align \<le> align" using assms(2) by (simp add: less_imp_le)
    ultimately have "?pos + ?al = ?pos div align * align + align"
      using div_mult_mod_eq [of ?pos align] by linarith
    then show ?thesis by simp
  qed
  show ?thesis
  proof (cases r)
    case None
    then show ?thesis
      using assms(1) unat_u64_less [of "alloc_len a"] by (auto simp: bpf_alloc_def Let_def split: if_splits)
  next
    case (Some addr)
    let ?p = "saturating_add (alloc_pos a) (align_offset (alloc_pos a) align)"
    have fits: "saturating_add ?p layout_size \<le> alloc_len a"
        "addr = saturating_add heap_start ?p" "a' = a\<lparr>alloc_pos := saturating_add ?p layout_size\<rparr>"
      using assms(1) Some by (auto simp: bpf_alloc_def Let_def split: if_splits)
    have "unat (saturating_add ?p layout_size) < 2 ^ 64 - 1"
      using fits(1) assms(4) by (simp add: word_le_nat_alt)
    then have size: "unat (saturating_add ?p layout_size) = unat ?p + unat layout_size"
      and "unat ?p < 2 ^ 64 - 1"
      by (auto simp: unat_saturating_add [of ?p] min_def split: if_splits)
    then have p: "unat ?p = ?pos + ?al"
      by (auto simp: unat_saturating_add min_def split: if_splits)
    have "unat ?p \<le> unat (alloc_len a)"
      using fits(1) size by (simp add: word_le_nat_alt)
    then have "unat addr = unat heap_start + unat ?p"
      using assms(4) fits(2) by (simp add: unat_saturating_add)
    then show ?thesis
      using Some fits(1,3) size p dvd by (auto intro!: exI [of _ "?pos + ?al"])
  qed
qed

theorem bpf_alloc_blocks_witness:
  "\<exists>r a'. bpf_alloc 0x300000000 8 24 \<lparr>alloc_len = 32768, alloc_pos = 5\<rparr> = (r, a') \<and>
     r = Some 0x300000008 \<and> alloc_pos a' = 32"
proof -
  let ?a = "\<lparr>alloc_len = 32768, alloc_pos = 5\<rparr>"
  obtain r a' where run: "bpf_alloc 0x300000000 8 24 ?a = (r, a')" by fastforce
  have "r = Some 0x300000008 \<and> alloc_pos a' = 32"
    using run by (auto simp: bpf_alloc_def Let_def align_offset_def saturating_add_def)
  with bpf_alloc_blocks [OF run, of 3] run show ?thesis by blast
qed

section \<open>Prepared invocations\<close>

definition keys_ok :: "transaction_context \<Rightarrow> bool" where
  "keys_ok tc \<longleftrightarrow> distinct (tc_account_keys tc) \<and> length (tc_account_keys tc) < 65536"

definition signer_in :: "instruction_context \<Rightarrow> nat \<Rightarrow> bool" where
  "signer_in ic i \<longleftrightarrow>
     list_ex (\<lambda>ia. ia_index_in_transaction ia = i \<and> ia_is_signer ia) (ic_instruction_accounts ic)"

lemma get_inj: "distinct xs \<Longrightarrow> get xs i = Some x \<Longrightarrow> get xs j = Some x \<Longrightarrow> i = j"
  by (auto simp: get_Some nth_eq_iff_index_eq)

lemma find_index_key:
  assumes "keys_ok tc" and "find_index_of_account tc key = Some i"
  shows "get (tc_account_keys tc) i = Some key"
  using assms by (auto simp: keys_ok_def find_index_of_account_def position_Some get_def)

lemma caller_index:
  assumes "keys_ok tc" and "ic_small ic" and "get (tc_account_keys tc) i = Some key"
    and "ic_find_index_of_instruction_account ic tc key = Some c"
  shows "get_index_of_instruction_account_in_transaction ic c = Inr i"
    and "c < length (ic_instruction_accounts ic)"
proof -
  from assms(4) obtain k where k: "k < length (ic_instruction_accounts ic)" "c = as_u16 k"
      "get (tc_account_keys tc) (ia_index_in_transaction (ic_instruction_accounts ic ! k)) = Some key"
    by (auto simp: ic_find_index_of_instruction_account_def position_Some)
  moreover have "k < 65536" using k(1) assms(2) by (simp add: ic_small_def)
  moreover have "ia_index_in_transaction (ic_instruction_accounts ic ! k) = i"
    using get_inj [OF _ k(3) assms(3)] assms(1) by (simp add: keys_ok_def)
  ultimately show "get_index_of_instruction_account_in_transaction ic c = Inr i"
    "c < length (ic_instruction_accounts ic)"
    by (simp_all add: get_index_of_instruction_account_in_transaction_def get_def ok_or_def)
qed

text \<open>What the deduplication has established for the account metas it has seen.\<close>

definition meta_ok :: "transaction_context \<Rightarrow> instruction_context \<Rightarrow> account_meta list \<Rightarrow> instruction_account \<Rightarrow> bool" where
  "meta_ok tc ic seen ia \<longleftrightarrow>
     (\<exists>key. get (tc_account_keys tc) (ia_index_in_transaction ia) = Some key \<and>
        ic_find_index_of_instruction_account ic tc key = Some (ia_index_in_caller ia) \<and>
        ia_is_signer ia = (\<exists>am \<in> set seen. am_pubkey am = key \<and> am_is_signer am) \<and>
        ia_is_writable ia = (\<exists>am \<in> set seen. am_pubkey am = key \<and> am_is_writable am))"

definition dedup_ok ::
    "transaction_context \<Rightarrow> instruction_context \<Rightarrow> account_meta list \<Rightarrow> instruction_account list \<Rightarrow> nat list \<Rightarrow> bool" where
  "dedup_ok tc ic seen dedup dups \<longleftrightarrow>
     distinct (map ia_index_in_transaction dedup) \<and>
     list_all2 (\<lambda>am dup. dup < length dedup \<and>
       get (tc_account_keys tc) (ia_index_in_transaction (dedup ! dup)) = Some (am_pubkey am)) seen dups \<and>
     (\<forall>ia \<in> set dedup. meta_ok tc ic seen ia)"

lemma dedup_ok_again:
  assumes "dedup_ok tc ic seen dedup dups" and "keys_ok tc"
    and "position (\<lambda>ia. ia_index_in_transaction ia = i) dedup = Some k"
    and "get (tc_account_keys tc) i = Some (am_pubkey am)"
  shows "dedup_ok tc ic (seen @ [am])
    (dedup[k := (dedup ! k)\<lparr>ia_is_signer := ia_is_signer (dedup ! k) \<or> am_is_signer am,
                           ia_is_writable := ia_is_writable (dedup ! k) \<or> am_is_writable am\<rparr>]) (dups @ [k])"
proof -
  let ?new = "(dedup ! k)\<lparr>ia_is_signer := ia_is_signer (dedup ! k) \<or> am_is_signer am,
                           ia_is_writable := ia_is_writable (dedup ! k) \<or> am_is_writable am\<rparr>"
  let ?d = "dedup[k := ?new]"
  have k: "k < length dedup" "ia_index_in_transaction (dedup ! k) = i"
    using assms(3) by (auto simp: position_Some)
  have idx: "map ia_index_in_transaction ?d = map ia_index_in_transaction dedup"
    using k by (simp add: map_update list_update_same_conv)
  have idx_nth: "ia_index_in_transaction (?d ! j) = ia_index_in_transaction (dedup ! j)" if "j < length dedup" for j
    using arg_cong [OF idx, of "\<lambda>xs. xs ! j"] that by simp
  have "meta_ok tc ic (seen @ [am]) ia" if "ia \<in> set ?d" for ia
  proof -
    from that obtain j where j: "j < length dedup" "ia = ?d ! j" by (auto simp: in_set_conv_nth)
    have "meta_ok tc ic seen (dedup ! j)" using assms(1) j(1) by (simp add: dedup_ok_def)
    then obtain key where key: "get (tc_account_keys tc) (ia_index_in_transaction (dedup ! j)) = Some key"
        "ic_find_index_of_instruction_account ic tc key = Some (ia_index_in_caller (dedup ! j))"
        "ia_is_signer (dedup ! j) = (\<exists>am \<in> set seen. am_pubkey am = key \<and> am_is_signer am)"
        "ia_is_writable (dedup ! j) = (\<exists>am \<in> set seen. am_pubkey am = key \<and> am_is_writable am)"
      unfolding meta_ok_def by blast
    have "j = k \<longleftrightarrow> am_pubkey am = key"
    proof
      assume "am_pubkey am = key"
      then have "ia_index_in_transaction (dedup ! j) = ia_index_in_transaction (dedup ! k)"
        using get_inj [OF _ key(1)] assms(2,4) k(2) by (simp add: keys_ok_def)
      then show "j = k"
        using assms(1) j(1) k(1) nth_eq_iff_index_eq [of "map ia_index_in_transaction dedup" j k]
        by (simp add: dedup_ok_def)
    qed (use key(1) assms(4) k(2) in simp)
    with j key k(1) show ?thesis unfolding meta_ok_def by (cases "j = k") auto
  qed
  moreover have "list_all2 (\<lambda>am dup. dup < length ?d \<and>
      get (tc_account_keys tc) (ia_index_in_transaction (?d ! dup)) = Some (am_pubkey am)) (seen @ [am]) (dups @ [k])"
  proof (rule list_all2_appendI)
    have "list_all2 (\<lambda>am dup. dup < length dedup \<and>
        get (tc_account_keys tc) (ia_index_in_transaction (dedup ! dup)) = Some (am_pubkey am)) seen dups"
      using assms(1) by (simp add: dedup_ok_def)
    then show "list_all2 (\<lambda>am dup. dup < length ?d \<and>
        get (tc_account_keys tc) (ia_index_in_transaction (?d ! dup)) = Some (am_pubkey am)) seen dups"
      by (rule list_all2_mono) (simp add: idx_nth)
  qed (use k assms(4) idx_nth in simp)
  ultimately show ?thesis using assms(1) idx unfolding dedup_ok_def by simp
qed

lemma dedup_ok_new:
  assumes "dedup_ok tc ic seen dedup dups" and "keys_ok tc"
    and "position (\<lambda>ia. ia_index_in_transaction ia = i) dedup = None"
    and "get (tc_account_keys tc) i = Some (am_pubkey am)"
    and "ic_find_index_of_instruction_account ic tc (am_pubkey am) = Some c"
  shows "dedup_ok tc ic (seen @ [am])
    (dedup @ [\<lparr>ia_index_in_transaction = i, ia_index_in_caller = c, ia_index_in_callee = e,
              ia_is_signer = am_is_signer am, ia_is_writable = am_is_writable am\<rparr>]) (dups @ [length dedup])"
proof -
  let ?ia = "\<lparr>ia_index_in_transaction = i, ia_index_in_caller = c, ia_index_in_callee = e,
              ia_is_signer = am_is_signer am, ia_is_writable = am_is_writable am\<rparr>"
  have fresh: "i \<notin> ia_index_in_transaction ` set dedup" using assms(3) by (auto simp: position_None)
  have old: "list_all2 (\<lambda>am dup. dup < length dedup \<and>
      get (tc_account_keys tc) (ia_index_in_transaction (dedup ! dup)) = Some (am_pubkey am)) seen dups"
    using assms(1) by (simp add: dedup_ok_def)
  have not_fresh: "j = i" if "get (tc_account_keys tc) j = Some (am_pubkey am)" for j
    using get_inj [OF _ that assms(4)] assms(2) by (simp add: keys_ok_def)
  have unseen: "am_pubkey am' \<noteq> am_pubkey am" if "am' \<in> set seen" for am'
  proof -
    from that obtain m where m: "m < length seen" "seen ! m = am'" by (auto simp: in_set_conv_nth)
    let ?dup = "dedup ! (dups ! m)"
    have dup: "?dup \<in> set dedup" "get (tc_account_keys tc) (ia_index_in_transaction ?dup) = Some (am_pubkey am')"
      using list_all2_nthD [OF old m(1)] m(2) by simp_all
    show ?thesis
    proof
      assume "am_pubkey am' = am_pubkey am"
      with dup(2) have "get (tc_account_keys tc) (ia_index_in_transaction ?dup) = Some (am_pubkey am)" by simp
      from not_fresh [OF this] fresh dup(1) show False by auto
    qed
  qed
  have "list_all2 (\<lambda>am dup. dup < length (dedup @ [?ia]) \<and>
      get (tc_account_keys tc) (ia_index_in_transaction ((dedup @ [?ia]) ! dup)) = Some (am_pubkey am))
      (seen @ [am]) (dups @ [length dedup])"
  proof (rule list_all2_appendI)
    show "list_all2 (\<lambda>am dup. dup < length (dedup @ [?ia]) \<and>
        get (tc_account_keys tc) (ia_index_in_transaction ((dedup @ [?ia]) ! dup)) = Some (am_pubkey am)) seen dups"
      using old by (rule list_all2_mono) (simp add: nth_append)
  qed (use assms(4) in simp)
  moreover have "meta_ok tc ic (seen @ [am]) ia" if "ia \<in> set dedup" for ia
  proof -
    have "meta_ok tc ic seen ia" using assms(1) that by (simp add: dedup_ok_def)
    moreover have "get (tc_account_keys tc) (ia_index_in_transaction ia) \<noteq> Some (am_pubkey am)"
      using fresh that not_fresh by auto
    ultimately show ?thesis unfolding meta_ok_def by auto
  qed
  moreover have "meta_ok tc ic (seen @ [am]) ?ia"
    using assms(4,5) unseen unfolding meta_ok_def by auto
  ultimately show ?thesis using assms(1) fresh unfolding dedup_ok_def by simp
qed

lemma prepare_dedup_ok:
  assumes "prepare_dedup d tc ic index ams dedup dups = Inr (dedup', dups')" and "keys_ok tc"
    and "dedup_ok tc ic seen dedup dups"
  shows "dedup_ok tc ic (seen @ ams) dedup' dups'"
  using assms(1,3)
proof (induction ams arbitrary: index dedup dups seen)
  case (Cons am ams)
  from Cons.prems(1) obtain i where i: "find_index_of_account tc (am_pubkey am) = Some i"
    by (auto split: option.splits)
  note key = find_index_key [OF assms(2) i]
  show ?case
  proof (cases "position (\<lambda>ia. ia_index_in_transaction ia = i) dedup")
    case None
    then obtain c where c: "ic_find_index_of_instruction_account ic tc (am_pubkey am) = Some c"
      using Cons.prems(1) i by (auto split: option.splits)
    show ?thesis
      using Cons.IH [OF _ dedup_ok_new [OF Cons.prems(2) assms(2) None key c]] Cons.prems(1) i None c by simp
  next
    case (Some k)
    then have "get dedup k = Some (dedup ! k)" by (auto simp: position_Some get_def)
    then show ?thesis
      using Cons.IH [OF _ dedup_ok_again [OF Cons.prems(2) assms(2) Some key]] Cons.prems(1) i Some by simp
  qed
qed simp

lemma check_privileges_ok:
  "check_privileges d tc ic signers ias = Inr () \<Longrightarrow> ia \<in> set ias \<Longrightarrow>
     \<exists>b. peek (try_borrow_instruction_account ic (ia_index_in_caller ia)) tc = Inr b \<and>
       (ia_is_writable ia \<longrightarrow> ba_is_writable b) \<and>
       (ia_is_signer ia \<longrightarrow> ba_is_signer b \<or> ba_get_key b tc \<in> set signers)"
  by (induction ias) (auto split: sum.splits if_splits)

lemma peek_instruction_account:
  assumes "peek (try_borrow_instruction_account ic c) tc = Inr b"
    and "get_index_of_instruction_account_in_transaction ic c = Inr i"
  shows "b = \<lparr>ba_instruction_context = ic, ba_index_in_transaction = i,
      ba_index_in_instruction = sat_add_u16 (get_number_of_program_accounts ic) c\<rparr>"
  using assms by (auto simp: peek_def try_borrow_instruction_account_def run_simps try_borrow_account_eq
      split: if_splits)

lemma signer_index:
  assumes "ic_small ic" and "get_index_of_instruction_account_in_transaction ic k = Inr i"
    and "ba_is_signer \<lparr>ba_instruction_context = ic, ba_index_in_transaction = i,
      ba_index_in_instruction = sat_add_u16 (get_number_of_program_accounts ic) k\<rparr>"
  shows "signer_in ic i"
proof -
  from assms(2) have k: "k < length (ic_instruction_accounts ic)"
    and i: "ia_index_in_transaction (ic_instruction_accounts ic ! k) = i"
    by (auto simp: get_index_of_instruction_account_in_transaction_def ok_or_Inr get_Some)
  with assms(1,3) have "ia_is_signer (ic_instruction_accounts ic ! k)"
    by (auto simp: ba_is_signer_def Let_def ic_small_def get_number_of_program_accounts_def
        sat_add_u16_def is_instruction_account_signer_def get_def split: if_splits)
  with k i show ?thesis
    by (auto simp: signer_in_def list_ex_iff intro!: bexI [of _ "ic_instruction_accounts ic ! k"])
qed

lemma prepare_ok:
  assumes "prepare d ix signers tc = Inr (accounts, program_indices)" and "get_current_instruction_context tc = Inr ic"
  obtains dedup dups where "prepare_dedup d tc ic 0 (ix_accounts ix) [] [] = Inr (dedup, dups)"
    and "check_privileges d tc ic signers dedup = Inr ()"
    and "accounts = map ((!) dedup) dups" and "\<forall>dup \<in> set dups. dup < length dedup"
    and "callee_program d tc ic (ix_program_id ix) = Inr program_indices"
proof -
  obtain dedup dups where P: "prepare_dedup d tc ic 0 (ix_accounts ix) [] [] = Inr (dedup, dups)"
      "check_privileges d tc ic signers dedup = Inr ()"
      "collect_res (map (\<lambda>dup. ok_or (NotEnoughAccountKeys, None :: string option) (get dedup dup)) dups) = Inr accounts"
      "callee_program d tc ic (ix_program_id ix) = Inr program_indices"
    using assms by (auto simp: prepare_def and_then_def split: sum.splits)
  have e: "map (\<lambda>dup. ok_or (NotEnoughAccountKeys, None :: string option) (get dedup dup)) dups = map Inr accounts"
    using P(3) by (simp only: collect_res_Inr)
  then have len: "length dups = length accounts" by (metis length_map)
  have nth: "dups ! k < length dedup \<and> accounts ! k = dedup ! (dups ! k)" if "k < length dups" for k
    using arg_cong [OF e, of "\<lambda>xs. xs ! k"] that len
    by (auto simp: ok_or_def get_def split: option.splits if_splits)
  show thesis
  proof (rule that [OF P(1,2) _ _ P(4)])
    show "accounts = map ((!) dedup) dups" using nth len by (auto intro: nth_equalityI)
    show "\<forall>dup \<in> set dups. dup < length dedup" using nth by (auto simp: in_set_conv_nth)
  qed
qed

text \<open>What an invocation may pass on for the account meta \<open>am\<close>.\<close>

definition passes ::
    "transaction_context \<Rightarrow> instruction_context \<Rightarrow> pubkey list \<Rightarrow> account_meta list \<Rightarrow> account_meta \<Rightarrow>
     instruction_account \<Rightarrow> bool" where
  "passes tc ic signers ams am ia \<longleftrightarrow>
     get (tc_account_keys tc) (ia_index_in_transaction ia) = Some (am_pubkey am) \<and>
     ia_is_signer ia = (\<exists>am' \<in> set ams. am_pubkey am' = am_pubkey am \<and> am_is_signer am') \<and>
     ia_is_writable ia = (\<exists>am' \<in> set ams. am_pubkey am' = am_pubkey am \<and> am_is_writable am') \<and>
     (ia_is_writable ia \<longrightarrow> writable_in ic (ia_index_in_transaction ia)) \<and>
     (ia_is_signer ia \<longrightarrow> signer_in ic (ia_index_in_transaction ia) \<or> am_pubkey am \<in> set signers)"

lemma prepare_passes:
  assumes "prepare d ix signers tc = Inr (accounts, program_indices)"
    and "get_current_instruction_context tc = Inr ic" and "keys_ok tc" and "ic_small ic"
  shows "list_all2 (passes tc ic signers (ix_accounts ix)) (ix_accounts ix) accounts"
proof -
  obtain dedup dups where D: "prepare_dedup d tc ic 0 (ix_accounts ix) [] [] = Inr (dedup, dups)"
      "check_privileges d tc ic signers dedup = Inr ()" "accounts = map ((!) dedup) dups"
    by (rule prepare_ok [OF assms(1,2)])
  have ok: "dedup_ok tc ic (ix_accounts ix) dedup dups"
    using prepare_dedup_ok [OF D(1) assms(3), of "[]"] by (simp add: dedup_ok_def)
  have "passes tc ic signers (ix_accounts ix) am (dedup ! dup)"
    if dup: "dup < length dedup" "get (tc_account_keys tc) (ia_index_in_transaction (dedup ! dup)) = Some (am_pubkey am)"
    for am dup
  proof -
    let ?ia = "dedup ! dup"
    have mem: "?ia \<in> set dedup" using dup(1) by simp
    then have m: "ic_find_index_of_instruction_account ic tc (am_pubkey am) = Some (ia_index_in_caller ?ia)"
        "ia_is_signer ?ia = (\<exists>am' \<in> set (ix_accounts ix). am_pubkey am' = am_pubkey am \<and> am_is_signer am')"
        "ia_is_writable ?ia = (\<exists>am' \<in> set (ix_accounts ix). am_pubkey am' = am_pubkey am \<and> am_is_writable am')"
      using ok dup(2) unfolding dedup_ok_def meta_ok_def by force+
    note c = caller_index(1) [OF assms(3,4) dup(2) m(1)]
    obtain b where b: "peek (try_borrow_instruction_account ic (ia_index_in_caller ?ia)) tc = Inr b"
        "ia_is_writable ?ia \<longrightarrow> ba_is_writable b"
        "ia_is_signer ?ia \<longrightarrow> ba_is_signer b \<or> ba_get_key b tc \<in> set signers"
      using check_privileges_ok [OF D(2) mem] by blast
    note be = peek_instruction_account [OF b(1) c]
    have "ba_get_key b tc = am_pubkey am" using be dup(2) by (simp add: ba_get_key_def get_Some)
    with b(2,3) m be show ?thesis
      unfolding passes_def using dup(2) writable_index [OF assms(4) c] signer_index [OF assms(4) c] by auto
  qed
  moreover have "list_all2 (\<lambda>am dup. dup < length dedup \<and>
      get (tc_account_keys tc) (ia_index_in_transaction (dedup ! dup)) = Some (am_pubkey am)) (ix_accounts ix) dups"
    using ok by (simp add: dedup_ok_def)
  ultimately show ?thesis
    unfolding D(3) list.rel_map by (auto elim!: list_all2_mono)
qed

lemma callee_program_ok:
  assumes "callee_program d tc ic key = Inr program_indices" and "keys_ok tc" and "ic_small ic"
  obtains i where "program_indices = [i]" and "get (tc_account_keys tc) i = Some key"
    and "acct_executable (account_at tc i)"
proof -
  from assms(1) obtain c b where c: "ic_find_index_of_instruction_account ic tc key = Some c"
      and b: "peek (try_borrow_instruction_account ic c) tc = Inr b"
      and x: "ba_is_executable b tc" "program_indices = [ba_index_in_transaction b]"
    by (auto simp: callee_program_def split: option.splits sum.splits if_splits)
  from c obtain k where k: "k < length (ic_instruction_accounts ic)" "c = as_u16 k"
      "get (tc_account_keys tc) (ia_index_in_transaction (ic_instruction_accounts ic ! k)) = Some key"
    by (auto simp: ic_find_index_of_instruction_account_def position_Some)
  note idx = caller_index(1) [OF assms(2,3) k(3) c]
  from peek_instruction_account [OF b idx] x k(3) show thesis
    by (intro that [of "ia_index_in_transaction (ic_instruction_accounts ic ! k)"])
      (simp_all add: ba_is_executable_def ba_account_def)
qed

text \<open>
  (C5) No privilege escalation: when a program's cross-program invocation is accepted, every account of
  the callee is the one the instruction names, with the union of the privileges requested for it;
  it is writable only if the caller could write it, and signs only if it signed for the caller or is
  among the program's own signers; and the callee is an executable account with the requested key.
\<close>

theorem prepare_no_escalation:
  assumes "prepare_instruction d ix signers iv = (Inr (accounts, program_indices), iv')"
    and "get_current_instruction_context (iv_tc iv) = Inr ic" and "keys_ok (iv_tc iv)" and "ic_small ic"
  shows "iv' = iv \<and>
    list_all2 (passes (iv_tc iv) ic signers (ix_accounts ix)) (ix_accounts ix) accounts \<and>
    (\<exists>i. program_indices = [i] \<and> get (tc_account_keys (iv_tc iv)) i = Some (ix_program_id ix) \<and>
       acct_executable (account_at (iv_tc iv) i))"
proof -
  have p: "prepare d ix signers (iv_tc iv) = Inr (accounts, program_indices)" "iv' = iv"
    using assms(1) by (auto simp: prepare_instruction_def split: sum.splits option.splits prod.splits)
  obtain dedup dups where "callee_program d (iv_tc iv) ic (ix_program_id ix) = Inr program_indices"
    by (rule prepare_ok [OF p(1) assms(2)])
  from callee_program_ok [OF this assms(3,4)] prepare_passes [OF p(1) assms(2-4)] p(2)
  show ?thesis by blast
qed

text \<open>A context in which a program may invoke the system program, with two accounts to pass on.\<close>

definition cpi_ic :: instruction_context where
  "cpi_ic =
     demo_ic\<lparr>ic_instruction_accounts := ic_instruction_accounts demo_ic @
       [\<lparr>ia_index_in_transaction = 2, ia_index_in_caller = 2, ia_index_in_callee = 2,
         ia_is_signer = False, ia_is_writable = False\<rparr>]\<rparr>"

definition cpi_iv :: invoke_context where
  "cpi_iv =
     invoke_context_new (demo_tc\<lparr>tc_instruction_trace := [cpi_ic, instruction_context_default]\<rparr>)
       None \<lparr>cb_compute_unit_limit = 1000\<rparr>"

definition cpi_display :: display where
  "cpi_display = \<lparr>show_key = \<lambda>_. [], show_error = \<lambda>_. []\<rparr>"

definition cpi_ix :: instruction where
  "cpi_ix =
     \<lparr>ix_program_id = system_program_id,
      ix_accounts =
        [\<lparr>am_pubkey = demo_key 1, am_is_signer = True, am_is_writable = True\<rparr>,
         \<lparr>am_pubkey = demo_key 2, am_is_signer = False, am_is_writable = True\<rparr>,
         \<lparr>am_pubkey = demo_key 1, am_is_signer = False, am_is_writable = False\<rparr>],
      ix_data = []\<rparr>"

lemmas cpi_eval [eval_simps] = cpi_ic_def cpi_iv_def cpi_ix_def cpi_display_def invoke_context_new_def
  prepare_instruction_def prepare_def callee_program_def peek_def find_index_of_account_def
  ic_find_index_of_instruction_account_def with_tc_def iv_push_def iv_pop_def

lemma replicate_32: "replicate 32 (0 :: u8) = replicate 31 0 @ [0]"
  by (simp add: numeral_eq_Suc)

theorem prepare_no_escalation_witness:
  "\<exists>accounts program_indices.
     prepare_instruction cpi_display cpi_ix [] cpi_iv = (Inr (accounts, program_indices), cpi_iv) \<and>
     list_all2 (passes (iv_tc cpi_iv) cpi_ic [] (ix_accounts cpi_ix)) (ix_accounts cpi_ix) accounts"
proof -
  obtain accounts program_indices where
    run: "prepare_instruction cpi_display cpi_ix [] cpi_iv = (Inr (accounts, program_indices), cpi_iv)"
    by (simp add: eval_simps run_simps get_def replicate_32)
  have "get_current_instruction_context (iv_tc cpi_iv) = Inr cpi_ic" by (simp add: eval_simps)
  moreover have "keys_ok (iv_tc cpi_iv)" by (simp add: keys_ok_def eval_simps replicate_32)
  moreover have "ic_small cpi_ic" by (simp add: ic_small_def eval_simps)
  ultimately show ?thesis using prepare_no_escalation [OF run] run by blast
qed

end
