(* ===== verification/Execution_Properties.thy ===== *)
theory Execution_Properties
  imports Runtime_Properties
begin

text \<open>
  Executing an instruction, seen from its caller: whatever the called program does and however it
  ends, the invocation stack is the same as before, the trace has only grown, and only accounts
  that the instruction lists as writable have changed.  Programs enter through a contract that
  each program keeps on the assumption that its own invocations keep it; the system program is
  shown to keep it.  For a whole message this gives that accounts loaded from the base layer are
  never changed.
\<close>

section \<open>The frame of a call\<close>

definition frozen :: "nat set \<Rightarrow> transaction_context \<Rightarrow> transaction_context \<Rightarrow> bool" where
  "frozen W s t \<longleftrightarrow>
     length (ta_accounts (tc_accounts t)) = length (ta_accounts (tc_accounts s)) \<and>
     tc_account_keys t = tc_account_keys s \<and>
     (\<forall>i < length (ta_accounts (tc_accounts s)). i \<notin> W \<longrightarrow> account_at t i = account_at s i)"

definition trace_grows :: "transaction_context \<Rightarrow> transaction_context \<Rightarrow> bool" where
  "trace_grows s t \<longleftrightarrow>
     (\<exists>extra. extra \<noteq> [] \<and> tc_instruction_trace t = butlast (tc_instruction_trace s) @ extra)"

definition call_frame :: "nat set \<Rightarrow> transaction_context \<Rightarrow> transaction_context \<Rightarrow> bool" where
  "call_frame W s t \<longleftrightarrow>
     (tc_inv s \<longrightarrow>
        tc_inv t \<and> frozen W s t \<and> tc_instruction_stack t = tc_instruction_stack s \<and> trace_grows s t)"

lemma frozen_refl: "frozen W s s"
  by (simp add: frozen_def)

lemma frozen_trans: "frozen W s t \<Longrightarrow> frozen W t u \<Longrightarrow> frozen W s u"
  by (simp add: frozen_def)

lemma trace_grows_refl: "tc_inv s \<Longrightarrow> trace_grows s s"
  unfolding trace_grows_def tc_inv_def
  by (rule exI [of _ "[last (tc_instruction_trace s)]"]) simp

lemma trace_grows_trans:
  assumes "trace_grows s t" and "trace_grows t u"
  shows "trace_grows s u"
proof -
  obtain x y where "x \<noteq> []" "tc_instruction_trace t = butlast (tc_instruction_trace s) @ x"
      "y \<noteq> []" "tc_instruction_trace u = butlast (tc_instruction_trace t) @ y"
    using assms by (auto simp: trace_grows_def)
  then show ?thesis
    unfolding trace_grows_def by (intro exI [of _ "butlast x @ y"]) (simp add: butlast_append)
qed

lemma call_frame_refl: "call_frame W s s"
  by (simp add: call_frame_def frozen_refl trace_grows_refl)

lemma call_frame_trans: "call_frame W s t \<Longrightarrow> call_frame W t u \<Longrightarrow> call_frame W s u"
  unfolding call_frame_def by (blast intro: frozen_trans trace_grows_trans trans)

lemma call_frame_mono: "call_frame W s t \<Longrightarrow> W \<subseteq> W' \<Longrightarrow> call_frame W' s t"
  unfolding call_frame_def frozen_def by blast

lemma call_frameI: "(tc_inv s \<Longrightarrow> call_frame W s t) \<Longrightarrow> call_frame W s t"
  by (auto simp: call_frame_def)

text \<open>The contexts on the stack are out of reach of the calls above them.\<close>

lemma current_context_kept:
  assumes "tc_inv s" and "tc_instruction_stack t = tc_instruction_stack s" and "trace_grows s t"
  shows "get_current_instruction_context t = get_current_instruction_context s"
proof (cases "tc_instruction_stack s = []")
  case False
  let ?k = "length (tc_instruction_stack s) - 1"
  let ?i = "tc_instruction_stack s ! ?k"
  have "?i + 1 < length (tc_instruction_trace s)" using assms(1) False by (simp add: tc_inv_def)
  then have "get (tc_instruction_trace t) ?i = get (tc_instruction_trace s) ?i"
    using assms(3) by (auto simp: trace_grows_def get_def nth_append nth_butlast)
  with assms(2) show ?thesis
    by (simp add: get_current_instruction_context_def get_instruction_context_stack_height_def
        get_instruction_context_at_nesting_level_def get_instruction_context_at_index_in_trace_def get_def
        and_then_def ok_or_def split: option.splits)
qed (simp add: assms(2) get_current_instruction_context_def get_instruction_context_stack_height_def)

lemma access_call_frame:
  assumes "access ic s t"
  shows "call_frame {i. writable_in ic i} s t"
proof -
  have frame: "same_frame s t" by (rule access_frame [OF assms])
  have len: "length (ta_accounts (tc_accounts t)) = length (ta_accounts (tc_accounts s))"
    using frame by (simp add: same_frame_def)
  have eqs: "tc_account_keys t = tc_account_keys s" "tc_instruction_stack t = tc_instruction_stack s"
      "tc_instruction_trace t = tc_instruction_trace s"
    using frame by (cases s; cases t; simp add: same_frame_def)+
  have "account_at t i = account_at s i" if "\<not> writable_in ic i" "i < length (ta_accounts (tc_accounts s))" for i
    using assms that by (auto simp: access_def account_policy_def)
  then show ?thesis
    using len eqs tc_inv_frame [OF frame] trace_grows_refl [of s]
    by (auto simp: call_frame_def frozen_def trace_grows_def)
qed

section \<open>Stack operations\<close>

lemma frozen_same_accounts:
  "tc_accounts t = tc_accounts s \<Longrightarrow> tc_account_keys t = tc_account_keys s \<Longrightarrow> frozen W s t"
  by (simp add: frozen_def account_at_def)

lemma with_next_call_frame:
  assumes "with_next_instruction_context f s = (r, t)"
  shows "call_frame W s t"
proof -
  have "tc_inv t" if "tc_inv s" using with_next_keeps_inv [OF that assms] .
  moreover have "tc_accounts t = tc_accounts s \<and> tc_account_keys t = tc_account_keys s \<and>
      tc_instruction_stack t = tc_instruction_stack s \<and> trace_grows s t" if "tc_inv s"
    using assms trace_grows_refl [OF that]
    by (auto simp: with_next_instruction_context_def run_simps last_opt_def trace_grows_def split: if_splits)
  ultimately show ?thesis by (auto simp: call_frame_def intro: frozen_same_accounts)
qed

lemma with_next_configured:
  assumes "with_next_instruction_context f s = (Inr u, t)"
  shows "tc_instruction_trace t = butlast (tc_instruction_trace s) @ [f (last (tc_instruction_trace s))]"
  using assms by (auto simp: with_next_instruction_context_def run_simps last_opt_def split: if_splits)

lemma tc_push_cases:
  assumes "tc_push s = (r, t)" and "tc_inv s"
  obtains (failed) e where "r = Inl e" "call_frame W s t"
  | (pushed) tot where "r = Inr ()" "tc_inv t" "frozen W s t"
      "tc_instruction_stack t = tc_instruction_stack s @ [length (tc_instruction_trace s) - 1]"
      "tc_instruction_trace t = pushed_trace s tot @ [instruction_context_default]"
proof (cases "fst (push_checks s)")
  case (Inl e)
  then have "r = Inl e" "t = s"
    using assms(1) push_checks_frame [of s] by (auto simp: tc_push_def run_simps)
  then show thesis using failed call_frame_refl by blast
next
  case (Inr p)
  obtain n tot where p: "p = (n, tot)" by force
  have run: "push_checks s = (Inr (n, tot), s)"
    using Inr p push_checks_frame [of s] by (simp add: prod_eq_iff)
  note n = push_checks_Inr [OF run]
  have ne: "tc_instruction_trace s \<noteq> []" using n by simp
  have e: "tc_push s = push_commit (length (tc_instruction_stack s)) tot s"
    using n by (simp add: tc_push_def bind_def run)
  have inv: "tc_inv t" by (rule tc_push_keeps_inv [OF assms(2,1)])
  have grows: "trace_grows s (s\<lparr>tc_instruction_trace := pushed_trace s tot @ xs\<rparr>)" for xs
    by (auto simp: trace_grows_def pushed_trace_def)
  show thesis
  proof (cases "r = Inr ()")
    case True
    then show ?thesis
      using e assms(1) inv ne by (intro pushed [of tot])
        (auto simp: push_commit_eq Let_def frozen_def account_at_def split: if_splits)
  next
    case False
    then obtain e' where e': "r = Inl e'" by (cases r) auto
    have "frozen W s t \<and> tc_instruction_stack t = tc_instruction_stack s \<and> trace_grows s t"
      using e e' assms(1) ne grows [of "[]"] grows [of "[instruction_context_default]"]
      by (auto simp: push_commit_eq Let_def frozen_def account_at_def trace_grows_def split: if_splits)
    with inv e' show ?thesis by (intro failed [of e']) (auto simp: call_frame_def)
  qed
qed

lemma pushed_current:
  assumes "tc_instruction_trace s \<noteq> []"
    and "tc_instruction_stack t = tc_instruction_stack s @ [length (tc_instruction_trace s) - 1]"
    and "tc_instruction_trace t = pushed_trace s tot @ [instruction_context_default]"
  shows "\<exists>ic. get_current_instruction_context t = Inr ic \<and>
    ic_instruction_accounts ic = ic_instruction_accounts (last (tc_instruction_trace s)) \<and>
    ic_program_accounts ic = ic_program_accounts (last (tc_instruction_trace s))"
  using assms
  by (simp add: get_current_instruction_context_def get_instruction_context_stack_height_def
      get_instruction_context_at_nesting_level_def get_instruction_context_at_index_in_trace_def get_def
      and_then_def ok_or_def nth_append pushed_trace_def)

text \<open>Popping what was pushed, after anything that kept the frame in between.\<close>

lemma pop_after_push:
  assumes "tc_inv s" and "frozen W s t"
    and "tc_instruction_stack t = tc_instruction_stack s @ [i]"
    and "tc_instruction_trace t = pushed_trace s tot @ [instruction_context_default]"
    and "tc_inv t" and "call_frame W t u"
  shows "call_frame W s (snd (tc_pop u))"
proof -
  have u: "tc_inv u" "frozen W t u" "tc_instruction_stack u = tc_instruction_stack t" "trace_grows t u"
    using assms(5,6) by (auto simp: call_frame_def)
  have "tc_inv (snd (tc_pop u))" using tc_pop_keeps_inv [OF u(1)] by (metis prod.collapse)
  moreover have "frozen W s (snd (tc_pop u))"
    unfolding tc_pop_frame using frozen_trans [OF assms(2) u(2)] by (simp add: frozen_def account_at_def)
  moreover have "tc_instruction_stack (snd (tc_pop u)) = tc_instruction_stack s"
    using u(3) assms(3) by (simp add: tc_pop_stack)
  moreover have "trace_grows s (snd (tc_pop u))"
    unfolding tc_pop_frame using u(4) assms(4) by (auto simp: trace_grows_def pushed_trace_def butlast_append)
  ultimately show ?thesis by (simp add: call_frame_def)
qed

section \<open>The contract of a program\<close>

text \<open>
  A state in which a program runs: a well-formed context with distinct keys, whose current
  instruction is \<open>ic\<close>.
\<close>

definition runs_in :: "instruction_context \<Rightarrow> invoke_context \<Rightarrow> bool" where
  "runs_in ic iv \<longleftrightarrow>
     tc_inv (iv_tc iv) \<and> keys_ok (iv_tc iv) \<and> get_current_instruction_context (iv_tc iv) = Inr ic \<and> ic_small ic"

definition invoke_ok :: "instruction_context \<Rightarrow> invoke \<Rightarrow> bool" where
  "invoke_ok ic invoke \<longleftrightarrow>
     (\<forall>ix signers iv. runs_in ic iv \<longrightarrow> length (ix_accounts ix) < 65535 \<longrightarrow>
        call_frame {i. writable_in ic i} (iv_tc iv) (iv_tc (snd (invoke ix signers iv))))"

definition program_ok :: "builtin \<Rightarrow> bool" where
  "program_ok b \<longleftrightarrow>
     (\<forall>ic invoke iv. invoke_ok ic invoke \<longrightarrow> runs_in ic iv \<longrightarrow>
        call_frame {i. writable_in ic i} (iv_tc iv) (iv_tc (snd (b invoke iv))))"

definition all_programs_ok :: "programs \<Rightarrow> bool" where
  "all_programs_ok programs \<longleftrightarrow> (\<forall>key b. programs key = Some (Builtin (Some b)) \<longrightarrow> program_ok b)"

definition process_ok :: "process \<Rightarrow> bool" where
  "process_ok process \<longleftrightarrow>
     (\<forall>bs accounts program_indices iv. length accounts + length program_indices < 65536 \<longrightarrow> keys_ok (iv_tc iv) \<longrightarrow>
        call_frame {i. \<exists>ia \<in> set accounts. ia_index_in_transaction ia = i \<and> ia_is_writable ia} (iv_tc iv)
          (iv_tc (snd (process bs accounts program_indices iv))))"

lemma process_okD:
  "process_ok process \<Longrightarrow> length accounts + length ps < 65536 \<Longrightarrow> keys_ok (iv_tc iv) \<Longrightarrow>
     call_frame {i. \<exists>ia \<in> set accounts. ia_index_in_transaction ia = i \<and> ia_is_writable ia} (iv_tc iv)
       (iv_tc (snd (process bs accounts ps iv)))"
  by (simp add: process_ok_def)

lemma keys_ok_frozen: "frozen W s t \<Longrightarrow> keys_ok s \<Longrightarrow> keys_ok t"
  by (simp add: frozen_def keys_ok_def)

lemma native_invoke_ok:
  assumes "process_ok process"
  shows "invoke_ok ic (native_invoke_with d process)"
  unfolding invoke_ok_def
proof (intro allI impI)
  fix ix :: instruction and signers iv
  assume run: "runs_in ic iv" and small: "length (ix_accounts ix) < 65535"
  show "call_frame {i. writable_in ic i} (iv_tc iv) (iv_tc (snd (native_invoke_with d process ix signers iv)))"
  proof (cases "prepare d ix signers (iv_tc iv)")
    case (Inl e)
    obtain err line where "e = (err, line)" by force
    with Inl show ?thesis
      by (cases line) (simp_all add: native_invoke_with_def prepare_instruction_def bind_def iv_msg_def call_frame_refl)
  next
    case (Inr ap)
    obtain accounts pids where ap: "ap = (accounts, pids)" by force
    have p: "list_all2 (passes (iv_tc iv) ic signers (ix_accounts ix)) (ix_accounts ix) accounts"
      using prepare_passes [of d ix signers "iv_tc iv" accounts pids ic] run Inr ap by (simp add: runs_in_def)
    obtain dedup dups where "callee_program d (iv_tc iv) ic (ix_program_id ix) = Inr pids"
      using prepare_ok [of d ix signers "iv_tc iv" accounts pids ic] run Inr ap by (auto simp: runs_in_def)
    then have pids: "length pids = 1" by (auto simp: callee_program_def split: option.splits sum.splits if_splits)
    have "length accounts = length (ix_accounts ix)" using list_all2_lengthD [OF p] by simp
    then have "call_frame {i. \<exists>ia \<in> set accounts. ia_index_in_transaction ia = i \<and> ia_is_writable ia} (iv_tc iv)
        (iv_tc (snd (process (ix_data ix) accounts pids iv)))"
      using assms run small pids by (simp add: process_ok_def runs_in_def)
    moreover have "{i. \<exists>ia \<in> set accounts. ia_index_in_transaction ia = i \<and> ia_is_writable ia} \<subseteq> {i. writable_in ic i}"
      using p by (auto simp: list_all2_conv_all_nth passes_def in_set_conv_nth)
    ultimately have "call_frame {i. writable_in ic i} (iv_tc iv) (iv_tc (snd (process (ix_data ix) accounts pids iv)))"
      by (rule call_frame_mono)
    then show ?thesis
      using Inr ap by (auto simp: native_invoke_with_def prepare_instruction_def bind_def split: prod.splits)
  qed
qed

lemma program_outcome_tc: "iv_tc (snd (program_outcome d key (r, iv))) = iv_tc iv"
  by (auto simp: program_outcome_def iv_msg_def split: sum.splits program_failure.splits)

lemma set_return_data_frame:
  "call_frame W (iv_tc iv) (iv_tc (snd (with_tc (set_return_data key bs) iv)))"
  using trace_grows_refl [of "iv_tc iv"]
  by (auto simp: with_tc_def set_return_data_def modify_def call_frame_def frozen_def account_at_def
      tc_inv_def trace_grows_def)

lemma chain_call_frame:
  assumes "all_programs_ok programs" and "invoke_ok ic invoke" and "runs_in ic iv"
  shows "call_frame {i. writable_in ic i} (iv_tc iv) (iv_tc (snd (process_executable_chain d programs invoke iv)))"
proof (cases "find_builtin programs (iv_tc iv)")
  case (Inl e)
  then show ?thesis by (simp add: process_executable_chain_def call_frame_refl)
next
  case (Inr bfp)
  obtain builtin_id f key where bfp: "bfp = (builtin_id, f, key)" by (cases bfp) auto
  have f: "program_ok f"
    using Inr bfp assms(1)
    by (auto simp: find_builtin_def and_then_def Let_def all_programs_ok_def
        split: sum.splits option.splits loaded_program_type.splits)
  let ?iv1 = "snd (with_tc (set_return_data key []) iv)"
  let ?iv2 = "iv_msg (program_invoke (show_key d key) (iv_get_stack_height ?iv1)) ?iv1"
  have a: "call_frame {i. writable_in ic i} (iv_tc iv) (iv_tc ?iv2)"
    using set_return_data_frame by (simp add: iv_msg_def)
  have "runs_in ic ?iv2"
    using assms(3) current_context_kept [of "iv_tc iv" "iv_tc ?iv2"] a keys_ok_frozen
    by (auto simp: runs_in_def call_frame_def)
  with f assms(2) have b: "call_frame {i. writable_in ic i} (iv_tc ?iv2) (iv_tc (snd (f invoke ?iv2)))"
    by (simp add: program_ok_def)
  have "iv_tc (snd (process_executable_chain d programs invoke iv)) = iv_tc (snd (f invoke ?iv2))"
    using program_outcome_tc [of d key "fst (f invoke ?iv2)" "snd (f invoke ?iv2)"]
    by (auto simp: process_executable_chain_def Inr bfp Let_def split: prod.splits)
  with call_frame_trans [OF a b] show ?thesis by simp
qed

lemma iv_push_tc:
  assumes "iv_push iv = (r, iv')"
  shows "(iv_tc iv' = iv_tc iv \<and> (\<exists>e. r = Inl e)) \<or> tc_push (iv_tc iv) = (r, iv_tc iv')"
  using assms
  by (auto simp: iv_push_def Let_def bind_def modify_def with_tc_def split: sum.splits if_splits prod.splits)

lemma iv_pop_tc: "iv_tc (snd (iv_pop iv)) = snd (tc_pop (iv_tc iv))"
  by (auto simp: iv_pop_def bind_def modify_def with_tc_def split: option.splits prod.splits)

lemma process_with_ok:
  assumes "all_programs_ok programs" and "\<And>ic. invoke_ok ic invoke"
  shows "process_ok (process_with d programs invoke)"
  unfolding process_ok_def
proof (intro allI impI, rule call_frameI)
  fix bs accounts program_indices and iv :: invoke_context
  assume small: "length (accounts :: instruction_account list) + length (program_indices :: nat list) < 65536"
    and keys: "keys_ok (iv_tc iv)" and inv: "tc_inv (iv_tc iv)"
  let ?W = "{i. \<exists>ia \<in> set accounts. ia_index_in_transaction ia = i \<and> ia_is_writable ia}"
  let ?f = "ic_configure program_indices accounts bs"
  obtain r1 t1 where t1: "with_next_instruction_context ?f (iv_tc iv) = (r1, t1)" by force
  let ?iv1 = "iv\<lparr>iv_tc := t1\<rparr>"
  have c1: "call_frame ?W (iv_tc iv) t1" by (rule with_next_call_frame [OF t1])
  have inv1: "tc_inv t1" and keys1: "keys_ok t1" using c1 inv keys keys_ok_frozen by (auto simp: call_frame_def)
  show "call_frame ?W (iv_tc iv) (iv_tc (snd (process_with d programs invoke bs accounts program_indices iv)))"
  proof (cases r1)
    case (Inl e)
    with t1 c1 show ?thesis by (simp add: process_with_def with_tc_def)
  next
    case (Inr u)
    have last: "last (tc_instruction_trace t1) = ?f (last (tc_instruction_trace (iv_tc iv)))"
      using with_next_configured [of ?f "iv_tc iv" u t1] t1 Inr by simp
    obtain r2 iv2 where p: "iv_push ?iv1 = (r2, iv2)" by force
    have run: "process_with d programs invoke bs accounts program_indices iv =
        (case r2 of Inl e \<Rightarrow> ((Inl e, 0), iv2)
         | Inr _ \<Rightarrow> (case process_executable_chain d programs invoke iv2 of
             ((result, consumed), iv3) \<Rightarrow> (case iv_pop iv3 of
                (popped, iv4) \<Rightarrow> ((result_and result popped, consumed), iv4))))"
      using t1 Inr p by (simp add: process_with_def with_tc_def split: sum.splits)
    consider e where "r2 = Inl e" "iv_tc iv2 = t1" | "tc_push t1 = (r2, iv_tc iv2)"
      using iv_push_tc [OF p] by auto
    then show ?thesis
    proof cases
      case 1
      with run c1 show ?thesis by simp
    next
      case 2
      from 2 inv1 show ?thesis
      proof (cases rule: tc_push_cases [where W = ?W])
        case (failed e)
        with run call_frame_trans [OF c1] show ?thesis by simp
      next
        case (pushed tot)
        have ne: "tc_instruction_trace t1 \<noteq> []" using inv1 by (simp add: tc_inv_def)
        obtain ic where ic: "get_current_instruction_context (iv_tc iv2) = Inr ic"
            "ic_instruction_accounts ic = accounts" "ic_program_accounts ic = program_indices"
          using pushed_current [OF ne pushed(4,5)] last by (auto simp: ic_configure_def)
        have W: "?W = {i. writable_in ic i}" using ic(2) by (auto simp: writable_in_def list_ex_iff)
        have "runs_in ic iv2"
          using ic small keys_ok_frozen [OF pushed(3) keys1] pushed(2) by (simp add: runs_in_def ic_small_def)
        from chain_call_frame [OF assms(1) assms(2) this] W
        have chain: "call_frame ?W (iv_tc iv2) (iv_tc (snd (process_executable_chain d programs invoke iv2)))" by simp
        have "call_frame ?W t1 (iv_tc (snd (iv_pop (snd (process_executable_chain d programs invoke iv2)))))"
          unfolding iv_pop_tc by (rule pop_after_push [OF inv1 pushed(3-5) pushed(2) chain])
        with run pushed(1) call_frame_trans [OF c1] show ?thesis
          by (auto split: prod.splits)
      qed
    qed
  qed
qed

lemma process_instruction_ok:
  assumes "all_programs_ok programs"
  shows "process_ok (process_instruction n d programs)"
proof (induction n)
  case 0
  show ?case by (simp add: process_ok_def call_frame_refl)
next
  case (Suc n)
  show ?case
    unfolding process_instruction.simps by (rule process_with_ok [OF assms native_invoke_ok [OF Suc.IH]])
qed

text \<open>
  (C3) An instruction keeps its frame: executed by programs that keep the contract, with any outcome and
  however deeply they invoke each other, an instruction leaves the invocation stack and the accounts
  it does not list as writable exactly as they were, and the trace only grows.
\<close>

theorem process_instruction_frame:
  assumes "all_programs_ok programs" and "tc_inv (iv_tc iv)" and "keys_ok (iv_tc iv)"
    and "length accounts + length program_indices < 65536"
    and "process_instruction n d programs bs accounts program_indices iv = (result, iv')"
  shows "tc_inv (iv_tc iv') \<and> tc_instruction_stack (iv_tc iv') = tc_instruction_stack (iv_tc iv) \<and>
    trace_grows (iv_tc iv) (iv_tc iv') \<and>
    (\<forall>i < length (ta_accounts (tc_accounts (iv_tc iv))).
       (\<forall>ia \<in> set accounts. ia_index_in_transaction ia = i \<longrightarrow> \<not> ia_is_writable ia) \<longrightarrow>
       account_at (iv_tc iv') i = account_at (iv_tc iv) i)"
proof -
  have "call_frame {i. \<exists>ia \<in> set accounts. ia_index_in_transaction ia = i \<and> ia_is_writable ia} (iv_tc iv) (iv_tc iv')"
    using process_okD [OF process_instruction_ok [OF assms(1), of n d] assms(4,3), of bs] assms(5) by simp
  with assms(2) show ?thesis by (auto simp: call_frame_def frozen_def)
qed

section \<open>The system program keeps the contract\<close>

definition system_builtin :: "system_env \<Rightarrow> builtin" where
  "system_builtin env = declare_process_instruction 150 (\<lambda>_. with_tc (system_entrypoint env))"

lemma system_entrypoint_call_frame:
  assumes "get_current_instruction_context tc = Inr ic" and "ic_small ic"
  shows "call_frame {i. writable_in ic i} tc (snd (system_entrypoint env tc))"
proof -
  have "access ic tc (snd (system_entrypoint env tc))"
  proof (cases "se_decode env (ic_instruction_data ic)")
    case None
    then show ?thesis using assms(1) by (simp add: system_entrypoint_def run_simps access_refl)
  next
    case (Some instr)
    show ?thesis
    proof (cases "get_signers ic tc")
      case (Inl e)
      then show ?thesis using assms(1) Some by (simp add: system_entrypoint_def run_simps access_refl)
    next
      case (Inr signers)
      have "system_entrypoint env tc = system_process env ic signers instr tc"
        using assms(1) Some Inr by (simp add: system_entrypoint_def run_simps)
      then show ?thesis
        using keepsD [OF system_process_access [OF assms(2)], of env signers instr tc] by (metis prod.collapse)
    qed
  qed
  then show ?thesis by (rule access_call_frame)
qed

lemma system_builtin_ok: "program_ok (system_builtin env)"
  unfolding program_ok_def
proof (intro allI impI)
  fix ic invoke and iv :: invoke_context
  assume run: "runs_in ic iv"
  obtain iv' where consumed: "consume_checked 150 iv = (Inl ComputationalBudgetExceeded, iv') \<or>
      consume_checked 150 iv = (Inr (), iv')" and tc: "iv_tc iv' = iv_tc iv"
    by (auto simp: consume_checked_def Let_def)
  have "call_frame {i. writable_in ic i} (iv_tc iv) (snd (system_entrypoint env (iv_tc iv)))"
    using run by (intro system_entrypoint_call_frame) (simp_all add: runs_in_def)
  then show "call_frame {i. writable_in ic i} (iv_tc iv) (iv_tc (snd (system_builtin env invoke iv)))"
    using consumed tc
    by (auto simp: system_builtin_def declare_process_instruction_def with_tc_def call_frame_refl
        split: sum.splits prod.splits)
qed

definition system_programs :: "system_env \<Rightarrow> programs" where
  "system_programs env key =
     (if key = system_program_id then Some (Builtin (Some (system_builtin env))) else None)"

lemma system_programs_ok: "all_programs_ok (system_programs env)"
  by (simp add: all_programs_ok_def system_programs_def system_builtin_ok)

section \<open>Messages\<close>

text \<open>The keys of the message come first among the loaded accounts.\<close>

definition keys_cover :: "sanitized_message \<Rightarrow> transaction_context \<Rightarrow> bool" where
  "keys_cover message tc \<longleftrightarrow>
     (\<forall>i key. ak_get (sm_account_keys message) i = Some key \<longrightarrow> get (tc_account_keys tc) i = Some key)"

definition is_remote :: "transaction_context \<Rightarrow> nat \<Rightarrow> bool" where
  "is_remote tc i \<longleftrightarrow>
     i < length (ta_accounts (tc_accounts tc)) \<and> acct_remote (account_at tc i) \<and>
     get (tc_account_keys tc) i \<noteq> Some instructions_sysvar_id"

definition message_frame :: "transaction_context \<Rightarrow> transaction_context \<Rightarrow> bool" where
  "message_frame s t \<longleftrightarrow>
     tc_inv t \<and> tc_account_keys t = tc_account_keys s \<and>
     length (ta_accounts (tc_accounts t)) = length (ta_accounts (tc_accounts s)) \<and>
     tc_instruction_stack t = tc_instruction_stack s \<and>
     (\<forall>i. is_remote s i \<longrightarrow> account_at t i = account_at s i)"

lemma message_frame_call:
  assumes "message_frame s t" and "call_frame W t u" and "\<And>i. is_remote s i \<Longrightarrow> i \<notin> W"
  shows "message_frame s u"
  using assms by (auto simp: message_frame_def call_frame_def frozen_def is_remote_def)

lemma position_distinct: "distinct xs \<Longrightarrow> get xs i = Some x \<Longrightarrow> position (\<lambda>y. y = x) xs = Some i"
  by (auto simp: position_Some get_Some nth_eq_iff_index_eq)

lemma find_index_get:
  "keys_ok tc \<Longrightarrow> get (tc_account_keys tc) i = Some key \<Longrightarrow> find_index_of_account tc key = Some i"
  using position_distinct [of "tc_account_keys tc" i key]
  by (auto simp: keys_ok_def find_index_of_account_def get_Some)

lemma fixup_frame:
  assumes "fixup_instructions_sysvar index t = Some (Inr u)" and "message_frame s t" and "keys_ok t"
  shows "message_frame s u"
proof (cases "find_index_of_account t instructions_sysvar_id")
  case None
  with assms show ?thesis by (simp add: fixup_instructions_sysvar_def)
next
  case (Some j)
  obtain bs where u: "u = update_account j (\<lambda>a. a\<lparr>acct_data := bs\<rparr>) t"
    and j: "j < length (ta_accounts (tc_accounts t))"
    using assms(1) Some
    by (auto simp: fixup_instructions_sysvar_def get_account_at_index_def ta_get_def ok_or_def get_def
        split: sum.splits option.splits if_splits)
  have key: "get (tc_account_keys t) j = Some instructions_sysvar_id" by (rule find_index_key [OF assms(3) Some])
  have "tc_inv u" using assms(2) tc_inv_frame [OF same_frame_update_account] by (simp add: u message_frame_def)
  moreover have "tc_account_keys u = tc_account_keys t" "tc_instruction_stack u = tc_instruction_stack t"
    by (simp_all add: u update_account_def update_cell_def)
  moreover have "account_at u i = account_at t i" if "is_remote s i" for i
    using that key assms(2) j by (auto simp: u account_at_update_account is_remote_def message_frame_def)
  ultimately show ?thesis using assms(2) by (simp add: message_frame_def u)
qed

lemma message_accounts_local:
  assumes "message_accounts message tc ais = Some accounts" and "keys_ok tc" and "keys_cover message tc"
    and "ia \<in> set accounts" and "ia_is_writable ia"
  shows "\<not> acct_remote (account_at tc (ia_index_in_transaction ia))"
proof -
  from assms(1) have "map (\<lambda>(index, account_index). message_account message tc ais index account_index)
      (enumerate 0 ais) = map Some accounts"
    by (simp add: message_accounts_def collect_opt_Some)
  with assms(4) have "Some ia \<in> set (map (\<lambda>(index, account_index). message_account message tc ais index account_index)
      (enumerate 0 ais))" by simp
  then obtain index ai where a: "message_account message tc ais index ai = Some ia" by auto
  then obtain key remote where k: "ak_get (sm_account_keys message) (unat ai) = Some key"
      "is_remote_account tc key = Some remote" "ia_index_in_transaction ia = unat ai"
      "ia_is_writable ia = (if remote then False else sm_is_writable message (unat ai))"
    by (auto simp: message_account_def Let_def split: option.splits)
  have "get (tc_account_keys tc) (unat ai) = Some key" using k(1) assms(3) by (simp add: keys_cover_def)
  from find_index_get [OF assms(2) this] k assms(5) show ?thesis
    by (auto simp: is_remote_account_def get_account_at_index_def ta_get_def ok_or_def get_def account_at_def
        split: option.splits sum.splits if_splits)
qed

lemma length_message_accounts: "message_accounts message tc ais = Some accounts \<Longrightarrow> length accounts = length ais"
  by (auto simp: message_accounts_def collect_opt_Some dest: arg_cong [of _ _ length])

lemma run_precompile_frame: "call_frame {} tc (snd (run_precompile ps accounts bs tc))"
proof (rule call_frameI)
  assume inv: "tc_inv tc"
  obtain r1 t1 where t1: "with_next_instruction_context (ic_configure ps accounts bs) tc = (r1, t1)" by force
  note c1 = with_next_call_frame [OF t1, of "{}"]
  have inv1: "tc_inv t1" using c1 inv by (simp add: call_frame_def)
  obtain r2 t2 where t2: "tc_push t1 = (r2, t2)" by force
  show "call_frame {} tc (snd (run_precompile ps accounts bs tc))"
  proof (cases r1)
    case (Inl e)
    with t1 c1 show ?thesis by (simp add: run_precompile_def bind_def)
  next
    case (Inr u)
    from t2 inv1 show ?thesis
    proof (cases rule: tc_push_cases [where W = "{}"])
      case (failed e)
      with Inr t1 t2 call_frame_trans [OF c1] show ?thesis by (simp add: run_precompile_def bind_def)
    next
      case (pushed tot)
      from pop_after_push [OF inv1 pushed(3-5) pushed(2) call_frame_refl] Inr t1 t2 pushed(1) call_frame_trans [OF c1]
      show ?thesis by (simp add: run_precompile_def bind_def)
    qed
  qed
qed

lemma process_one_frame:
  assumes "process_ok process" and "message_frame s (iv_tc iv)" and "keys_ok s" and "keys_cover message s"
    and "length (ci_accounts ci) + length ps < 65536"
    and "process_one process message index (program_id, ci) ps (units, iv) = Some (r, units', iv')"
  shows "message_frame s (iv_tc iv')"
proof -
  have same_keys: "keys_ok t \<and> keys_cover message t" if "message_frame s t" for t
    using that assms(3,4) by (simp add: message_frame_def keys_ok_def keys_cover_def)
  show ?thesis
  proof (cases "fixup_instructions_sysvar index (iv_tc iv)")
    case None
    with assms(6) show ?thesis by (simp add: process_one_def)
  next
    case (Some f)
    show ?thesis
    proof (cases f)
      case (Inl e)
      with Some assms(2,6) show ?thesis by (simp add: process_one_def)
    next
      case (Inr tc)
      have tc: "message_frame s tc"
        using fixup_frame [OF _ assms(2)] Some Inr same_keys [OF assms(2)] by blast
      obtain accounts where a: "message_accounts message tc (ci_accounts ci) = Some accounts"
        using assms(6) Some Inr by (auto simp: process_one_def split: option.splits)
      have "i \<notin> {i. \<exists>ia \<in> set accounts. ia_index_in_transaction ia = i \<and> ia_is_writable ia}" if "is_remote s i" for i
      proof -
        have "acct_remote (account_at tc i)" using tc that by (simp add: message_frame_def is_remote_def)
        then show ?thesis using message_accounts_local [OF a] same_keys [OF tc] by blast
      qed
      note W = message_frame_call [OF tc _ this]
      show ?thesis
      proof (cases "is_precompile program_id")
        case True
        have "call_frame {i. \<exists>ia \<in> set accounts. ia_index_in_transaction ia = i \<and> ia_is_writable ia} tc
            (snd (run_precompile ps accounts (ci_data ci) tc))"
          using run_precompile_frame by (rule call_frame_mono) simp
        from W [OF this] show ?thesis
          using assms(6) Some Inr a True by (auto simp: process_one_def with_tc_def split: prod.splits)
      next
        case False
        have "call_frame {i. \<exists>ia \<in> set accounts. ia_index_in_transaction ia = i \<and> ia_is_writable ia}
            (iv_tc (iv\<lparr>iv_tc := tc\<rparr>)) (iv_tc (snd (process (ci_data ci) accounts ps (iv\<lparr>iv_tc := tc\<rparr>))))"
          using assms(5) length_message_accounts [OF a] same_keys [OF tc] by (intro process_okD [OF assms(1)]) simp_all
        with W have "message_frame s (iv_tc (snd (process (ci_data ci) accounts ps (iv\<lparr>iv_tc := tc\<rparr>))))" by simp
        then show ?thesis
          using assms(6) Some Inr a False by (auto simp: process_one_def split: prod.splits)
      qed
    qed
  qed
qed

lemma process_all_frame:
  assumes "process_ok process" and "keys_ok s" and "keys_cover message s"
    and "process_all process message index work (units, iv) = Some (r, units', iv')"
    and "\<forall>(ci, ps) \<in> set work. length (ci_accounts ci) + length ps < 65536"
    and "message_frame s (iv_tc iv)"
  shows "message_frame s (iv_tc iv')"
  using assms(4-)
proof (induction work arbitrary: index units iv)
  case (Cons w work)
  obtain ci ps where w: "w = (ci, ps)" by force
  obtain program_id r1 units1 iv1
    where id: "ak_get (sm_account_keys message) (unat (ci_program_id_index ci)) = Some program_id"
      and one: "process_one process message index (program_id, ci) ps (units, iv) = Some (r1, units1, iv1)"
    using Cons.prems(1) w by (auto split: option.splits)
  have "message_frame s (iv_tc iv1)"
    using process_one_frame [OF assms(1) Cons.prems(3) assms(2,3) _ one] Cons.prems(2) w by simp
  then show ?case
    using Cons.IH [of "Suc index" units1 iv1] Cons.prems(1,2) w id one by (auto split: sum.splits)
qed simp

lemma process_message_frame:
  assumes "all_programs_ok programs" and "tc_inv tc" and "keys_ok tc" and "keys_cover message tc"
    and "\<forall>ci \<in> set (sm_instructions message). \<forall>ps \<in> set program_indices.
      length (ci_accounts ci) + length ps < 65536"
    and "process_message depth d programs message program_indices tc lc budget units = Some (r, units', iv)"
  shows "message_frame tc (iv_tc iv)"
proof -
  have "\<forall>(ci, ps) \<in> set (zip (sm_instructions message) program_indices). length (ci_accounts ci) + length ps < 65536"
    using assms(5) by (fastforce dest: set_zip_leftD set_zip_rightD)
  moreover have "message_frame tc (iv_tc (invoke_context_new tc lc budget))"
    using assms(2) by (simp add: message_frame_def invoke_context_new_def)
  ultimately show ?thesis
    using process_all_frame [OF process_instruction_ok [OF assms(1)] assms(3,4) assms(6) [unfolded process_message_def]]
    by blast
qed

text \<open>
  (C1) Accounts of the base layer are read-only: when a message is executed by programs that keep the
  contract, no account that was loaded from the base layer is changed, whatever the message asks for,
  whether it succeeds or fails, and however its programs invoke each other (the instructions sysvar,
  which the runtime itself writes, is not such an account).
\<close>

theorem process_message_keeps_remote:
  assumes "all_programs_ok programs" and "tc_inv tc" and "keys_ok tc" and "keys_cover message tc"
    and "\<forall>ci \<in> set (sm_instructions message). \<forall>ps \<in> set program_indices.
      length (ci_accounts ci) + length ps < 65536"
    and "process_message depth d programs message program_indices tc lc budget units = Some (r, units', iv)"
  shows "tc_instruction_stack (iv_tc iv) = tc_instruction_stack tc \<and>
    (\<forall>i < length (ta_accounts (tc_accounts tc)).
       acct_remote (account_at tc i) \<longrightarrow> get (tc_account_keys tc) i \<noteq> Some instructions_sysvar_id \<longrightarrow>
       account_at (iv_tc iv) i = account_at tc i)"
  using process_message_frame [OF assms] by (auto simp: message_frame_def is_remote_def)

text \<open>
  A message that asks the system program to move 30 lamports to an account of the base layer, which
  its header lists as writable.
\<close>

definition remote_tc :: transaction_context where
  "remote_tc =
     transaction_context_new
       [(demo_key 1, shared_create 100 [] system_program_id False 0),
        (demo_key 2, (shared_create 7 [] (demo_key 9) False 0)\<lparr>acct_remote := True\<rparr>),
        (system_program_id, shared_create 1 [] native_loader_id True 0)] rent_default 4 8"

definition remote_legacy :: legacy_message where
  "remote_legacy =
     \<lparr>lm_header = \<lparr>mh_num_required_signatures = 1, mh_num_readonly_signed_accounts = 0,
                   mh_num_readonly_unsigned_accounts = 1\<rparr>,
      lm_account_keys = [demo_key 1, demo_key 2, system_program_id],
      lm_recent_blockhash = hash_default,
      lm_instructions = [\<lparr>ci_program_id_index = 2, ci_accounts = [0, 1], ci_data = [1]\<rparr>]\<rparr>"

definition remote_message :: sanitized_message where
  "remote_message = LegacyMsg \<lparr>clm_message = remote_legacy, clm_is_writable_cache = [True, True, False]\<rparr>"

definition remote_run :: "((transaction_error + unit) \<times> u64 \<times> invoke_context) option" where
  "remote_run =
     process_message 1 cpi_display (system_programs (demo_system_env (Transfer 30))) remote_message [[2]]
       remote_tc None \<lparr>cb_compute_unit_limit = 1000\<rparr> 0"

lemma pubkey_neqI: "f (pk_bytes a) \<noteq> f (pk_bytes b) \<Longrightarrow> a \<noteq> b"
  by auto

lemma demo_keys_last:
  "demo_key 1 \<noteq> system_program_id" "demo_key 2 \<noteq> system_program_id" "demo_key 1 \<noteq> demo_key 2"
  by (rule pubkey_neqI [of last], simp add: demo_key_def system_program_id_def)+

lemma demo_keys_hd:
  "demo_key 1 \<noteq> instructions_sysvar_id" "demo_key 2 \<noteq> instructions_sysvar_id"
  "system_program_id \<noteq> instructions_sysvar_id"
  "system_program_id \<noteq> secp256k1_program_id" "system_program_id \<noteq> ed25519_program_id"
  by (rule pubkey_neqI [of hd], simp add: demo_key_def system_program_id_def instructions_sysvar_id_def
      secp256k1_program_id_def ed25519_program_id_def hd_append)+

lemmas demo_keys_differ = demo_keys_last demo_keys_hd

definition remote_ix_accounts :: "instruction_account list" where
  "remote_ix_accounts =
     [\<lparr>ia_index_in_transaction = 0, ia_index_in_caller = 0, ia_index_in_callee = 0,
       ia_is_signer = True, ia_is_writable = True\<rparr>,
      \<lparr>ia_index_in_transaction = 1, ia_index_in_caller = 1, ia_index_in_callee = 1,
       ia_is_signer = False, ia_is_writable = False\<rparr>]"

lemma remote_accounts: "message_accounts remote_message remote_tc [0, 1] = Some remote_ix_accounts"
  using demo_keys_differ
  by (simp add: message_accounts_def message_account_def remote_message_def remote_legacy_def ak_get_def key_segments_def
      is_remote_account_def remote_tc_def transaction_context_new_def ta_new_def find_index_of_account_def
      get_account_at_index_def ta_get_def ok_or_def get_def ref_cell_new_def can_borrow_def shared_create_def
      sm_is_signer_def remote_ix_accounts_def)

lemmas execution_eval [eval_simps] = remote_tc_def process_with_def process_executable_chain_def find_builtin_def
  system_programs_def system_builtin_def declare_process_instruction_def consume_checked_def program_outcome_def
  native_loader_id_def ic_configure_def get_instruction_trace_length_def get_remaining_def iv_get_stack_height_def
  iv_msg_def ic_logger_msg_def program_invoke_def program_failure_def set_return_data_def result_and_def
  saturating_sub_def

abbreviation remote_iv :: invoke_context where
  "remote_iv \<equiv> invoke_context_new remote_tc None \<lparr>cb_compute_unit_limit = 1000\<rparr>"

lemma remote_instruction_eval:
  "\<exists>iv. process_instruction 1 cpi_display (system_programs (demo_system_env (Transfer 30))) [1]
     remote_ix_accounts [2] remote_iv = ((Inl ReadonlyLamportChange, 150), iv)"
proof -
  have "fst (process_instruction 1 cpi_display (system_programs (demo_system_env (Transfer 30))) [1]
      remote_ix_accounts [2] remote_iv) = (Inl ReadonlyLamportChange, 150)"
    by (simp add: eval_simps run_simps remote_ix_accounts_def replicate_32 Let_def)
  then show ?thesis by (metis prod.collapse)
qed

lemma remote_tc_ok: "tc_inv remote_tc" "keys_ok remote_tc"
  unfolding remote_tc_def
  by (rule tc_inv_new, use demo_keys_last in \<open>simp add: keys_ok_def transaction_context_new_def\<close>)

theorem process_instruction_frame_witness:
  "\<exists>iv. process_instruction 1 cpi_display (system_programs (demo_system_env (Transfer 30))) [1]
       remote_ix_accounts [2] remote_iv = ((Inl ReadonlyLamportChange, 150), iv) \<and>
     tc_inv (iv_tc iv) \<and> account_at (iv_tc iv) 1 = account_at remote_tc 1"
proof -
  obtain iv where run: "process_instruction 1 cpi_display (system_programs (demo_system_env (Transfer 30))) [1]
      remote_ix_accounts [2] remote_iv = ((Inl ReadonlyLamportChange, 150), iv)"
    using remote_instruction_eval by blast
  have tc: "iv_tc remote_iv = remote_tc" by (simp add: invoke_context_new_def)
  have "1 < length (ta_accounts (tc_accounts remote_tc))"
    by (simp add: remote_tc_def transaction_context_new_def ta_new_def)
  moreover have "\<forall>ia \<in> set remote_ix_accounts. ia_index_in_transaction ia = 1 \<longrightarrow> \<not> ia_is_writable ia"
    and "length remote_ix_accounts + length [2 :: nat] < 65536"
    by (simp_all add: remote_ix_accounts_def)
  ultimately show ?thesis
    using process_instruction_frame [OF system_programs_ok _ _ _ run, unfolded tc] remote_tc_ok run by blast
qed

lemma remote_run_eval: "\<exists>iv. remote_run = Some (Inl (TE_InstructionError 0 ReadonlyLamportChange), 150, iv)"
proof -
  have ixs: "sm_instructions remote_message = [\<lparr>ci_program_id_index = 2, ci_accounts = [0, 1], ci_data = [1]\<rparr>]"
      "ak_get (sm_account_keys remote_message) 2 = Some system_program_id"
    by (simp_all add: remote_message_def remote_legacy_def ak_get_def key_segments_def)
  have fixup: "fixup_instructions_sysvar 0 remote_tc = Some (Inr remote_tc)"
    using demo_keys_differ
    by (simp add: fixup_instructions_sysvar_def remote_tc_def transaction_context_new_def find_index_of_account_def)
  have pre: "\<not> is_precompile system_program_id"
    using demo_keys_hd by (simp add: is_precompile_def PRECOMPILES_def eq_commute)
  have iv: "iv_tc remote_iv = remote_tc" "remote_iv\<lparr>iv_tc := remote_tc\<rparr> = remote_iv"
    by (simp_all add: invoke_context_new_def)
  obtain iv2 where run: "process_instruction 1 cpi_display (system_programs (demo_system_env (Transfer 30))) [1]
      remote_ix_accounts [2] remote_iv = ((Inl ReadonlyLamportChange, 150), iv2)"
    using remote_instruction_eval by blast
  show ?thesis
    unfolding remote_run_def process_message_def
    by (simp add: process_one_def ixs iv fixup remote_accounts pre run Let_def saturating_add_def
        del: process_instruction.simps One_nat_def)
qed

theorem process_message_keeps_remote_witness:
  "\<exists>iv. remote_run = Some (Inl (TE_InstructionError 0 ReadonlyLamportChange), 150, iv) \<and>
     acct_remote (account_at remote_tc 1) \<and> account_at (iv_tc iv) 1 = account_at remote_tc 1"
proof -
  obtain iv where run: "remote_run = Some (Inl (TE_InstructionError 0 ReadonlyLamportChange), 150, iv)"
    using remote_run_eval by blast
  have "keys_cover remote_message remote_tc"
    by (auto simp: keys_cover_def remote_message_def remote_legacy_def remote_tc_def transaction_context_new_def
        ak_get_def key_segments_def get_def nth_Cons' split: if_splits)
  moreover have "\<forall>ci \<in> set (sm_instructions remote_message). \<forall>ps \<in> set [[2 :: nat]].
      length (ci_accounts ci) + length ps < 65536"
    by (simp add: remote_message_def remote_legacy_def)
  moreover have remote: "1 < length (ta_accounts (tc_accounts remote_tc))" "acct_remote (account_at remote_tc 1)"
      "get (tc_account_keys remote_tc) 1 \<noteq> Some instructions_sysvar_id"
    using demo_keys_hd
    by (simp_all add: remote_tc_def transaction_context_new_def ta_new_def account_at_def ref_cell_new_def
        shared_create_def get_def)
  ultimately have "account_at (iv_tc iv) 1 = account_at remote_tc 1"
    using process_message_keeps_remote [OF system_programs_ok _ _ _ _ run [unfolded remote_run_def]] remote_tc_ok by blast
  with run remote show ?thesis by blast
qed

end
