(* ===== verification/Call_Depth.thy ===== *)
theory Call_Depth
  imports Execution_Properties
begin

text \<open>
  Termination of nested invocations: the recursion between \<^verbatim>\<open>process_instruction\<close> and \<^verbatim>\<open>native_invoke\<close>
  (\<^verbatim>\<open>program-runtime/src/invoke_context.rs\<close>) goes no deeper than the free room of the instruction
  stack, so the bound that the model counts down is never what stops it.
\<close>

section \<open>Levels of the stack\<close>

definition same_level :: "invoke_context \<Rightarrow> invoke_context \<Rightarrow> bool" where
  "same_level iv iv' \<longleftrightarrow>
     tc_instruction_stack (iv_tc iv') = tc_instruction_stack (iv_tc iv) \<and>
     tc_instruction_stack_capacity (iv_tc iv') = tc_instruction_stack_capacity (iv_tc iv)"

definition stack_room :: "invoke_context \<Rightarrow> nat" where
  "stack_room iv = tc_instruction_stack_capacity (iv_tc iv) - length (tc_instruction_stack (iv_tc iv))"

definition keeps_level :: "invoke_context \<Rightarrow> invoke \<Rightarrow> bool" where
  "keeps_level iv invoke \<longleftrightarrow>
     (\<forall>ix signers iv'. same_level iv iv' \<longrightarrow> same_level iv (snd (invoke ix signers iv')))"

definition agree_at :: "invoke_context \<Rightarrow> invoke \<Rightarrow> invoke \<Rightarrow> bool" where
  "agree_at iv invoke invoke' \<longleftrightarrow>
     (\<forall>ix signers iv'. same_level iv iv' \<longrightarrow> invoke ix signers iv' = invoke' ix signers iv')"

text \<open>
  A program leaves the stack to the runtime: it keeps the level if the invocations it makes do, and
  it makes them at its own level, so that what they would do elsewhere does not matter to it.
\<close>

definition stays_at_level :: "builtin \<Rightarrow> bool" where
  "stays_at_level b \<longleftrightarrow>
     (\<forall>iv invoke. keeps_level iv invoke \<longrightarrow>
        same_level iv (snd (b invoke iv)) \<and>
        (\<forall>invoke'. agree_at iv invoke invoke' \<longrightarrow> b invoke iv = b invoke' iv))"

definition programs_stay_at_level :: "programs \<Rightarrow> bool" where
  "programs_stay_at_level programs \<longleftrightarrow>
     (\<forall>key b. programs key = Some (Builtin (Some b)) \<longrightarrow> stays_at_level b)"

lemma same_level_refl: "same_level iv iv"
  by (simp add: same_level_def)

lemma same_level_trans: "same_level a b \<Longrightarrow> same_level b c \<Longrightarrow> same_level a c"
  by (simp add: same_level_def)

lemma same_level_tc: "iv_tc a' = iv_tc a \<Longrightarrow> iv_tc b' = iv_tc b \<Longrightarrow> same_level a b \<Longrightarrow> same_level a' b'"
  by (simp add: same_level_def)

lemma stack_room_level: "same_level iv iv' \<Longrightarrow> stack_room iv' = stack_room iv"
  by (simp add: same_level_def stack_room_def)

lemma keeps_level_cong: "same_level iv iv' \<Longrightarrow> keeps_level iv' invoke = keeps_level iv invoke"
  by (simp add: keeps_level_def same_level_def)

lemma agree_at_cong: "same_level iv iv' \<Longrightarrow> agree_at iv' invoke invoke' = agree_at iv invoke invoke'"
  by (simp add: agree_at_def same_level_def)

section \<open>The runtime's own steps\<close>

lemma configured_level: "same_level iv (snd (with_tc (with_next_instruction_context f) iv))"
  by (auto simp: with_tc_def with_next_instruction_context_def bind_def reads_def modify_def same_level_def
      split: sum.splits)

lemma tc_push_level:
  assumes "tc_push s = (r, t)"
  shows "tc_instruction_stack_capacity t = tc_instruction_stack_capacity s \<and>
    (if r = Inr ()
     then length (tc_instruction_stack s) < tc_instruction_stack_capacity s \<and>
       butlast (tc_instruction_stack t) = tc_instruction_stack s \<and>
       length (tc_instruction_stack t) = Suc (length (tc_instruction_stack s))
     else tc_instruction_stack t = tc_instruction_stack s)"
proof (cases "fst (push_checks s)")
  case (Inl e)
  then show ?thesis using assms push_checks_frame [of s] by (auto simp: tc_push_def run_simps)
next
  case (Inr p)
  obtain n tot where p: "p = (n, tot)" by force
  have run: "push_checks s = (Inr (n, tot), s)"
    using Inr p push_checks_frame [of s] by (simp add: prod_eq_iff)
  note n = push_checks_Inr [OF run]
  have "tc_push s = push_commit (length (tc_instruction_stack s)) tot s"
    using n by (simp add: tc_push_def bind_def run)
  with assms n show ?thesis by (auto simp: push_commit_eq Let_def split: if_splits)
qed

lemma iv_push_level:
  assumes "iv_push iv = (r, iv')"
  shows "tc_instruction_stack_capacity (iv_tc iv') = tc_instruction_stack_capacity (iv_tc iv)"
    and "r = Inr () \<Longrightarrow> stack_room iv = Suc (stack_room iv')"
    and "r = Inr () \<Longrightarrow> butlast (tc_instruction_stack (iv_tc iv')) = tc_instruction_stack (iv_tc iv)"
    and "r \<noteq> Inr () \<Longrightarrow> same_level iv iv'"
  using iv_push_tc [OF assms] tc_push_level [of "iv_tc iv" r "iv_tc iv'"]
  by (auto simp: stack_room_def same_level_def)

lemma native_invoke_run:
  "native_invoke_with d process ix signers iv =
     (case prepare_instruction d ix signers iv of
        (Inl e, iv1) \<Rightarrow> (Inl e, iv1)
      | (Inr (accounts, program_indices), iv1) \<Rightarrow>
          (case process (ix_data ix) accounts program_indices iv1 of ((result, _), iv2) \<Rightarrow> (result, iv2)))"
  by (simp add: native_invoke_with_def bind_def split: prod.splits sum.splits)

lemma prepare_instruction_tc: "iv_tc (snd (prepare_instruction d ix signers iv)) = iv_tc iv"
  by (auto simp: prepare_instruction_def iv_msg_def split: sum.splits option.splits prod.splits)

lemma chain_level:
  assumes "programs_stay_at_level programs" and "keeps_level iv invoke"
  shows "same_level iv (snd (process_executable_chain d programs invoke iv)) \<and>
    (agree_at iv invoke invoke' \<longrightarrow>
       process_executable_chain d programs invoke iv = process_executable_chain d programs invoke' iv)"
proof (cases "find_builtin programs (iv_tc iv)")
  case (Inl e)
  then show ?thesis by (simp add: process_executable_chain_def same_level_refl)
next
  case (Inr bfp)
  obtain builtin_id f key where bfp: "bfp = (builtin_id, f, key)" by (cases bfp) auto
  have f: "stays_at_level f"
    using Inr bfp assms(1)
    by (auto simp: find_builtin_def and_then_def Let_def programs_stay_at_level_def
        split: sum.splits option.splits loaded_program_type.splits)
  let ?iv1 = "snd (with_tc (set_return_data key []) iv)"
  let ?iv2 = "iv_msg (program_invoke (show_key d key) (iv_get_stack_height ?iv1)) ?iv1"
  have level: "same_level iv ?iv2"
    by (simp add: iv_msg_def with_tc_def set_return_data_def modify_def same_level_def)
  have f2: "same_level ?iv2 (snd (f invoke ?iv2))" "agree_at iv invoke invoke' \<longrightarrow> f invoke ?iv2 = f invoke' ?iv2"
    using f assms(2) by (auto simp: stays_at_level_def keeps_level_cong [OF level] agree_at_cong [OF level])
  have "iv_tc (snd (process_executable_chain d programs invoke iv)) = iv_tc (snd (f invoke ?iv2))"
    using program_outcome_tc [of d key "fst (f invoke ?iv2)" "snd (f invoke ?iv2)"]
    by (auto simp: process_executable_chain_def Inr bfp Let_def split: prod.splits)
  then have "same_level iv (snd (process_executable_chain d programs invoke iv))"
    using same_level_tc [OF refl, of _ "snd (f invoke ?iv2)"] same_level_trans [OF level f2(1)] by blast
  moreover have "agree_at iv invoke invoke' \<longrightarrow>
      process_executable_chain d programs invoke iv = process_executable_chain d programs invoke' iv"
    using f2(2) by (simp add: process_executable_chain_def Inr bfp Let_def)
  ultimately show ?thesis by blast
qed

lemma process_with_run:
  "process_with d programs invoke bs accounts program_indices iv =
     (case with_tc (with_next_instruction_context (ic_configure program_indices accounts bs)) iv of
        (Inl e, iv1) \<Rightarrow> ((Inl e, 0), iv1)
      | (Inr _, iv1) \<Rightarrow>
          (case iv_push iv1 of
             (Inl e, iv2) \<Rightarrow> ((Inl e, 0), iv2)
           | (Inr _, iv2) \<Rightarrow>
               (let ((result, consumed), iv3) = process_executable_chain d programs invoke iv2;
                    (popped, iv4) = iv_pop iv3
                in ((result_and result popped, consumed), iv4))))"
  by (simp add: process_with_def split: prod.splits sum.splits)

text \<open>Either the call is refused before its program runs, or the program runs one level up.\<close>

lemma process_with_cases:
  obtains (refused) r where "same_level iv (snd r)"
      "\<forall>invoke. process_with d programs invoke bs accounts program_indices iv = r"
  | (runs) iv2 finish where "stack_room iv = Suc (stack_room iv2)"
      "\<forall>invoke. process_with d programs invoke bs accounts program_indices iv =
         finish (process_executable_chain d programs invoke iv2)"
      "\<forall>out. same_level iv2 (snd out) \<longrightarrow> same_level iv (snd (finish out))"
proof -
  obtain r1 iv1 where one: "with_tc (with_next_instruction_context (ic_configure program_indices accounts bs)) iv = (r1, iv1)"
    by force
  have l1: "same_level iv iv1" using configured_level [of iv] one by (metis snd_conv)
  obtain r2 iv2 where two: "iv_push iv1 = (r2, iv2)" by force
  note p = iv_push_level [OF two]
  show thesis
  proof (cases "\<exists>e. r1 = Inl e")
    case True
    with one l1 show thesis by (intro refused [of "((r1, 0), iv1)"]) (auto simp: process_with_run)
  next
    case False
    then have r1: "r1 = Inr ()" by (cases r1) auto
    show thesis
    proof (cases "\<exists>e. r2 = Inl e")
      case True
      with one two r1 same_level_trans [OF l1 p(4)] show thesis
        by (intro refused [of "((r2, 0), iv2)"]) (auto simp: process_with_run)
    next
      case False
      then have r2: "r2 = Inr ()" by (cases r2) auto
      let ?finish = "\<lambda>((result, consumed), iv3). let (popped, iv4) = iv_pop iv3
          in ((result_and result popped, consumed), iv4)"
      have pop: "same_level iv (snd (iv_pop iv3))" if "same_level iv2 iv3" for iv3
        using that p(1) p(3) [OF r2] l1 iv_pop_tc [of iv3] by (simp add: same_level_def tc_pop_frame)
      show thesis
      proof (rule runs)
        show "stack_room iv = Suc (stack_room iv2)"
          using p(2) [OF r2] stack_room_level [OF l1] by simp
        show "\<forall>invoke. process_with d programs invoke bs accounts program_indices iv =
            ?finish (process_executable_chain d programs invoke iv2)"
          using one two r1 r2 by (simp add: process_with_run split: prod.splits)
        show "\<forall>out. same_level iv2 (snd out) \<longrightarrow> same_level iv (snd (?finish out))"
          using pop by (auto simp: Let_def split: prod.splits) (metis snd_conv)
      qed
    qed
  qed
qed

section \<open>The bound\<close>

definition process_keeps_level :: "process \<Rightarrow> bool" where
  "process_keeps_level process \<longleftrightarrow>
     (\<forall>bs accounts program_indices iv. same_level iv (snd (process bs accounts program_indices iv)))"

lemma native_invoke_keeps_level:
  assumes "process_keeps_level process"
  shows "keeps_level iv (native_invoke_with d process)"
  unfolding keeps_level_def
proof (intro allI impI)
  fix ix signers iv'
  assume level: "same_level iv iv'"
  have l1: "same_level iv (snd (prepare_instruction d ix signers iv'))"
    using same_level_tc [OF refl prepare_instruction_tc level] .
  have "same_level iv (snd (process (ix_data ix) accounts program_indices (snd (prepare_instruction d ix signers iv'))))"
      for accounts program_indices
    using l1 assms same_level_trans unfolding process_keeps_level_def by blast
  with l1 show "same_level iv (snd (native_invoke_with d process ix signers iv'))"
    by (auto simp: native_invoke_run split: prod.splits sum.splits) (metis snd_conv)
qed

lemma process_with_keeps_level:
  assumes "programs_stay_at_level programs" and "\<And>iv. keeps_level iv invoke"
  shows "process_keeps_level (process_with d programs invoke)"
  unfolding process_keeps_level_def
proof (intro allI)
  fix bs accounts program_indices iv
  show "same_level iv (snd (process_with d programs invoke bs accounts program_indices iv))"
  proof (cases rule: process_with_cases [of iv d programs bs accounts program_indices])
    case (runs iv2 finish)
    with chain_level [OF assms(1) assms(2) [of iv2], of d invoke] show ?thesis by metis
  qed simp
qed

lemma process_instruction_keeps_level:
  assumes "programs_stay_at_level programs"
  shows "process_keeps_level (process_instruction n d programs)"
proof (induction n)
  case 0
  show ?case by (simp add: process_keeps_level_def same_level_refl)
next
  case (Suc n)
  show ?case
    unfolding process_instruction.simps
    by (rule process_with_keeps_level [OF assms native_invoke_keeps_level [OF Suc.IH]])
qed

lemma native_invoke_agree:
  assumes "\<And>iv' bs accounts program_indices. same_level iv iv' \<Longrightarrow>
      process bs accounts program_indices iv' = process' bs accounts program_indices iv'"
  shows "agree_at iv (native_invoke_with d process) (native_invoke_with d process')"
  unfolding agree_at_def
proof (intro allI impI)
  fix ix signers iv'
  assume level: "same_level iv iv'"
  have "same_level iv (snd (prepare_instruction d ix signers iv'))"
    using same_level_tc [OF refl prepare_instruction_tc level] .
  with assms show "native_invoke_with d process ix signers iv' = native_invoke_with d process' ix signers iv'"
    by (auto simp: native_invoke_run split: prod.splits sum.splits)
qed

text \<open>
  (C4) Nested invocations terminate: whatever programs are loaded, as long as they leave the stack to
  the runtime, an instruction invokes no deeper than the room left on the instruction stack.  Any two
  bounds above that room give the same result, compute units and context, so the recursion of the
  code is finite and the bound of the model is not what ends it.
\<close>

theorem call_depth_bounded:
  assumes "programs_stay_at_level programs" and "stack_room iv < n" and "stack_room iv < m"
  shows "process_instruction n d programs bs accounts program_indices iv =
    process_instruction m d programs bs accounts program_indices iv"
  using assms(2,3)
proof (induction n arbitrary: m iv bs accounts program_indices)
  case (Suc n)
  then obtain m' where m: "m = Suc m'" by (cases m) auto
  let ?invoke = "\<lambda>k. native_invoke_with d (process_instruction k d programs)"
  show ?case
  proof (cases rule: process_with_cases [of iv d programs bs accounts program_indices])
    case (runs iv2 finish)
    have "agree_at iv2 (?invoke n) (?invoke m')"
      using Suc runs(1) m by (intro native_invoke_agree Suc.IH) (auto dest: stack_room_level)
    moreover have "keeps_level iv2 (?invoke n)"
      by (rule native_invoke_keeps_level [OF process_instruction_keeps_level [OF assms(1)]])
    ultimately show ?thesis
      using chain_level [OF assms(1)] runs(2) m by (metis process_instruction.simps(2))
  qed (simp add: m)
qed simp

text \<open>A program that does nothing but invoke itself.\<close>

definition looping_programs :: "instruction \<Rightarrow> programs" where
  "looping_programs ix key = Some (Builtin (Some (declare_process_instruction 1 (\<lambda>invoke. invoke ix []))))"

lemma consume_checked_tc: "iv_tc (snd (consume_checked cu iv)) = iv_tc iv"
  by (simp add: consume_checked_def Let_def)

lemma looping_stays_at_level: "programs_stay_at_level (looping_programs ix)"
proof -
  have "stays_at_level (declare_process_instruction 1 (\<lambda>invoke. invoke ix []))"
    unfolding stays_at_level_def
  proof (intro allI impI conjI)
    fix iv invoke invoke'
    assume keeps: "keeps_level iv invoke"
    obtain r iv1 where c: "consume_checked 1 iv = (r, iv1)" by force
    have l1: "same_level iv iv1" using consume_checked_tc [of 1 iv] c by (simp add: same_level_def)
    then have l2: "same_level iv (snd (invoke ix [] iv1))" using keeps by (simp add: keeps_level_def)
    show "same_level iv (snd (declare_process_instruction 1 (\<lambda>invoke. invoke ix []) invoke iv))"
      using l1 l2 c by (auto simp: declare_process_instruction_def split: sum.splits prod.splits)
    assume "agree_at iv invoke invoke'"
    then show "declare_process_instruction 1 (\<lambda>invoke. invoke ix []) invoke iv =
        declare_process_instruction 1 (\<lambda>invoke. invoke ix []) invoke' iv"
      using l1 c by (simp add: declare_process_instruction_def agree_at_def split: sum.splits)
  qed
  then show ?thesis by (simp add: programs_stay_at_level_def looping_programs_def)
qed

theorem call_depth_bounded_witness:
  "stack_room remote_iv = 4 \<and>
   process_instruction 5 cpi_display (looping_programs \<lparr>ix_program_id = system_program_id, ix_accounts = [], ix_data = []\<rparr>)
       [1] remote_ix_accounts [2] remote_iv =
     process_instruction 99 cpi_display (looping_programs \<lparr>ix_program_id = system_program_id, ix_accounts = [], ix_data = []\<rparr>)
       [1] remote_ix_accounts [2] remote_iv"
proof -
  have room: "stack_room remote_iv = 4"
    by (simp add: stack_room_def invoke_context_new_def remote_tc_def transaction_context_new_def)
  moreover have "stack_room remote_iv < 5" "stack_room remote_iv < 99" using room by simp_all
  ultimately show ?thesis using call_depth_bounded [OF looping_stays_at_level] by blast
qed

end
