(* ===== verification/Remote_Loader.thy ===== *)
theory Remote_Loader
  imports Account Message Log_Collector "HOL-Library.Sublist"
begin

text \<open>
  The loader of base-layer accounts (\<^verbatim>\<open>accounts-db/src/remote_loader.rs\<close>), which the fork adds to
  the validator: a cache of accounts fetched over RPC and marked as remote, their deactivation, and
  the transaction that reports a new value back to the base layer.

  The RPC client is a parameter: its calls are functions of a state \<open>'w\<close> of the outside world and
  may change it, so that two requests can have different answers.  Printing and decoding of keys
  (\<^verbatim>\<open>bs58\<close>), the configuration file (\<^verbatim>\<open>serde_yaml\<close>), \<^verbatim>\<open>bincode\<close> and SHA-256 are parameters as well.
  The HTTP variant of the loader is dead code and not modelled.
\<close>

section \<open>Configuration and state\<close>

record loader_config =
  cfg_baselayer_rpc_url :: string
  cfg_keypair_base58 :: string
  cfg_sonic_program_id :: string

definition config_default :: loader_config where
  "config_default =
     \<lparr>cfg_baselayer_rpc_url = ''https://api.devnet.solana.com'',
      cfg_keypair_base58 =
        ''5gA6JTpFziXu7py2j63arRUq1H29p6pcPMB74LaNuzcSqULPD6s1SZUS3UMPvFEE9oXmt1kk6ez3C6piTc3bwpJ6'',
      cfg_sonic_program_id = ''4WTUyXNcf6QCEj76b3aRDLPewkPGkXFZkkyf3A3vua1z''\<rparr>"

record remote_loader =
  rl_account_cache :: "pubkey \<rightharpoonup> account_shared_data"
  rl_enable :: bool
  rl_config :: loader_config

datatype upgradeable_loader_state =
    ULS_Uninitialized
  | ULS_Buffer "pubkey option"
  | ULS_Program pubkey
  | ULS_ProgramData u64 "pubkey option"

record set_value_instruction =
  sv_instruction :: bytes
  sv_value :: u64

record set_locker_instruction =
  sl_instruction :: bytes
  sl_locker :: pubkey

record 'w rpc_client =
  rpc_get_account :: "pubkey \<Rightarrow> 'w \<Rightarrow> account option \<times> 'w"
  rpc_get_latest_blockhash :: "'w \<Rightarrow> hash option \<times> 'w"
  rpc_send_transaction :: "legacy_message \<Rightarrow> 'w \<Rightarrow> bytes option \<times> 'w"

record 'w remote_env =
  re_rpc :: "'w rpc_client"
  re_show_key :: "pubkey \<Rightarrow> string"
  re_load_config :: "string \<Rightarrow> loader_config option"
  re_keypair :: "string \<Rightarrow> pubkey option"
  re_loader_state :: "upgradeable_loader_state codec"
  re_set_value :: "set_value_instruction codec"
  re_set_locker :: "set_locker_instruction codec"
  re_sha256 :: "bytes \<Rightarrow> bytes"

type_synonym 'w loader_state = "remote_loader \<times> 'w"

definition remote_loader_new :: "'w remote_env \<Rightarrow> string \<Rightarrow> remote_loader" where
  "remote_loader_new env config_path =
     \<lparr>rl_account_cache = Map.empty, rl_enable = True,
      rl_config = (case re_load_config env config_path of Some setting \<Rightarrow> setting | None \<Rightarrow> config_default)\<rparr>"

section \<open>Looking up accounts\<close>

definition contains_str :: "string \<Rightarrow> string \<Rightarrow> bool" where
  "contains_str pattern s \<longleftrightarrow> list_ex (prefix pattern) (suffixes s)"

definition ignored_account :: "'w remote_env \<Rightarrow> pubkey \<Rightarrow> bool" where
  "ignored_account env key \<longleftrightarrow> contains_str ''1111111111111111'' (re_show_key env key)"

definition rl_get_account :: "'w remote_env \<Rightarrow> remote_loader \<Rightarrow> pubkey \<Rightarrow> account_shared_data option" where
  "rl_get_account env rl key =
     (if \<not> rl_enable rl \<or> ignored_account env key then None else rl_account_cache rl key)"

definition rl_has_account :: "'w remote_env \<Rightarrow> remote_loader \<Rightarrow> pubkey \<Rightarrow> bool" where
  "rl_has_account env rl key \<longleftrightarrow>
     (if \<not> rl_enable rl \<or> ignored_account env key then False else rl_account_cache rl key \<noteq> None)"

definition has_programdata_account :: "'w remote_env \<Rightarrow> account_shared_data \<Rightarrow> pubkey option" where
  "has_programdata_account env a =
     (if acct_executable a \<and> acct_owner a \<noteq> bpf_loader_upgradeable_id then None
      else case shared_deserialize_data (re_loader_state env) a of
             Inr (ULS_Program programdata_address) \<Rightarrow> Some programdata_address
           | _ \<Rightarrow> None)"

section \<open>Loading accounts\<close>

definition remote_account :: "account \<Rightarrow> account_shared_data" where
  "remote_account a =
     (shared_create (acct_lamports a) (acct_data a) (acct_owner a) (acct_executable a)
        (acct_rent_epoch a))\<lparr>acct_remote := True\<rparr>"

definition load_account_via_rpc ::
    "'w remote_env \<Rightarrow> pubkey \<Rightarrow> 'w loader_state \<Rightarrow> account_shared_data option \<times> 'w loader_state" where
  "load_account_via_rpc env key s =
     (case s of (rl, w) \<Rightarrow>
      (if ignored_account env key then (None, s)
       else (case rpc_get_account (re_rpc env) key w of
               (None, w') \<Rightarrow> (None, rl, w')
             | (Some a, w') \<Rightarrow>
                 (Some (remote_account a),
                  rl\<lparr>rl_account_cache := (rl_account_cache rl)(key \<mapsto> remote_account a)\<rparr>, w'))))"

text \<open>
  \<^verbatim>\<open>load_account\<close> calls itself on the program data account; nothing bounds the recursion, so not
  returning is a possible outcome, the value \<open>None\<close>.
\<close>

partial_function (option) load_account ::
    "'w remote_env \<Rightarrow> pubkey \<Rightarrow> 'w loader_state \<Rightarrow> (account_shared_data option \<times> 'w loader_state) option" where
  "load_account env key s =
     (if \<not> rl_enable (fst s) \<or> ignored_account env key then Some (None, s)
      else case load_account_via_rpc env key s of (loaded, s') \<Rightarrow>
        (case loaded of
           None \<Rightarrow> Some (None, s')
         | Some account \<Rightarrow>
             (case has_programdata_account env account of
                None \<Rightarrow> Some (Some account, s')
              | Some programdata_address \<Rightarrow>
                  Option.bind (load_account env programdata_address s')
                    (\<lambda>(_, s''). Some (Some account, s'')))))"

definition deactivate_account :: "'w remote_env \<Rightarrow> pubkey \<Rightarrow> remote_loader \<Rightarrow> remote_loader" where
  "deactivate_account env key rl =
     (if \<not> rl_enable rl \<or> ignored_account env key then rl
      else case rl_get_account env rl key of
             None \<Rightarrow> rl
           | Some account \<Rightarrow>
               (let removed = (rl_account_cache rl)(key := None)
                in rl\<lparr>rl_account_cache :=
                        (case has_programdata_account env account of
                           None \<Rightarrow> removed
                         | Some programdata_address \<Rightarrow> removed(programdata_address := None))\<rparr>))"

section \<open>Reporting to the base layer\<close>

definition is_sonic_program :: "'w remote_env \<Rightarrow> remote_loader \<Rightarrow> pubkey \<Rightarrow> bool" where
  "is_sonic_program env rl key \<longleftrightarrow>
     (if re_show_key env key = cfg_sonic_program_id (rl_config rl) then rl_has_account env rl key else False)"

text \<open>A string as its bytes; the method names are ASCII.\<close>

definition str_bytes :: "string \<Rightarrow> bytes" where
  "str_bytes s = map of_char s"

definition hash_instruction_method :: "'w remote_env \<Rightarrow> string \<Rightarrow> bytes" where
  "hash_instruction_method env method = take 8 (re_sha256 env (str_bytes (''global:'' @ method)))"

definition new_with_bincode :: "pubkey \<Rightarrow> bytes option \<Rightarrow> account_meta list \<Rightarrow> instruction option" where
  "new_with_bincode program_id encoded accounts =
     map_option (\<lambda>d. \<lparr>ix_program_id = program_id, ix_accounts = accounts, ix_data = d\<rparr>) encoded"

definition account_meta_new :: "pubkey \<Rightarrow> bool \<Rightarrow> account_meta" where
  "account_meta_new key is_signer = \<lparr>am_pubkey = key, am_is_signer = is_signer, am_is_writable = True\<rparr>"

definition status_instructions ::
    "'w remote_env \<Rightarrow> pubkey \<Rightarrow> pubkey \<Rightarrow> pubkey \<Rightarrow> u64 \<Rightarrow> instruction list option" where
  "status_instructions env payer program_id key v =
     (let accounts = [account_meta_new key False, account_meta_new payer False]
      in Option.bind (new_with_bincode program_id
             (c_encode (re_set_locker env)
                \<lparr>sl_instruction = hash_instruction_method env ''setlocker'', sl_locker = payer\<rparr>) accounts) (\<lambda>lock.
         Option.bind (new_with_bincode program_id
             (c_encode (re_set_value env)
                \<lparr>sv_instruction = hash_instruction_method env ''setvalue'', sv_value = v\<rparr>) accounts) (\<lambda>set.
         Some [lock, set])))"

text \<open>
  Signing and sending, and the reload of the account after a success.  The outer option is a panic:
  here, when no latest blockhash can be fetched.
\<close>

definition submit_status ::
    "'w remote_env \<Rightarrow> pubkey \<Rightarrow> legacy_message \<Rightarrow> 'w loader_state \<Rightarrow> (bytes option \<times> 'w loader_state) option" where
  "submit_status env key message s =
     (let (rl, w) = s;
          (latest, w1) = rpc_get_latest_blockhash (re_rpc env) w
      in case latest of
           None \<Rightarrow> None
         | Some blockhash \<Rightarrow>
             (let (sent, w2) = rpc_send_transaction (re_rpc env) (message\<lparr>lm_recent_blockhash := blockhash\<rparr>) w1
              in case sent of
                   None \<Rightarrow> Some (None, rl, w2)
                 | Some signature \<Rightarrow> Some (Some signature, snd (load_account_via_rpc env key (rl, w2)))))"

text \<open>The other panics: a malformed key pair, an instruction or a message that cannot be built.\<close>

definition send_status_to_baselayer ::
    "'w remote_env \<Rightarrow> pubkey \<Rightarrow> pubkey \<Rightarrow> u64 \<Rightarrow> 'w loader_state \<Rightarrow> (bytes option \<times> 'w loader_state) option" where
  "send_status_to_baselayer env program_id key v s =
     Option.bind (re_keypair env (cfg_keypair_base58 (rl_config (fst s)))) (\<lambda>payer.
     Option.bind (status_instructions env payer program_id key v) (\<lambda>ixs.
     Option.bind (new_with_blockhash ixs (Some payer) hash_default) (\<lambda>message.
     submit_status env key message s)))"

end
