(* ===== verification/Remote_Properties.thy ===== *)
theory Remote_Properties
  imports Remote_Loader Context_Properties
begin

text \<open>
  Properties of the base-layer loader: what its cache holds, when loading an account returns, that
  a loaded account is what the base layer has, and that deactivation undoes a load.
\<close>

section \<open>What the cache holds\<close>

definition loader_ok :: "'w remote_env \<Rightarrow> remote_loader \<Rightarrow> bool" where
  "loader_ok env rl \<longleftrightarrow>
     (\<forall>key a. rl_account_cache rl key = Some a \<longrightarrow> acct_remote a \<and> \<not> ignored_account env key)"

lemma remote_account_remote [simp]: "acct_remote (remote_account a)"
  by (simp add: remote_account_def)

lemma loader_ok_new: "loader_ok env (remote_loader_new env path)"
  by (simp add: loader_ok_def remote_loader_new_def)

lemma via_rpc_ok:
  "loader_ok env (fst s) \<Longrightarrow> loader_ok env (fst (snd (load_account_via_rpc env key s)))"
  by (auto simp: load_account_via_rpc_def loader_ok_def split: prod.splits option.splits)

lemma via_rpc_enable: "rl_enable (fst (snd (load_account_via_rpc env key s))) = rl_enable (fst s)"
  by (auto simp: load_account_via_rpc_def split: prod.splits option.splits)

lemma deactivate_ok: "loader_ok env rl \<Longrightarrow> loader_ok env (deactivate_account env key rl)"
  by (auto simp: deactivate_account_def loader_ok_def Let_def split: option.splits)

text \<open>One call of \<^verbatim>\<open>load_account\<close>, in the cases that a proof by computation needs.\<close>

lemma load_account_cases:
  assumes "load_account env key s = Some (r, t)"
  obtains (skipped) "r = None" "t = s" "\<not> rl_enable (fst s) \<or> ignored_account env key"
  | (missing) "r = None" "load_account_via_rpc env key s = (None, t)"
      "rl_enable (fst s)" "\<not> ignored_account env key"
  | (plain) a where "r = Some a" "load_account_via_rpc env key s = (Some a, t)"
      "has_programdata_account env a = None" "rl_enable (fst s)" "\<not> ignored_account env key"
  | (program) a s' p r' where "r = Some a" "load_account_via_rpc env key s = (Some a, s')"
      "has_programdata_account env a = Some p" "load_account env p s' = Some (r', t)"
      "rl_enable (fst s)" "\<not> ignored_account env key"
  using assms
  by (subst (asm) load_account.simps)
    (auto split: if_splits option.splits prod.splits simp: bind_eq_Some_conv)

lemma load_account_induct [consumes 1, case_names skipped missing plain program]:
  assumes "load_account env key s = Some (r, t)"
    and "\<And>key s. \<not> rl_enable (fst s) \<or> ignored_account env key \<Longrightarrow> P key s None s"
    and "\<And>key s t. rl_enable (fst s) \<Longrightarrow> \<not> ignored_account env key \<Longrightarrow>
      load_account_via_rpc env key s = (None, t) \<Longrightarrow> P key s None t"
    and "\<And>key s a t. rl_enable (fst s) \<Longrightarrow> \<not> ignored_account env key \<Longrightarrow>
      load_account_via_rpc env key s = (Some a, t) \<Longrightarrow> has_programdata_account env a = None \<Longrightarrow>
      P key s (Some a) t"
    and "\<And>key s a s' p r' t. rl_enable (fst s) \<Longrightarrow> \<not> ignored_account env key \<Longrightarrow>
      load_account_via_rpc env key s = (Some a, s') \<Longrightarrow> has_programdata_account env a = Some p \<Longrightarrow>
      P p s' r' t \<Longrightarrow> P key s (Some a) t"
  shows "P key s r t"
proof -
  have "env = env \<longrightarrow> (\<forall>r' t'. (r, t) = (r', t') \<longrightarrow> P key s r' t')"
  proof (rule load_account.raw_induct
      [of "\<lambda>env' key s y. env' = env \<longrightarrow> (\<forall>r t. y = (r, t) \<longrightarrow> P key s r t)", OF _ assms(1)])
    fix f env' key s y
    assume IH: "\<And>env' key s y. f env' key s = Some y \<Longrightarrow> env' = env \<longrightarrow> (\<forall>r t. y = (r, t) \<longrightarrow> P key s r t)"
      and run: "(if \<not> rl_enable (fst s) \<or> ignored_account env' key then Some (None, s)
        else case load_account_via_rpc env' key s of (None, s') \<Rightarrow> Some (None, s')
           | (Some account, s') \<Rightarrow>
               (case has_programdata_account env' account of
                  None \<Rightarrow> Some (Some account, s')
                | Some programdata_address \<Rightarrow>
                    Option.bind (f env' programdata_address s') (\<lambda>(_, s''). Some (Some account, s'')))) = Some y"
    show "env' = env \<longrightarrow> (\<forall>r t. y = (r, t) \<longrightarrow> P key s r t)"
    proof (intro impI allI)
      fix r t
      assume env: "env' = env" and y: "y = (r, t)"
      obtain l s' where v: "load_account_via_rpc env key s = (l, s')" by (meson surj_pair)
      show "P key s r t"
      proof (cases "\<not> rl_enable (fst s) \<or> ignored_account env key")
        case True
        then show ?thesis using run env y assms(2) by simp
      next
        case False
        then have on: "rl_enable (fst s)" "\<not> ignored_account env key" by simp_all
        show ?thesis
        proof (cases l)
          case None
          then show ?thesis using run env y v False assms(3) [OF on] by simp
        next
          case (Some a)
          show ?thesis
          proof (cases "has_programdata_account env a")
            case None
            then show ?thesis using run env y v False Some assms(4) [OF on] by simp
          next
            case (Some p)
            then obtain r' where "f env p s' = Some (r', t)" "r = Some a"
              using run env y v False \<open>l = Some a\<close> by (auto simp: bind_eq_Some_conv)
            then show ?thesis using IH env v Some \<open>l = Some a\<close> assms(5) [OF on] by blast
          qed
        qed
      qed
    qed
  qed
  then show ?thesis by blast
qed

lemma load_account_ok:
  "load_account env key s = Some (r, t) \<Longrightarrow> loader_ok env (fst s) \<Longrightarrow> loader_ok env (fst t)"
proof (induction rule: load_account_induct)
  case (missing key s t)
  then show ?case using via_rpc_ok [of env s key] by simp
next
  case (plain key s a t)
  then show ?case using via_rpc_ok [of env s key] by simp
next
  case (program key s a s' p r' t)
  then show ?case using via_rpc_ok [of env s key] by simp
qed simp

lemma submit_status_loader:
  assumes "submit_status env key message (rl, w) = Some (r, t)"
  obtains w' where "t = (rl, w')" | w' where "t = snd (load_account_via_rpc env key (rl, w'))"
  using assms by (auto simp: submit_status_def Let_def split: prod.split_asm option.split_asm)

lemma send_status_loader:
  assumes "send_status_to_baselayer env program_id key v (rl, w) = Some (r, t)"
  obtains w' where "t = (rl, w')" | w' where "t = snd (load_account_via_rpc env key (rl, w'))"
  using assms
  by (auto simp: send_status_to_baselayer_def bind_eq_Some_conv elim: submit_status_loader)

lemma send_status_ok:
  "send_status_to_baselayer env program_id key v (rl, w) = Some (r, t) \<Longrightarrow> loader_ok env rl \<Longrightarrow> loader_ok env (fst t)"
  by (erule send_status_loader) (simp_all add: via_rpc_ok)

section \<open>Loading from a stable base layer\<close>

text \<open>The base layer is stable while it answers every request from the same accounts.\<close>

definition stable :: "'w remote_env \<Rightarrow> (pubkey \<rightharpoonup> account) \<Rightarrow> bool" where
  "stable env base \<longleftrightarrow> (\<forall>key w. rpc_get_account (re_rpc env) key w = (base key, w))"

definition base_view :: "'w remote_env \<Rightarrow> (pubkey \<rightharpoonup> account) \<Rightarrow> pubkey \<Rightarrow> account_shared_data option" where
  "base_view env base key =
     (if ignored_account env key then None else map_option remote_account (base key))"

text \<open>The chain of program data addresses that starts at an account comes to an end.\<close>

inductive chain_ends :: "'w remote_env \<Rightarrow> (pubkey \<rightharpoonup> account) \<Rightarrow> pubkey \<Rightarrow> bool"
  for env base where
  absent: "base_view env base key = None \<Longrightarrow> chain_ends env base key"
| final: "base_view env base key = Some a \<Longrightarrow> has_programdata_account env a = None \<Longrightarrow>
    chain_ends env base key"
| link: "base_view env base key = Some a \<Longrightarrow> has_programdata_account env a = Some p \<Longrightarrow>
    chain_ends env base p \<Longrightarrow> chain_ends env base key"

inductive_cases chain_ends_cases: "chain_ends env base key"

lemma via_rpc_stable:
  assumes "stable env base"
  shows "load_account_via_rpc env key (rl, w) =
    (case base_view env base key of
       None \<Rightarrow> (None, rl, w)
     | Some a \<Rightarrow> (Some a, rl\<lparr>rl_account_cache := (rl_account_cache rl)(key \<mapsto> a)\<rparr>, w))"
  using assms by (auto simp: load_account_via_rpc_def stable_def base_view_def split: option.splits)

lemma base_view_SomeD: "base_view env base key = Some a \<Longrightarrow> \<not> ignored_account env key"
  by (auto simp: base_view_def split: if_splits)

lemma load_account_stable:
  assumes "stable env base" and "rl_enable rl"
  shows "load_account env key (rl, w) =
    (case base_view env base key of
       None \<Rightarrow> Some (None, rl, w)
     | Some a \<Rightarrow>
         (let s = (rl\<lparr>rl_account_cache := (rl_account_cache rl)(key \<mapsto> a)\<rparr>, w)
          in case has_programdata_account env a of
               None \<Rightarrow> Some (Some a, s)
             | Some p \<Rightarrow> Option.bind (load_account env p s) (\<lambda>(_, s'). Some (Some a, s'))))"
proof (cases "ignored_account env key")
  case True
  then show ?thesis by (subst load_account.simps) (simp add: base_view_def)
next
  case False
  then show ?thesis
    using assms(2)
    by (subst load_account.simps) (auto simp: via_rpc_stable [OF assms(1)] Let_def split: option.splits)
qed

lemma chain_ends_loads:
  assumes "chain_ends env base key" and "stable env base" and "rl_enable rl"
  shows "\<exists>r. load_account env key (rl, w) = Some r"
  using assms
proof (induction arbitrary: rl rule: chain_ends.induct)
  case (link key a p)
  then obtain r s' where "load_account env p (rl\<lparr>rl_account_cache := (rl_account_cache rl)(key \<mapsto> a)\<rparr>, w) = Some (r, s')"
    by fastforce
  with link show ?case by (simp add: load_account_stable [of env base rl key] Let_def)
next
  case (absent key)
  then show ?case by (simp add: load_account_stable [of env base rl key])
next
  case (final key a)
  then show ?case by (simp add: load_account_stable [of env base rl key] Let_def)
qed

lemma loads_chain_ends:
  assumes "load_account env key s = Some (r, t)" and "stable env base" and "rl_enable (fst s)"
  shows "chain_ends env base key"
  using assms
proof (induction rule: load_account_induct)
  case (skipped key s)
  then show ?case by (intro chain_ends.absent) (simp add: base_view_def)
next
  case (missing key s t)
  obtain rl w where s: "s = (rl, w)" by force
  show ?case
    by (rule chain_ends.absent) (use missing s in \<open>auto simp: via_rpc_stable split: option.splits\<close>)
next
  case (plain key s a t)
  obtain rl w where s: "s = (rl, w)" by force
  show ?case
    by (rule chain_ends.final [of _ _ _ a])
      (use plain s in \<open>auto simp: via_rpc_stable split: option.splits\<close>)
next
  case (program key s a s' p r' t)
  obtain rl w where s: "s = (rl, w)" by force
  have on: "rl_enable (fst s')" using via_rpc_enable [of env key s] program by simp
  show ?case
    by (rule chain_ends.link [of _ _ _ a p])
      (use program s on in \<open>auto simp: via_rpc_stable split: option.splits\<close>)
qed

text \<open>
  (C19) Loading an account of a stable base layer returns exactly when the chain of program data
  addresses that starts at the account ends; nothing else stops the recursion.
\<close>

theorem load_account_returns_iff:
  assumes "stable env base" and "rl_enable rl"
  shows "(\<exists>r. load_account env key (rl, w) = Some r) \<longleftrightarrow> chain_ends env base key"
  using chain_ends_loads [OF _ assms] loads_chain_ends [OF _ assms(1)] assms(2) by fastforce

text \<open>
  A world in which the account \<open>demo_key 1\<close> is a program whose data is at \<open>demo_key 2\<close>, and \<open>demo_key 3\<close>
  holds the bytes of a program that is its own program data.
\<close>

definition remote_demo_base :: "pubkey \<rightharpoonup> account" where
  "remote_demo_base =
     [demo_key 1 \<mapsto> account_create 5 [2, 2] bpf_loader_upgradeable_id True 0,
      demo_key 2 \<mapsto> account_create 6 [3] bpf_loader_upgradeable_id False 0,
      demo_key 3 \<mapsto> account_create 7 [2, 3] system_program_id False 0]"

definition demo_loader_state :: "upgradeable_loader_state codec" where
  "demo_loader_state =
     \<lparr>c_encode = (\<lambda>_. None),
      c_decode = (\<lambda>d. if length d = 2 \<and> d ! 0 = 2 then Some (ULS_Program (demo_key (unat (d ! 1)))) else None)\<rparr>"

definition remote_demo_env :: "unit remote_env" where
  "remote_demo_env =
     \<lparr>re_rpc = \<lparr>rpc_get_account = (\<lambda>key w. (remote_demo_base key, w)),
                rpc_get_latest_blockhash = (\<lambda>w. (None, w)), rpc_send_transaction = (\<lambda>_ w. (None, w))\<rparr>,
      re_show_key = (\<lambda>_. ''key''), re_load_config = (\<lambda>_. None), re_keypair = (\<lambda>_. None),
      re_loader_state = demo_loader_state,
      re_set_value = \<lparr>c_encode = (\<lambda>_. None), c_decode = (\<lambda>_. None)\<rparr>,
      re_set_locker = \<lparr>c_encode = (\<lambda>_. None), c_decode = (\<lambda>_. None)\<rparr>, re_sha256 = id\<rparr>"

definition remote_demo_loader :: remote_loader where
  "remote_demo_loader = remote_loader_new remote_demo_env ''hypergrid.yml''"

lemma demo_keys_distinct:
  "demo_key 1 \<noteq> demo_key 2" "demo_key 1 \<noteq> demo_key 3" "demo_key 2 \<noteq> demo_key 3"
  by (simp_all add: demo_key_def)

lemma remote_demo_stable: "stable remote_demo_env remote_demo_base" "rl_enable remote_demo_loader"
  by (simp_all add: stable_def remote_demo_env_def remote_demo_loader_def remote_loader_new_def)

lemma remote_demo_not_ignored: "\<not> ignored_account remote_demo_env key"
  by (simp add: ignored_account_def remote_demo_env_def contains_str_def)

lemmas remote_demo_eval = remote_demo_not_ignored has_programdata_account_def shared_deserialize_data_def
  remote_account_def shared_create_def account_create_def demo_loader_state_def ok_or_def

lemma remote_demo_view:
  "base_view remote_demo_env remote_demo_base (demo_key 1) =
     Some (remote_account (account_create 5 [2, 2] bpf_loader_upgradeable_id True 0))"
  "base_view remote_demo_env remote_demo_base (demo_key 2) =
     Some (remote_account (account_create 6 [3] bpf_loader_upgradeable_id False 0))"
  "base_view remote_demo_env remote_demo_base (demo_key 3) =
     Some (remote_account (account_create 7 [2, 3] system_program_id False 0))"
  using demo_keys_distinct by (simp_all add: base_view_def remote_demo_not_ignored remote_demo_base_def)

lemma remote_demo_programdata:
  "has_programdata_account remote_demo_env (remote_account (account_create 5 [2, 2] bpf_loader_upgradeable_id True 0)) =
     Some (demo_key 2)"
  "has_programdata_account remote_demo_env (remote_account (account_create 6 [3] bpf_loader_upgradeable_id False 0)) = None"
  "has_programdata_account remote_demo_env (remote_account (account_create 7 [2, 3] system_program_id False 0)) =
     Some (demo_key 3)"
  by (simp_all add: remote_demo_eval remote_demo_env_def)

theorem load_account_returns_iff_witness:
  "(\<exists>r. load_account remote_demo_env (demo_key 1) (remote_demo_loader, ()) = Some r) \<and>
   chain_ends remote_demo_env remote_demo_base (demo_key 1)"
proof -
  have "chain_ends remote_demo_env remote_demo_base (demo_key 2)"
    by (rule chain_ends.final [OF remote_demo_view(2) remote_demo_programdata(2)])
  then have "chain_ends remote_demo_env remote_demo_base (demo_key 1)"
    by (rule chain_ends.link [OF remote_demo_view(1) remote_demo_programdata(1)])
  then show ?thesis using load_account_returns_iff [OF remote_demo_stable] by blast
qed

text \<open>
  (C20) An account of the base layer can hang the loader: whoever owns it, an account that is not
  executable and whose data reads as a program that names the account itself as its program data is
  never loaded, because loading it does not return.
\<close>

theorem load_account_self_reference:
  assumes "stable env base" and "rl_enable rl" and "\<not> ignored_account env key"
    and "base key = Some a" and "\<not> acct_executable a"
    and "c_decode (re_loader_state env) (acct_data a) = Some (ULS_Program key)"
  shows "load_account env key (rl, w) = None"
proof -
  have view: "base_view env base key = Some (remote_account a)"
    using assms(3,4) by (simp add: base_view_def)
  have next_key: "has_programdata_account env (remote_account a) = Some key"
    using assms(5,6)
    by (simp add: has_programdata_account_def remote_account_def shared_create_def shared_deserialize_data_def ok_or_def)
  have "\<not> chain_ends env base k" if "k = key" for k
  proof
    assume "chain_ends env base k"
    then show False using that by induction (use view next_key in auto)
  qed
  then show ?thesis using loads_chain_ends [OF _ assms(1)] assms(2) by (metis fst_conv not_None_eq surj_pair)
qed

theorem load_account_self_reference_witness:
  "load_account remote_demo_env (demo_key 3) (remote_demo_loader, ()) = None"
proof (rule load_account_self_reference [OF remote_demo_stable remote_demo_not_ignored])
  show "remote_demo_base (demo_key 3) = Some (account_create 7 [2, 3] system_program_id False 0)"
    using demo_keys_distinct by (simp add: remote_demo_base_def)
qed (simp_all add: account_create_def remote_demo_env_def demo_loader_state_def)

section \<open>Coherence with the base layer\<close>

lemma load_account_coherence:
  assumes "load_account env key s = Some (r, t)" and "stable env base" and "rl_enable (fst s)"
  shows "r = base_view env base key \<and> snd t = snd s \<and> rl_enable (fst t) \<and>
    (\<forall>j. rl_account_cache (fst t) j = rl_account_cache (fst s) j \<or> rl_account_cache (fst t) j = base_view env base j) \<and>
    (\<forall>j. rl_account_cache (fst s) j = base_view env base j \<longrightarrow> rl_account_cache (fst t) j = base_view env base j) \<and>
    (r \<noteq> None \<longrightarrow> rl_account_cache (fst t) key = r)"
  using assms
proof (induction rule: load_account_induct)
  case (skipped key s)
  then show ?case by (simp add: base_view_def)
next
  case (missing key s t)
  obtain rl w where "s = (rl, w)" by force
  with missing show ?case by (auto simp: via_rpc_stable split: option.splits)
next
  case (plain key s a t)
  obtain rl w where "s = (rl, w)" by force
  with plain show ?case by (auto simp: via_rpc_stable split: option.splits)
next
  case (program key s a s' p r' t)
  obtain rl w where s: "s = (rl, w)" by force
  have view: "base_view env base key = Some a"
      and s': "s' = (rl\<lparr>rl_account_cache := (rl_account_cache rl)(key \<mapsto> a)\<rparr>, w)"
    using program s by (auto simp: via_rpc_stable split: option.splits)
  have on: "rl_enable (fst s')" using program(1) s s' by simp
  note IH = program.IH [OF program.prems(1) on]
  show ?case using IH view s s' by simp metis
qed

lemma load_account_programdata:
  assumes "load_account env key s = Some (Some a, t)" and "stable env base" and "rl_enable (fst s)"
    and "has_programdata_account env a = Some p" and "base_view env base p \<noteq> None"
  shows "rl_account_cache (fst t) p = base_view env base p"
  using assms(1)
proof (cases rule: load_account_cases)
  case (program a' s' p' r')
  then have "rl_enable (fst s')" using via_rpc_enable [of env key s] assms(3) by simp
  with load_account_coherence [OF program(4) assms(2)] program assms(4,5) show ?thesis by auto
qed (use assms(4) in auto)

text \<open>
  (C18) Loading is coherent with the base layer: what a call on a stable base layer returns is the
  account there, marked as remote; the cache then answers with it, and with the program data of a
  program; and every other entry is what it was or what the base layer has.
\<close>

theorem load_account_coherent:
  assumes "stable env base" and "rl_enable rl" and "load_account env key (rl, w) = Some (r, rl', w')"
  shows "r = base_view env base key \<and>
    (\<forall>a. r = Some a \<longrightarrow> acct_remote a \<and> rl_get_account env rl' key = Some a \<and>
       (\<forall>p. has_programdata_account env a = Some p \<longrightarrow> base_view env base p \<noteq> None \<longrightarrow>
          rl_get_account env rl' p = base_view env base p)) \<and>
    (\<forall>j. rl_get_account env rl' j = rl_get_account env rl j \<or> rl_get_account env rl' j = base_view env base j)"
proof -
  have co: "r = base_view env base key" "rl_enable rl'"
      "\<forall>j. rl_account_cache rl' j = rl_account_cache rl j \<or> rl_account_cache rl' j = base_view env base j"
      "r \<noteq> None \<longrightarrow> rl_account_cache rl' key = r"
    using load_account_coherence [OF assms(3,1)] assms(2) by auto
  have get_view: "rl_get_account env rl' j = base_view env base j" if "rl_account_cache rl' j = base_view env base j" for j
    using that co(2) by (simp add: rl_get_account_def base_view_def)
  have "\<forall>a p. r = Some a \<longrightarrow> has_programdata_account env a = Some p \<longrightarrow> base_view env base p \<noteq> None \<longrightarrow>
      rl_get_account env rl' p = base_view env base p"
    using load_account_programdata [OF _ assms(1)] assms(2,3) get_view by fastforce
  moreover have "acct_remote a" if "r = Some a" for a
    using that co(1) by (auto simp: base_view_def split: if_splits)
  moreover have "rl_get_account env rl' j = rl_get_account env rl j \<or> rl_get_account env rl' j = base_view env base j" for j
    using co(2,3) assms(2) get_view [of j] by (auto simp: rl_get_account_def)
  ultimately show ?thesis using co(1,4) get_view [of key] by auto
qed

lemma remote_demo_load:
  obtains rl where "load_account remote_demo_env (demo_key 1) (remote_demo_loader, ()) =
    Some (Some (remote_account (account_create 5 [2, 2] bpf_loader_upgradeable_id True 0)), rl, ())"
proof -
  have "chain_ends remote_demo_env remote_demo_base (demo_key 1)"
    by (rule chain_ends.link [OF remote_demo_view(1) remote_demo_programdata(1)
          chain_ends.final [OF remote_demo_view(2) remote_demo_programdata(2)]])
  then obtain r rl w where "load_account remote_demo_env (demo_key 1) (remote_demo_loader, ()) = Some (r, rl, w)"
    using chain_ends_loads [OF _ remote_demo_stable] by (metis prod.exhaust)
  with that load_account_coherence [OF this remote_demo_stable(1)] remote_demo_stable(2) remote_demo_view(1)
  show thesis by simp
qed

theorem load_account_coherent_witness:
  "\<exists>rl. load_account remote_demo_env (demo_key 1) (remote_demo_loader, ()) =
       Some (Some (remote_account (account_create 5 [2, 2] bpf_loader_upgradeable_id True 0)), rl, ()) \<and>
     rl_get_account remote_demo_env rl (demo_key 2) =
       Some (remote_account (account_create 6 [3] bpf_loader_upgradeable_id False 0))"
proof -
  obtain rl where run: "load_account remote_demo_env (demo_key 1) (remote_demo_loader, ()) =
      Some (Some (remote_account (account_create 5 [2, 2] bpf_loader_upgradeable_id True 0)), rl, ())"
    by (rule remote_demo_load)
  with load_account_coherent [OF remote_demo_stable run] remote_demo_programdata(1) remote_demo_view(2)
  show ?thesis by auto
qed

section \<open>Deactivation\<close>

lemma deactivate_get:
  "rl_get_account env (deactivate_account env key rl) j =
     (if j = key \<or> Option.bind (rl_get_account env rl key) (has_programdata_account env) = Some j
      then None else rl_get_account env rl j)"
  by (auto simp: deactivate_account_def rl_get_account_def Let_def split: option.splits)

lemma has_account_iff: "rl_has_account env rl key \<longleftrightarrow> rl_get_account env rl key \<noteq> None"
  by (simp add: rl_has_account_def rl_get_account_def)

text \<open>
  (C21) Deactivation undoes a load: after an account was loaded and then deactivated, neither the
  account nor its program data is in the cache, and every other account is found as before.
\<close>

theorem load_then_deactivate:
  assumes "stable env base" and "rl_enable rl" and "load_account env key (rl, w) = Some (Some a, rl', w')"
  shows "\<not> rl_has_account env (deactivate_account env key rl') key \<and>
    (\<forall>p. has_programdata_account env a = Some p \<longrightarrow> \<not> rl_has_account env (deactivate_account env key rl') p) \<and>
    (\<forall>j. j \<noteq> key \<and> has_programdata_account env a \<noteq> Some j \<longrightarrow>
       rl_get_account env (deactivate_account env key rl') j = rl_get_account env rl' j)"
proof -
  have "rl_get_account env rl' key = Some a"
    using load_account_coherence [OF assms(3,1)] assms(2) by (auto simp: rl_get_account_def base_view_def split: if_splits)
  then show ?thesis by (simp add: has_account_iff deactivate_get)
qed

theorem load_then_deactivate_witness:
  "\<exists>rl. load_account remote_demo_env (demo_key 1) (remote_demo_loader, ()) =
       Some (Some (remote_account (account_create 5 [2, 2] bpf_loader_upgradeable_id True 0)), rl, ()) \<and>
     \<not> rl_has_account remote_demo_env (deactivate_account remote_demo_env (demo_key 1) rl) (demo_key 2)"
proof -
  obtain rl where run: "load_account remote_demo_env (demo_key 1) (remote_demo_loader, ()) =
      Some (Some (remote_account (account_create 5 [2, 2] bpf_loader_upgradeable_id True 0)), rl, ())"
    by (rule remote_demo_load)
  with load_then_deactivate [OF remote_demo_stable run] remote_demo_programdata(1) show ?thesis by blast
qed

end
