(* ===== verification/Accounts_Cache.thy ===== *)
theory Accounts_Cache
  imports Remote_Properties "HOL-Library.AList"
begin

text \<open>
  The write cache of the accounts database (\<^verbatim>\<open>accounts-db/src/accounts_cache.rs\<close>): accounts by slot and
  key, with byte counters, root bookkeeping, and the fork's read-through to the base-layer loader.

  The concurrent maps are association lists with distinct keys, whose order stands for the order of
  iteration.  The atomic counters are words that wrap.  A slot cache that was removed lives on in its
  holder until it is dropped, which is an operation of its own; other threads do not insert into it any
  more.  The lazily computed hash of a cached
  account is left out, and so are the metrics.
\<close>

section \<open>Slot caches\<close>

record slot_cache =
  slc_cache :: "(pubkey \<times> account_shared_data) list"
  slc_same_account_writes :: u64
  slc_same_account_writes_size :: u64
  slc_unique_account_writes_size :: u64
  slc_size :: u64
  slc_is_frozen :: bool

definition slot_cache_new :: slot_cache where
  "slot_cache_new =
     \<lparr>slc_cache = [], slc_same_account_writes = 0, slc_same_account_writes_size = 0,
      slc_unique_account_writes_size = 0, slc_size = 0, slc_is_frozen = False\<rparr>"

definition data_len :: "account_shared_data \<Rightarrow> u64" where
  "data_len a = of_nat (length (acct_data a))"

text \<open>The slot cache and the total size that all slot caches share.\<close>

definition slot_cache_insert ::
    "pubkey \<Rightarrow> account_shared_data \<Rightarrow> slot_cache \<times> u64 \<Rightarrow> slot_cache \<times> u64" where
  "slot_cache_insert key account st =
     (let (sc, tot) = st;
          len = data_len account;
          sc1 = sc\<lparr>slc_cache := AList.update key account (slc_cache sc)\<rparr>
      in case map_of (slc_cache sc) key of
           Some old \<Rightarrow>
             (let sc2 = sc1\<lparr>slc_same_account_writes := slc_same_account_writes sc1 + 1,
                            slc_same_account_writes_size := slc_same_account_writes_size sc1 + len\<rparr>;
                  old_len = data_len old;
                  grow = saturating_sub len old_len;
                  shrink = saturating_sub old_len len
              in if 0 < grow then (sc2\<lparr>slc_size := slc_size sc2 + grow\<rparr>, tot + grow)
                 else if 0 < shrink then (sc2\<lparr>slc_size := slc_size sc2 - shrink\<rparr>, tot - shrink)
                 else (sc2, tot))
         | None \<Rightarrow>
             (sc1\<lparr>slc_size := slc_size sc1 + len,
                  slc_unique_account_writes_size := slc_unique_account_writes_size sc1 + len\<rparr>, tot + len))"

definition slot_get_cloned :: "pubkey \<Rightarrow> slot_cache \<Rightarrow> account_shared_data option" where
  "slot_get_cloned key sc = map_of (slc_cache sc) key"

definition slot_get_all_pubkeys :: "slot_cache \<Rightarrow> pubkey list" where
  "slot_get_all_pubkeys sc = map fst (slc_cache sc)"

definition slot_mark_frozen :: "slot_cache \<Rightarrow> slot_cache" where
  "slot_mark_frozen sc = sc\<lparr>slc_is_frozen := True\<rparr>"

definition slot_total_bytes :: "slot_cache \<Rightarrow> u64" where
  "slot_total_bytes sc = slc_unique_account_writes_size sc + slc_same_account_writes_size sc"

section \<open>The accounts cache\<close>

record accounts_cache =
  ac_cache :: "(u64 \<times> slot_cache) list"
  ac_maybe_unflushed_roots :: "u64 set"
  ac_max_flushed_root :: u64
  ac_total_size :: u64
  ac_remote_loader :: remote_loader

definition accounts_cache_new :: "remote_loader \<Rightarrow> accounts_cache" where
  "accounts_cache_new rl =
     \<lparr>ac_cache = [], ac_maybe_unflushed_roots = {}, ac_max_flushed_root = 0, ac_total_size = 0,
      ac_remote_loader = rl\<rparr>"

definition ac_slot_cache :: "u64 \<Rightarrow> accounts_cache \<Rightarrow> slot_cache option" where
  "ac_slot_cache slot ac = map_of (ac_cache ac) slot"

definition ac_store :: "u64 \<Rightarrow> pubkey \<Rightarrow> account_shared_data \<Rightarrow> accounts_cache \<Rightarrow> accounts_cache" where
  "ac_store slot key account ac =
     (let sc = (case ac_slot_cache slot ac of Some sc \<Rightarrow> sc | None \<Rightarrow> slot_cache_new);
          (sc', tot) = slot_cache_insert key account (sc, ac_total_size ac)
      in ac\<lparr>ac_cache := AList.update slot sc' (ac_cache ac), ac_total_size := tot\<rparr>)"

definition ac_cached :: "u64 \<Rightarrow> pubkey \<Rightarrow> accounts_cache \<Rightarrow> account_shared_data option" where
  "ac_cached slot key ac = Option.bind (ac_slot_cache slot ac) (slot_get_cloned key)"

text \<open>\<^verbatim>\<open>load\<close>, with the lookup of the loader as an argument and with the loader of the cache.\<close>

definition ac_load_with ::
    "(pubkey \<Rightarrow> account_shared_data option) \<Rightarrow> u64 \<Rightarrow> pubkey \<Rightarrow> accounts_cache \<Rightarrow>
     account_shared_data option \<times> accounts_cache" where
  "ac_load_with fetch slot key ac =
     (case ac_cached slot key ac of
        Some account \<Rightarrow> (Some account, ac)
      | None \<Rightarrow>
          (case fetch key of
             Some account \<Rightarrow> (Some account, ac_store slot key account ac)
           | None \<Rightarrow> (None, ac)))"

definition ac_load ::
    "'w remote_env \<Rightarrow> u64 \<Rightarrow> pubkey \<Rightarrow> accounts_cache \<Rightarrow> account_shared_data option \<times> accounts_cache" where
  "ac_load env slot key ac = ac_load_with (rl_get_account env (ac_remote_loader ac)) slot key ac"

definition has_account_from_remote :: "'w remote_env \<Rightarrow> pubkey \<Rightarrow> accounts_cache \<Rightarrow> bool" where
  "has_account_from_remote env key ac = rl_has_account env (ac_remote_loader ac) key"

fun load_all :: "'w remote_env \<Rightarrow> pubkey list \<Rightarrow> 'w loader_state \<Rightarrow> 'w loader_state option" where
  "load_all env [] s = Some s"
| "load_all env (key # keys) s =
     Option.bind (load_account env key s) (\<lambda>(_, s'). load_all env keys s')"

definition load_accounts_from_remote ::
    "'w remote_env \<Rightarrow> pubkey list \<Rightarrow> accounts_cache \<times> 'w \<Rightarrow> (accounts_cache \<times> 'w) option" where
  "load_accounts_from_remote env keys st =
     map_option (\<lambda>(rl, w). ((fst st)\<lparr>ac_remote_loader := rl\<rparr>, w))
       (load_all env keys (ac_remote_loader (fst st), snd st))"

definition deactivate_remote_accounts :: "'w remote_env \<Rightarrow> pubkey list \<Rightarrow> accounts_cache \<Rightarrow> accounts_cache" where
  "deactivate_remote_accounts env keys ac =
     ac\<lparr>ac_remote_loader := fold (deactivate_account env) keys (ac_remote_loader ac)\<rparr>"

section \<open>Slots and roots\<close>

definition ac_remove_slot :: "u64 \<Rightarrow> accounts_cache \<Rightarrow> slot_cache option \<times> accounts_cache" where
  "ac_remove_slot slot ac =
     (ac_slot_cache slot ac, ac\<lparr>ac_cache := AList.delete slot (ac_cache ac)\<rparr>)"

text \<open>The last holder of a removed slot cache lets go of it.\<close>

definition slot_cache_drop :: "slot_cache \<Rightarrow> accounts_cache \<Rightarrow> accounts_cache" where
  "slot_cache_drop sc ac = ac\<lparr>ac_total_size := ac_total_size ac - slc_size sc\<rparr>"

definition ac_mark_slot_frozen :: "u64 \<Rightarrow> accounts_cache \<Rightarrow> accounts_cache" where
  "ac_mark_slot_frozen slot ac =
     (case ac_slot_cache slot ac of
        None \<Rightarrow> ac
      | Some sc \<Rightarrow> ac\<lparr>ac_cache := AList.update slot (slot_mark_frozen sc) (ac_cache ac)\<rparr>)"

definition ac_add_root :: "u64 \<Rightarrow> accounts_cache \<Rightarrow> accounts_cache" where
  "ac_add_root root ac =
     (if ac_max_flushed_root ac < root \<or> root = ac_max_flushed_root ac \<and> root = 0
      then ac\<lparr>ac_maybe_unflushed_roots := insert root (ac_maybe_unflushed_roots ac)\<rparr>
      else ac)"

text \<open>\<^verbatim>\<open>split_off\<close> at \<^verbatim>\<open>max_root + 1\<close>, an addition that wraps in a release build.\<close>

definition ac_clear_roots :: "u64 option \<Rightarrow> accounts_cache \<Rightarrow> u64 set \<times> accounts_cache" where
  "ac_clear_roots max_root ac =
     (case max_root of
        None \<Rightarrow> (ac_maybe_unflushed_roots ac, ac\<lparr>ac_maybe_unflushed_roots := {}\<rparr>)
      | Some m \<Rightarrow>
          (let greater = {r \<in> ac_maybe_unflushed_roots ac. m + 1 \<le> r}
           in (ac_maybe_unflushed_roots ac - greater, ac\<lparr>ac_maybe_unflushed_roots := greater\<rparr>)))"

definition ac_contains_any_slots :: "u64 \<Rightarrow> accounts_cache \<Rightarrow> bool" where
  "ac_contains_any_slots max_slot_inclusive ac = list_ex (\<lambda>e. fst e \<le> max_slot_inclusive) (ac_cache ac)"

definition ac_remove_slots_le :: "u64 \<Rightarrow> accounts_cache \<Rightarrow> (u64 \<times> slot_cache) list \<times> accounts_cache" where
  "ac_remove_slots_le max_root ac =
     (filter (\<lambda>e. fst e \<le> max_root) (ac_cache ac),
      ac\<lparr>ac_cache := filter (\<lambda>e. \<not> fst e \<le> max_root) (ac_cache ac)\<rparr>)"

definition ac_cached_frozen_slots :: "accounts_cache \<Rightarrow> u64 list" where
  "ac_cached_frozen_slots ac = sort (map fst (filter (\<lambda>e. slc_is_frozen (snd e)) (ac_cache ac)))"

definition ac_contains :: "u64 \<Rightarrow> accounts_cache \<Rightarrow> bool" where
  "ac_contains slot ac \<longleftrightarrow> ac_slot_cache slot ac \<noteq> None"

definition ac_num_slots :: "accounts_cache \<Rightarrow> nat" where
  "ac_num_slots ac = length (ac_cache ac)"

definition ac_set_max_flush_root :: "u64 \<Rightarrow> accounts_cache \<Rightarrow> accounts_cache" where
  "ac_set_max_flush_root root ac = ac\<lparr>ac_max_flushed_root := max (ac_max_flushed_root ac) root\<rparr>"

definition ac_unique_account_writes_size :: "accounts_cache \<Rightarrow> u64" where
  "ac_unique_account_writes_size ac = sum_list (map (slc_unique_account_writes_size \<circ> snd) (ac_cache ac))"

end
