(* ===== verification/Cache_Properties.thy ===== *)
theory Cache_Properties
  imports Accounts_Cache
begin

text \<open>
  Properties of the accounts cache: its size counters are exact whatever operations run, it
  implements a map from slots and keys to accounts, and its read-through follows the interface
  \<open>account_source\<close>, which the base-layer loader implements.
\<close>

section \<open>Byte counters\<close>

definition slot_bytes :: "slot_cache \<Rightarrow> u64" where
  "slot_bytes sc = (\<Sum>e \<leftarrow> slc_cache sc. data_len (snd e))"

definition slot_ok :: "slot_cache \<Rightarrow> bool" where
  "slot_ok sc \<longleftrightarrow> distinct (map fst (slc_cache sc)) \<and> slc_size sc = slot_bytes sc"

definition cached_size :: "(u64 \<times> slot_cache) list \<Rightarrow> u64" where
  "cached_size m = (\<Sum>e \<leftarrow> m. slc_size (snd e))"

text \<open>\<open>held\<close> are the slot caches that were removed and not dropped yet.\<close>

definition cache_ok :: "accounts_cache \<Rightarrow> slot_cache list \<Rightarrow> bool" where
  "cache_ok ac held \<longleftrightarrow>
     distinct (map fst (ac_cache ac)) \<and> (\<forall>e \<in> set (ac_cache ac). slot_ok (snd e)) \<and> (\<forall>sc \<in> set held. slot_ok sc) \<and>
     ac_total_size ac = cached_size (ac_cache ac) + sum_list (map slc_size held)"

lemma sum_list_update:
  fixes f :: "'v \<Rightarrow> 'n::ab_group_add"
  assumes "distinct (map fst m)"
  shows "(\<Sum>e \<leftarrow> AList.update k v m. f (snd e)) =
    (case map_of m k of
       None \<Rightarrow> (\<Sum>e \<leftarrow> m. f (snd e)) + f v
     | Some old \<Rightarrow> (\<Sum>e \<leftarrow> m. f (snd e)) - f old + f v)"
  using assms
proof (induction m)
  case (Cons e m)
  obtain k' v' where "e = (k', v')" by force
  with Cons show ?case by (auto split: option.splits)
qed simp

lemma sum_list_delete:
  fixes f :: "'v \<Rightarrow> 'n::ab_group_add"
  assumes "distinct (map fst m)"
  shows "(\<Sum>e \<leftarrow> AList.delete k m. f (snd e)) =
    (case map_of m k of
       None \<Rightarrow> (\<Sum>e \<leftarrow> m. f (snd e))
     | Some old \<Rightarrow> (\<Sum>e \<leftarrow> m. f (snd e)) - f old)"
  using assms
proof (induction m)
  case (Cons e m)
  obtain k' v' where e: "e = (k', v')" by force
  have "map_of m k' = None" using Cons.prems e by (simp add: map_of_eq_None_iff)
  with Cons e show ?case by (auto split: option.splits)
qed simp

lemma sum_list_partition:
  fixes f :: "'v \<Rightarrow> 'n::ab_group_add"
  shows "(\<Sum>e \<leftarrow> m. f (snd e)) =
    (\<Sum>e \<leftarrow> filter P m. f (snd e)) + (\<Sum>e \<leftarrow> filter (\<lambda>e. \<not> P e) m. f (snd e))"
  by (induction m) (simp_all add: algebra_simps)

lemma saturating_sub_exact: "b \<le> a \<Longrightarrow> saturating_sub a b = a - b" "\<not> b \<le> a \<Longrightarrow> saturating_sub a b = 0"
  for a b :: u64
  by (simp_all add: saturating_sub_def)

text \<open>An insertion changes the size by the difference of the two lengths, in both counters.\<close>

lemma slot_cache_insert_effect:
  assumes "slot_cache_insert key account (sc, tot) = (sc', tot')"
  shows "slc_cache sc' = AList.update key account (slc_cache sc) \<and> slc_is_frozen sc' = slc_is_frozen sc \<and>
    (\<exists>\<delta>. slc_size sc' = slc_size sc + \<delta> \<and> tot' = tot + \<delta> \<and>
       \<delta> = data_len account - (case map_of (slc_cache sc) key of None \<Rightarrow> 0 | Some old \<Rightarrow> data_len old))"
proof (cases "map_of (slc_cache sc) key")
  case None
  with assms show ?thesis by (auto simp: slot_cache_insert_def Let_def)
next
  case (Some old)
  consider "data_len old < data_len account" | "data_len account < data_len old" | "data_len account = data_len old"
    by fastforce
  then show ?thesis
  proof cases
    case 1
    then have "saturating_sub (data_len account) (data_len old) = data_len account - data_len old" "data_len account - data_len old > 0"
      by (simp_all add: saturating_sub_exact word_greater_zero_iff)
    with assms Some show ?thesis by (auto simp: slot_cache_insert_def Let_def)
  next
    case 2
    then have "saturating_sub (data_len account) (data_len old) = 0"
        "saturating_sub (data_len old) (data_len account) = data_len old - data_len account" "data_len old - data_len account > 0"
      by (simp_all add: saturating_sub_exact word_greater_zero_iff)
    with assms Some show ?thesis by (auto simp: slot_cache_insert_def Let_def)
  next
    case 3
    then have "saturating_sub (data_len account) (data_len old) = 0" "saturating_sub (data_len old) (data_len account) = 0"
      by (simp_all add: saturating_sub_exact)
    with assms Some 3 show ?thesis by (auto simp: slot_cache_insert_def Let_def)
  qed
qed


lemma slot_ok_new: "slot_ok slot_cache_new"
  by (simp add: slot_ok_def slot_bytes_def slot_cache_new_def)

lemma slot_cache_insert_ok:
  assumes "slot_cache_insert key account (sc, tot) = (sc', tot')" and "slot_ok sc"
  shows "slot_ok sc' \<and> slc_size sc' - slc_size sc = tot' - tot"
proof -
  note e = slot_cache_insert_effect [OF assms(1)]
  have d: "distinct (map fst (slc_cache sc))" and "slc_size sc = slot_bytes sc"
    using assms(2) by (auto simp: slot_ok_def)
  moreover have "slot_bytes sc' = slot_bytes sc +
      (data_len account - (case map_of (slc_cache sc) key of None \<Rightarrow> 0 | Some old \<Rightarrow> data_len old))"
    using e sum_list_update [OF d, of data_len key account] by (simp add: slot_bytes_def split: option.splits)
  ultimately show ?thesis using e by (auto simp: slot_ok_def distinct_update)
qed

lemma cached_size_update:
  "distinct (map fst m) \<Longrightarrow> cached_size (AList.update slot sc m) =
     cached_size m - (case map_of m slot of None \<Rightarrow> 0 | Some old \<Rightarrow> slc_size old) + slc_size sc"
  using sum_list_update [of m slc_size slot sc] by (simp add: cached_size_def split: option.splits)

lemma set_update_subset: "set (AList.update k v m) \<subseteq> insert (k, v) (set m)"
proof (induction m)
  case (Cons e m)
  obtain k' v' where "e = (k', v')" by force
  with Cons show ?case by auto
qed simp

lemma cache_ok_slot: "cache_ok ac held \<Longrightarrow> ac_slot_cache slot ac = Some sc \<Longrightarrow> slot_ok sc"
  by (force simp: cache_ok_def ac_slot_cache_def dest: map_of_SomeD)

lemma ac_store_ok:
  assumes "cache_ok ac held"
  shows "cache_ok (ac_store slot key account ac) held"
proof -
  define sc where "sc = (case ac_slot_cache slot ac of Some sc \<Rightarrow> sc | None \<Rightarrow> slot_cache_new)"
  obtain sc' tot where ins: "slot_cache_insert key account (sc, ac_total_size ac) = (sc', tot)" by force
  have sc: "slot_ok sc" using cache_ok_slot [OF assms] slot_ok_new by (auto simp: sc_def split: option.splits)
  have size0: "(case map_of (ac_cache ac) slot of None \<Rightarrow> 0 | Some old \<Rightarrow> slc_size old) = slc_size sc"
    by (simp add: sc_def ac_slot_cache_def slot_cache_new_def split: option.splits)
  note ok = slot_cache_insert_ok [OF ins sc]
  have d: "distinct (map fst (ac_cache ac))" using assms by (simp add: cache_ok_def)
  have store: "ac_store slot key account ac = ac\<lparr>ac_cache := AList.update slot sc' (ac_cache ac), ac_total_size := tot\<rparr>"
    using ins by (simp add: ac_store_def sc_def Let_def)
  have "cached_size (AList.update slot sc' (ac_cache ac)) = cached_size (ac_cache ac) + (tot - ac_total_size ac)"
    using cached_size_update [OF d, of slot sc'] size0 ok by (metis add_diff_eq diff_add_eq)
  moreover have "\<forall>e \<in> set (AList.update slot sc' (ac_cache ac)). slot_ok (snd e)"
    using set_update_subset [of slot sc' "ac_cache ac"] ok assms by (auto simp: cache_ok_def)
  ultimately show ?thesis
    using assms d by (auto simp: store cache_ok_def distinct_update)
qed

lemma ac_load_with_ok: "cache_ok ac held \<Longrightarrow> cache_ok (snd (ac_load_with fetch slot key ac)) held"
  by (auto simp: ac_load_with_def ac_store_ok split: option.splits)

lemma ac_remove_slot_ok:
  assumes "cache_ok ac held" and "ac_remove_slot slot ac = (removed, ac')"
  shows "cache_ok ac' (case removed of None \<Rightarrow> held | Some sc \<Rightarrow> sc # held)"
proof -
  have d: "distinct (map fst (ac_cache ac))" using assms by (simp add: cache_ok_def)
  have sub: "set (AList.delete slot (ac_cache ac)) \<subseteq> set (ac_cache ac)"
    by (auto simp: AList.delete_eq)
  show ?thesis
    using assms sub sum_list_delete [OF d, of slc_size slot] cache_ok_slot [OF assms(1), of slot]
    by (auto simp: ac_remove_slot_def cache_ok_def distinct_delete cached_size_def ac_slot_cache_def split: option.splits)
qed

lemma ac_remove_slots_le_ok:
  assumes "cache_ok ac held" and "ac_remove_slots_le max_root ac = (removed, ac')"
  shows "cache_ok ac' (map snd removed @ held)"
proof -
  have "distinct (map fst (filter P (ac_cache ac)))" for P
    using assms(1) distinct_map_filter by (auto simp: cache_ok_def)
  moreover have "cached_size (ac_cache ac) =
      cached_size (filter (\<lambda>e. fst e \<le> max_root) (ac_cache ac)) + cached_size (filter (\<lambda>e. \<not> fst e \<le> max_root) (ac_cache ac))"
    unfolding cached_size_def by (rule sum_list_partition)
  ultimately show ?thesis
    using assms by (auto simp: ac_remove_slots_le_def cache_ok_def cached_size_def comp_def)
qed

lemma slot_cache_drop_ok:
  "cache_ok ac (held1 @ sc # held2) \<Longrightarrow> cache_ok (slot_cache_drop sc ac) (held1 @ held2)"
  by (auto simp: cache_ok_def slot_cache_drop_def algebra_simps)

lemma ac_mark_slot_frozen_ok:
  assumes "cache_ok ac held"
  shows "cache_ok (ac_mark_slot_frozen slot ac) held"
proof (cases "ac_slot_cache slot ac")
  case None
  with assms show ?thesis by (simp add: ac_mark_slot_frozen_def)
next
  case (Some sc)
  have "slot_ok (slot_mark_frozen sc)"
    using cache_ok_slot [OF assms Some] by (simp add: slot_ok_def slot_bytes_def slot_mark_frozen_def)
  moreover have d: "distinct (map fst (ac_cache ac))" using assms by (simp add: cache_ok_def)
  moreover have "cached_size (AList.update slot (slot_mark_frozen sc) (ac_cache ac)) = cached_size (ac_cache ac)"
    using Some by (simp add: cached_size_update [OF d] ac_slot_cache_def slot_mark_frozen_def)
  ultimately show ?thesis
    using assms Some set_update_subset [of slot "slot_mark_frozen sc" "ac_cache ac"]
    by (auto simp: ac_mark_slot_frozen_def cache_ok_def distinct_update)
qed


section \<open>Sources of accounts\<close>

text \<open>
  What the cache relies on in the loader behind it: a lookup, a test, the removal of a key, and an
  invariant under which every account it hands out is marked as remote.
\<close>

locale account_source =
  fixes fetch :: "'s \<Rightarrow> pubkey \<Rightarrow> account_shared_data option"
    and present :: "'s \<Rightarrow> pubkey \<Rightarrow> bool"
    and forget :: "pubkey \<Rightarrow> 's \<Rightarrow> 's"
    and good :: "'s \<Rightarrow> bool"
  assumes present_iff: "present s key \<longleftrightarrow> fetch s key \<noteq> None"
    and fetch_forget_same: "fetch (forget key s) key = None"
    and fetch_forget_other: "fetch (forget key s) j = None \<or> fetch (forget key s) j = fetch s j"
    and fetch_remote: "good s \<Longrightarrow> fetch s key = Some a \<Longrightarrow> acct_remote a"
    and good_forget: "good s \<Longrightarrow> good (forget key s)"
begin

lemma fetch_forget_all: "fetch (fold forget keys s) j = None \<or> fetch (fold forget keys s) j = fetch s j"
proof (induction keys arbitrary: s)
  case (Cons key keys)
  show ?case using Cons.IH [of "forget key s"] fetch_forget_other [of key s j] by auto
qed simp

lemma forget_all_absent: "key \<in> set keys \<Longrightarrow> \<not> present (fold forget keys s) key"
proof (induction keys arbitrary: s)
  case (Cons k keys)
  show ?case
  proof (cases "key \<in> set keys")
    case False
    then have "fetch (fold forget (k # keys) s) key = None"
      using Cons.prems fetch_forget_all [of keys "forget k s" key] fetch_forget_same by auto
    then show ?thesis by (simp add: present_iff)
  qed (use Cons in simp)
qed simp

lemma good_forget_all: "good s \<Longrightarrow> good (fold forget keys s)"
  by (induction keys arbitrary: s) (simp_all add: good_forget)

lemma read_through:
  "fst (ac_load_with (fetch s) slot key ac) =
     (case ac_cached slot key ac of Some a \<Rightarrow> Some a | None \<Rightarrow> fetch s key)"
  by (simp add: ac_load_with_def split: option.splits)

end

interpretation loader: account_source "rl_get_account env" "rl_has_account env" "deactivate_account env" "loader_ok env"
  for env
proof
  show "rl_get_account env (deactivate_account env key s) j = None \<or>
      rl_get_account env (deactivate_account env key s) j = rl_get_account env s j" for key s j
    by (simp add: deactivate_get)
  show "loader_ok env s \<Longrightarrow> rl_get_account env s key = Some a \<Longrightarrow> acct_remote a" for s key a
    by (auto simp: loader_ok_def rl_get_account_def split: if_splits)
qed (simp_all add: has_account_iff deactivate_get deactivate_ok)

section \<open>A map of slots and keys\<close>

definition cache_view :: "accounts_cache \<Rightarrow> u64 \<times> pubkey \<rightharpoonup> account_shared_data" where
  "cache_view ac = (\<lambda>(slot, key). ac_cached slot key ac)"

lemma map_of_filter_key: "map_of (filter (\<lambda>e. P (fst e)) m) k = (if P k then map_of m k else None)"
  by (induction m) auto

lemma cached_store:
  "ac_cached slot' key' (ac_store slot key a ac) =
     (if slot' = slot \<and> key' = key then Some a else ac_cached slot' key' ac)"
proof -
  define sc where "sc = (case ac_slot_cache slot ac of Some sc \<Rightarrow> sc | None \<Rightarrow> slot_cache_new)"
  obtain sc' tot where ins: "slot_cache_insert key a (sc, ac_total_size ac) = (sc', tot)" by force
  have "map_of (slc_cache sc) key' = ac_cached slot key' ac"
    by (simp add: sc_def ac_cached_def slot_get_cloned_def slot_cache_new_def split: option.splits)
  moreover have "ac_store slot key a ac = ac\<lparr>ac_cache := AList.update slot sc' (ac_cache ac), ac_total_size := tot\<rparr>"
    using ins by (simp add: ac_store_def sc_def Let_def)
  ultimately show ?thesis
    using slot_cache_insert_effect [OF ins]
    by (simp add: ac_cached_def ac_slot_cache_def slot_get_cloned_def update_conv)
qed

lemma total_store:
  "ac_total_size (ac_store slot key a ac) =
     ac_total_size ac + (data_len a - (case ac_cached slot key ac of None \<Rightarrow> 0 | Some old \<Rightarrow> data_len old))"
proof -
  define sc where "sc = (case ac_slot_cache slot ac of Some sc \<Rightarrow> sc | None \<Rightarrow> slot_cache_new)"
  obtain sc' tot where ins: "slot_cache_insert key a (sc, ac_total_size ac) = (sc', tot)" by force
  have "map_of (slc_cache sc) key = ac_cached slot key ac"
    by (simp add: sc_def ac_cached_def slot_get_cloned_def slot_cache_new_def split: option.splits)
  moreover have "ac_total_size (ac_store slot key a ac) = tot"
    using ins by (simp add: ac_store_def sc_def Let_def)
  ultimately show ?thesis using slot_cache_insert_effect [OF ins] by simp
qed

text \<open>
  (C22) The accounts cache implements a map from slots and keys to accounts: storing updates the map at
  one point, removing a slot or all slots up to a root removes exactly their entries, freezing and
  root bookkeeping change nothing, and loading is a lookup that falls back to the base-layer loader
  and remembers its answer.
\<close>

theorem accounts_cache_refines:
  "cache_view (ac_store slot key a ac) = (cache_view ac)((slot, key) \<mapsto> a) \<and>
   cache_view (snd (ac_remove_slot slot ac)) = cache_view ac |` {(s, k). s \<noteq> slot} \<and>
   cache_view (snd (ac_remove_slots_le root ac)) = cache_view ac |` {(s, k). root < s} \<and>
   cache_view (ac_mark_slot_frozen slot ac) = cache_view ac \<and>
   cache_view (ac_add_root slot ac) = cache_view ac \<and>
   cache_view (snd (ac_clear_roots max_root ac)) = cache_view ac \<and>
   ac_load env slot key ac =
     (case cache_view ac (slot, key) of
        Some b \<Rightarrow> (Some b, ac)
      | None \<Rightarrow> (case rl_get_account env (ac_remote_loader ac) key of
                  None \<Rightarrow> (None, ac) | Some b \<Rightarrow> (Some b, ac_store slot key b ac)))"
proof (intro conjI)
  show "cache_view (ac_store slot key a ac) = (cache_view ac)((slot, key) \<mapsto> a)"
    by (auto simp: cache_view_def cached_store fun_eq_iff)
  show "cache_view (snd (ac_remove_slot slot ac)) = cache_view ac |` {(s, k). s \<noteq> slot}"
    by (auto simp: cache_view_def ac_remove_slot_def ac_cached_def ac_slot_cache_def delete_conv restrict_map_def fun_eq_iff)
  show "cache_view (snd (ac_remove_slots_le root ac)) = cache_view ac |` {(s, k). root < s}"
    by (auto simp: cache_view_def ac_remove_slots_le_def ac_cached_def ac_slot_cache_def restrict_map_def fun_eq_iff
        map_of_filter_key [of "\<lambda>s. root < s"] linorder_not_le)
  show "cache_view (ac_mark_slot_frozen slot ac) = cache_view ac"
    by (auto simp: cache_view_def ac_mark_slot_frozen_def ac_cached_def ac_slot_cache_def update_conv
        slot_get_cloned_def slot_mark_frozen_def fun_eq_iff split: option.splits)
  show "cache_view (ac_add_root slot ac) = cache_view ac" "cache_view (snd (ac_clear_roots max_root ac)) = cache_view ac"
    by (simp_all add: cache_view_def ac_add_root_def ac_clear_roots_def ac_cached_def ac_slot_cache_def Let_def split: option.splits)
  show "ac_load env slot key ac =
     (case cache_view ac (slot, key) of
        Some b \<Rightarrow> (Some b, ac)
      | None \<Rightarrow> (case rl_get_account env (ac_remote_loader ac) key of
                  None \<Rightarrow> (None, ac) | Some b \<Rightarrow> (Some b, ac_store slot key b ac)))"
    by (simp add: ac_load_def ac_load_with_def cache_view_def split: option.splits)
qed

section \<open>Reachable caches\<close>

inductive cache_step ::
    "'w remote_env \<Rightarrow> accounts_cache \<times> slot_cache list \<Rightarrow> accounts_cache \<times> slot_cache list \<Rightarrow> bool"
  for env where
  store: "cache_step env (ac, held) (ac_store slot key a ac, held)"
| load: "cache_step env (ac, held) (snd (ac_load env slot key ac), held)"
| freeze: "cache_step env (ac, held) (ac_mark_slot_frozen slot ac, held)"
| remove: "ac_remove_slot slot ac = (removed, ac') \<Longrightarrow>
    cache_step env (ac, held) (ac', case removed of None \<Rightarrow> held | Some sc \<Rightarrow> sc # held)"
| remove_le: "ac_remove_slots_le root ac = (removed, ac') \<Longrightarrow>
    cache_step env (ac, held) (ac', map snd removed @ held)"
| drop: "cache_step env (ac, held1 @ sc # held2) (slot_cache_drop sc ac, held1 @ held2)"
| add_root: "cache_step env (ac, held) (ac_add_root root ac, held)"
| clear_roots: "cache_step env (ac, held) (snd (ac_clear_roots max_root ac), held)"
| set_max_flush_root: "cache_step env (ac, held) (ac_set_max_flush_root root ac, held)"
| load_remote: "load_accounts_from_remote env keys (ac, w) = Some (ac', w') \<Longrightarrow> cache_step env (ac, held) (ac', held)"
| deactivate: "cache_step env (ac, held) (deactivate_remote_accounts env keys ac, held)"

definition cache_reachable :: "'w remote_env \<Rightarrow> accounts_cache \<times> slot_cache list \<Rightarrow> bool" where
  "cache_reachable env st \<longleftrightarrow>
     (\<exists>path. (cache_step env)\<^sup>*\<^sup>* (accounts_cache_new (remote_loader_new env path), []) st)"

lemma cache_ok_frame:
  "ac_cache ac' = ac_cache ac \<Longrightarrow> ac_total_size ac' = ac_total_size ac \<Longrightarrow> cache_ok ac held \<Longrightarrow> cache_ok ac' held"
  by (simp add: cache_ok_def)

lemma load_all_ok: "load_all env keys s = Some t \<Longrightarrow> loader_ok env (fst s) \<Longrightarrow> loader_ok env (fst t)"
proof (induction keys arbitrary: s)
  case (Cons key keys)
  then obtain r s' where "load_account env key s = Some (r, s')" "load_all env keys s' = Some t"
    by (auto simp: bind_eq_Some_conv)
  with Cons show ?case using load_account_ok by blast
qed simp

lemma cache_step_keeps:
  assumes "cache_step env st st'" and "cache_ok (fst st) (snd st)" and "loader_ok env (ac_remote_loader (fst st))"
  shows "cache_ok (fst st') (snd st') \<and> loader_ok env (ac_remote_loader (fst st'))"
  using assms
proof cases
  case (load_remote keys ac w ac' w' held)
  then obtain rl where "load_all env keys (ac_remote_loader ac, w) = Some (rl, w')" "ac' = ac\<lparr>ac_remote_loader := rl\<rparr>"
    by (auto simp: load_accounts_from_remote_def)
  with load_remote assms load_all_ok [of env keys] cache_ok_frame [of ac' ac held] show ?thesis by fastforce
next
  case (store ac held slot key a)
  with assms ac_store_ok show ?thesis by (auto simp: ac_store_def Let_def split: prod.splits)
next
  case (load ac held slot key)
  have "ac_remote_loader (snd (ac_load_with fetch slot key ac)) = ac_remote_loader ac" for fetch
    by (auto simp: ac_load_with_def ac_store_def Let_def split: option.splits prod.splits)
  with load assms ac_load_with_ok show ?thesis by (auto simp: ac_load_def)
next
  case (remove slot ac removed ac' held)
  with assms ac_remove_slot_ok [OF _ remove(3), of held] show ?thesis by (auto simp: ac_remove_slot_def)
next
  case (remove_le root ac removed ac' held)
  with assms ac_remove_slots_le_ok [OF _ remove_le(3), of held] show ?thesis by (auto simp: ac_remove_slots_le_def)
next
  case (clear_roots ac held max_root)
  with assms cache_ok_frame [of "fst st'" ac held] show ?thesis
    by (auto simp: ac_clear_roots_def Let_def split: option.splits)
next
  case (freeze ac held slot)
  with assms ac_mark_slot_frozen_ok show ?thesis by (auto simp: ac_mark_slot_frozen_def split: option.splits)
next
  case (drop ac held1 sc held2)
  with assms slot_cache_drop_ok show ?thesis by (auto simp: slot_cache_drop_def)
next
  case (deactivate ac held keys)
  with assms cache_ok_frame [of "fst st'" ac held] loader.good_forget_all show ?thesis
    by (auto simp: deactivate_remote_accounts_def)
qed (use cache_ok_frame [of "fst st'" "fst st" "snd st"] in
    \<open>auto simp: ac_add_root_def ac_set_max_flush_root_def split: if_splits\<close>)

text \<open>
  (C23) The size counters are exact: in every state that the operations of the cache can reach, in any
  order, the total size is the number of data bytes in the slot caches that are present or still
  held after their removal, and everything in the loader is marked as remote.
\<close>

theorem cache_reachable_exact:
  assumes "cache_reachable env (ac, held)"
  shows "ac_total_size ac = (\<Sum>e \<leftarrow> ac_cache ac. slot_bytes (snd e)) + (\<Sum>sc \<leftarrow> held. slot_bytes sc) \<and>
    distinct (map fst (ac_cache ac)) \<and> loader_ok env (ac_remote_loader ac)"
proof -
  obtain path where "(cache_step env)\<^sup>*\<^sup>* (accounts_cache_new (remote_loader_new env path), []) (ac, held)"
    using assms by (auto simp: cache_reachable_def)
  moreover have "cache_ok (accounts_cache_new (remote_loader_new env path)) []"
      "loader_ok env (ac_remote_loader (accounts_cache_new (remote_loader_new env path)))"
    by (simp_all add: cache_ok_def accounts_cache_new_def cached_size_def loader_ok_new)
  ultimately have "cache_ok (fst (ac, held)) (snd (ac, held)) \<and> loader_ok env (ac_remote_loader (fst (ac, held)))"
  proof (induction rule: rtranclp_induct)
    case (step st st')
    then show ?case using cache_step_keeps [OF step.hyps(2)] by blast
  qed simp
  then have ok: "cache_ok ac held" "loader_ok env (ac_remote_loader ac)" by simp_all
  have "map (\<lambda>e. slc_size (snd e)) (ac_cache ac) = map (\<lambda>e. slot_bytes (snd e)) (ac_cache ac)"
      "map slc_size held = map slot_bytes held"
    using ok(1) by (auto simp: cache_ok_def slot_ok_def)
  with ok show ?thesis by (simp add: cache_ok_def cached_size_def)
qed

text \<open>Two slots, one account overwritten by a shorter one, one slot removed and not dropped.\<close>

definition cache_demo_stored :: accounts_cache where
  "cache_demo_stored =
     ac_store 8 (demo_key 2) (shared_create 1 [5, 6] (demo_key 9) False 0)
       (ac_store 7 (demo_key 1) (shared_create 1 [1] (demo_key 9) False 0)
         (ac_store 7 (demo_key 1) (shared_create 1 [1, 2, 3] (demo_key 9) False 0)
           (accounts_cache_new remote_demo_loader)))"

definition cache_demo :: "accounts_cache \<times> slot_cache list" where
  "cache_demo = (snd (ac_remove_slot 8 cache_demo_stored), [the (fst (ac_remove_slot 8 cache_demo_stored))])"

lemma reach_store:
  "(cache_step env)\<^sup>*\<^sup>* st (ac, held) \<Longrightarrow> (cache_step env)\<^sup>*\<^sup>* st (ac_store slot key a ac, held)"
  by (erule rtranclp.rtrancl_into_rtrancl) (rule cache_step.store)

lemma cache_demo_reachable: "cache_reachable remote_demo_env cache_demo"
proof -
  have "(cache_step remote_demo_env)\<^sup>*\<^sup>* (accounts_cache_new remote_demo_loader, []) (cache_demo_stored, [])"
    unfolding cache_demo_stored_def
    by (intro reach_store rtranclp.rtrancl_refl)
  moreover have "cache_step remote_demo_env (cache_demo_stored, []) cache_demo"
  proof -
    have "ac_cached 8 (demo_key 2) cache_demo_stored \<noteq> None" by (simp add: cache_demo_stored_def cached_store)
    then obtain sc where "ac_remove_slot 8 cache_demo_stored = (Some sc, snd (ac_remove_slot 8 cache_demo_stored))"
      by (auto simp: ac_cached_def ac_remove_slot_def bind_eq_Some_conv)
    from cache_step.remove [OF this, of remote_demo_env "[]"] show ?thesis
      using \<open>ac_remove_slot 8 cache_demo_stored = _\<close> by (metis cache_demo_def fst_conv option.sel option.simps(5))
  qed
  ultimately show ?thesis
    unfolding cache_reachable_def remote_demo_loader_def by (blast intro: rtranclp.rtrancl_into_rtrancl)
qed

lemma cache_new [simp]:
  "ac_cached slot key (accounts_cache_new rl) = None" "ac_total_size (accounts_cache_new rl) = 0"
  by (simp_all add: ac_cached_def ac_slot_cache_def accounts_cache_new_def)

theorem cache_reachable_exact_witness:
  "ac_total_size (fst cache_demo) = 3 \<and>
   ac_total_size (fst cache_demo) =
     (\<Sum>e \<leftarrow> ac_cache (fst cache_demo). slot_bytes (snd e)) + (\<Sum>sc \<leftarrow> snd cache_demo. slot_bytes sc)"
proof
  show "ac_total_size (fst cache_demo) =
      (\<Sum>e \<leftarrow> ac_cache (fst cache_demo). slot_bytes (snd e)) + (\<Sum>sc \<leftarrow> snd cache_demo. slot_bytes sc)"
    using cache_reachable_exact [of remote_demo_env "fst cache_demo" "snd cache_demo"] cache_demo_reachable by simp
  show "ac_total_size (fst cache_demo) = 3"
    by (simp add: cache_demo_def cache_demo_stored_def ac_remove_slot_def total_store cached_store data_len_def
        shared_create_def)
qed

text \<open>
  A copy outlives the deactivation: once an account of the base layer was read at a slot, reading
  it at that slot gives the same account even after it was deactivated, while the loader no longer
  has any of the deactivated accounts.
\<close>

theorem load_survives_deactivation:
  assumes "ac_load env slot key ac = (Some a, ac')"
  shows "fst (ac_load env slot key (deactivate_remote_accounts env keys ac')) = Some a \<and>
    (\<forall>j \<in> set keys. \<not> has_account_from_remote env j (deactivate_remote_accounts env keys ac'))"
proof -
  have "ac_cached slot key ac' = Some a"
    using assms by (auto simp: ac_load_def ac_load_with_def cached_store split: option.splits)
  then have "ac_cached slot key (deactivate_remote_accounts env keys ac') = Some a"
    by (simp add: deactivate_remote_accounts_def ac_cached_def ac_slot_cache_def)
  then show ?thesis
    by (simp add: ac_load_def loader.read_through has_account_from_remote_def deactivate_remote_accounts_def
        loader.forget_all_absent)
qed

definition loaded_demo :: accounts_cache where
  "loaded_demo =
     accounts_cache_new
       \<lparr>rl_account_cache = [demo_key 2 \<mapsto> remote_account (account_create 6 [3] (demo_key 9) False 0)],
        rl_enable = True, rl_config = config_default\<rparr>"

theorem load_survives_deactivation_witness:
  "\<exists>ac. ac_load remote_demo_env 7 (demo_key 2) loaded_demo =
       (Some (remote_account (account_create 6 [3] (demo_key 9) False 0)), ac) \<and>
     fst (ac_load remote_demo_env 7 (demo_key 2) (deactivate_remote_accounts remote_demo_env [demo_key 2] ac)) =
       Some (remote_account (account_create 6 [3] (demo_key 9) False 0)) \<and>
     \<not> has_account_from_remote remote_demo_env (demo_key 2) (deactivate_remote_accounts remote_demo_env [demo_key 2] ac)"
proof -
  let ?a = "remote_account (account_create 6 [3] (demo_key 9) False 0)"
  have run: "ac_load remote_demo_env 7 (demo_key 2) loaded_demo = (Some ?a, ac_store 7 (demo_key 2) ?a loaded_demo)"
    by (simp add: ac_load_def ac_load_with_def loaded_demo_def accounts_cache_new_def ac_cached_def ac_slot_cache_def
        rl_get_account_def remote_demo_not_ignored)
  from load_survives_deactivation [OF run, of "[demo_key 2]"] run show ?thesis by auto
qed

end
