(* ===== verification/Bank_Remote.thy ===== *)
theory Bank_Remote
  imports Accounts_Cache Message_Processor
begin

text \<open>
  What the fork adds to the bank (\<^verbatim>\<open>runtime/src/bank.rs\<close>): before a transaction runs, its migrater
  instructions load or deactivate accounts of the base layer; after it ran, a value announced in
  its log is reported to the base layer; a program loaded from the base layer counts as deployed at
  slot 0.  Also the RPC helper that resolves an account remotely.

  Decoding of instruction data (\<^verbatim>\<open>bincode\<close>), the regular expression (\<^verbatim>\<open>regex\<close>), the owner query of the
  accounts database, the blockhash queue and the nonce information are parameters.
\<close>

section \<open>Transactions\<close>

text \<open>The part of \<^verbatim>\<open>SanitizedTransaction\<close> that these functions read.\<close>

record sanitized_transaction =
  stx_message :: sanitized_message
  stx_is_simple_vote :: bool

datatype migrater_instruction = MigrateRemoteAccounts | DeactivateRemoteAccounts

record 'w bank_env =
  be_remote :: "'w remote_env"
  be_migrater :: "migrater_instruction codec"
  be_captures :: "string \<Rightarrow> string option"

section \<open>Migrating accounts\<close>

fun fold_opt :: "('a \<Rightarrow> 's \<Rightarrow> 's option) \<Rightarrow> 'a list \<Rightarrow> 's \<Rightarrow> 's option" where
  "fold_opt f [] s = Some s"
| "fold_opt f (x # xs) s = Option.bind (f x s) (fold_opt f xs)"

type_synonym 'w bank_state = "accounts_cache \<times> 'w"

definition migrate_account ::
    "'w bank_env \<Rightarrow> sanitized_message \<Rightarrow> compiled_instruction \<Rightarrow> migrater_instruction \<Rightarrow> u8 \<Rightarrow>
     'w bank_state \<Rightarrow> 'w bank_state option" where
  "migrate_account env msg ix instr account_index st =
     (if sm_is_signer msg (unat account_index) \<or> account_index = ci_program_id_index ix then Some st
      else let accounts = (case ak_get (sm_account_keys msg) (unat account_index) of
                             Some key \<Rightarrow> [key] | None \<Rightarrow> [])
           in (case instr of
                 MigrateRemoteAccounts \<Rightarrow> load_accounts_from_remote (be_remote env) accounts st
               | DeactivateRemoteAccounts \<Rightarrow>
                   Some (deactivate_remote_accounts (be_remote env) accounts (fst st), snd st)))"

definition check_remote_instruction ::
    "'w bank_env \<Rightarrow> sanitized_message \<Rightarrow> compiled_instruction \<Rightarrow> 'w bank_state \<Rightarrow> 'w bank_state option" where
  "check_remote_instruction env msg ix st =
     (case ak_get (sm_account_keys msg) (unat (ci_program_id_index ix)) of
        None \<Rightarrow> Some st
      | Some program_id \<Rightarrow>
          if program_id \<noteq> sonic_account_migrater_id then Some st
          else (case c_decode (be_migrater env) (ci_data ix) of
                  None \<Rightarrow> Some st
                | Some instr \<Rightarrow> fold_opt (migrate_account env msg ix instr) (ci_accounts ix) st))"

definition check_remote_accounts ::
    "'w bank_env \<Rightarrow> sanitized_transaction \<Rightarrow> 'w bank_state \<Rightarrow> 'w bank_state option" where
  "check_remote_accounts env tx st =
     (if stx_is_simple_vote tx then Some st
      else fold_opt (check_remote_instruction env (stx_message tx)) (sm_instructions (stx_message tx)) st)"

section \<open>Programs of a batch\<close>

text \<open>
  The check result of a transaction and its nonce; the lamports per signature come from the nonce,
  if there is one, or else from the blockhash queue.  \<open>matches\<close> is the owner query on the accounts
  database, which reads through the cache, and \<open>result\<close> the map from program keys to their owner
  and usage count.
\<close>

type_synonym 'n check_result = "(transaction_error + unit) \<times> 'n option"
type_synonym program_counts = "(pubkey \<times> (pubkey \<times> u64)) list"

definition count_program ::
    "(pubkey \<Rightarrow> nat option) \<Rightarrow> pubkey list \<Rightarrow> pubkey \<Rightarrow> program_counts \<Rightarrow> program_counts" where
  "count_program matches owners key result =
     (case map_of result key of
        Some (owner, count) \<Rightarrow> AList.update key (owner, saturating_add count 1) result
      | None \<Rightarrow>
          (case matches key of
             None \<Rightarrow> result
           | Some index \<Rightarrow>
               (case get owners index of None \<Rightarrow> result | Some owner \<Rightarrow> AList.update key (owner, 1) result)))"

definition lamports_per_signature ::
    "('n \<Rightarrow> u64 option) \<Rightarrow> (hash \<Rightarrow> u64 option) \<Rightarrow> 'n option \<Rightarrow> sanitized_transaction \<Rightarrow> u64 option" where
  "lamports_per_signature nonce_fee queue_fee nonce tx =
     (case nonce of Some n \<Rightarrow> nonce_fee n | None \<Rightarrow> queue_fee (sm_recent_blockhash (stx_message tx)))"

fun filter_executable_program_accounts ::
    "'w bank_env \<Rightarrow> (accounts_cache \<Rightarrow> pubkey \<Rightarrow> nat option) \<Rightarrow> pubkey list \<Rightarrow> ('n \<Rightarrow> u64 option) \<Rightarrow>
     (hash \<Rightarrow> u64 option) \<Rightarrow> ('n check_result \<times> sanitized_transaction) list \<Rightarrow>
     'w bank_state \<times> program_counts \<Rightarrow> ('n check_result list \<times> 'w bank_state \<times> program_counts) option" where
  "filter_executable_program_accounts env matches owners nonce_fee queue_fee [] st = Some ([], st)"
| "filter_executable_program_accounts env matches owners nonce_fee queue_fee (((check, nonce), tx) # rest) (st, result) =
     (case check of
        Inl e \<Rightarrow>
          map_option (\<lambda>(checks, s). ((Inl e, nonce) # checks, s))
            (filter_executable_program_accounts env matches owners nonce_fee queue_fee rest (st, result))
      | Inr _ \<Rightarrow>
          (if lamports_per_signature nonce_fee queue_fee nonce tx = None then
             map_option (\<lambda>(checks, s). ((Inl TE_BlockhashNotFound, None) # checks, s))
               (filter_executable_program_accounts env matches owners nonce_fee queue_fee rest (st, result))
           else
             Option.bind (check_remote_accounts env tx st) (\<lambda>st'.
             map_option (\<lambda>(checks, s). ((Inr (), nonce) # checks, s))
               (filter_executable_program_accounts env matches owners nonce_fee queue_fee rest
                  (st', fold (count_program (matches (fst st')) owners) (ak_iter (sm_account_keys (stx_message tx))) result)))))"

section \<open>Programs from the base layer\<close>

definition LOADER_V4_STATE_SIZE :: nat where
  "LOADER_V4_STATE_SIZE = 48"

text \<open>The slot is the first field of the loader-v4 state, read in place on a little-endian machine.\<close>

definition loader_v4_slot :: "bytes \<Rightarrow> instruction_error + u64" where
  "loader_v4_slot d =
     (if length d < LOADER_V4_STATE_SIZE then Inl AccountDataTooSmall else Inr (word_rcat (rev (take 8 d))))"

definition program_modification_slot ::
    "'w remote_env \<Rightarrow> (pubkey \<Rightarrow> account_shared_data option) \<Rightarrow> pubkey \<Rightarrow> transaction_error + u64" where
  "program_modification_slot env account key =
     (case account key of
        None \<Rightarrow> Inl TE_ProgramAccountNotFound
      | Some program \<Rightarrow>
          if acct_owner program = bpf_loader_upgradeable_id then
            (case shared_deserialize_data (re_loader_state env) program of
               Inr (ULS_Program programdata_address) \<Rightarrow>
                 (case account programdata_address of
                    None \<Rightarrow> Inl TE_ProgramAccountNotFound
                  | Some programdata \<Rightarrow>
                      (case shared_deserialize_data (re_loader_state env) programdata of
                         Inr (ULS_ProgramData slot _) \<Rightarrow> if acct_remote programdata then Inr 0 else Inr slot
                       | _ \<Rightarrow> Inl TE_ProgramAccountNotFound))
             | _ \<Rightarrow> Inl TE_ProgramAccountNotFound)
          else if acct_owner program = loader_v4_id then
            (case loader_v4_slot (acct_data program) of
               Inl _ \<Rightarrow> Inl TE_ProgramAccountNotFound
             | Inr slot \<Rightarrow> Inr slot)
          else Inr 0)"

definition get_account_from_remote :: "'w remote_env \<Rightarrow> pubkey \<Rightarrow> account_shared_data option" where
  "get_account_from_remote env key =
     rl_get_account env (remote_loader_new env ''https://rpc.hypergrid.dev'') key"

section \<open>Reporting to the base layer\<close>

text \<open>\<^verbatim>\<open>str::parse::<u64>\<close>: an optional plus sign and decimal digits, refusing an overflow.\<close>

fun parse_digits :: "u64 \<Rightarrow> string \<Rightarrow> u64 option" where
  "parse_digits acc [] = Some acc"
| "parse_digits acc (c # cs) =
     (let d = (of_char c :: nat)
      in if 48 \<le> d \<and> d < 58
         then Option.bind (checked_mul acc 10) (\<lambda>m. Option.bind (checked_add m (of_nat (d - 48))) (\<lambda>acc'. parse_digits acc' cs))
         else None)"

definition parse_u64 :: "string \<Rightarrow> u64 option" where
  "parse_u64 s =
     (case s of
        [] \<Rightarrow> None
      | c # cs \<Rightarrow>
          if cs = [] \<and> (c = CHR ''+'' \<or> c = CHR ''-'') then None
          else if c = CHR ''+'' then parse_digits 0 cs
          else parse_digits 0 s)"

text \<open>
  The first instruction that calls the sonic program, with the key of its first account, if the
  message has it.  An instruction without accounts panics.
\<close>

fun sonic_call ::
    "'w remote_env \<Rightarrow> remote_loader \<Rightarrow> account_keys \<Rightarrow> compiled_instruction list \<Rightarrow>
     (pubkey \<times> pubkey option) option option" where
  "sonic_call env rl keys [] = Some None"
| "sonic_call env rl keys (ix # ixs) =
     (case ak_get keys (unat (ci_program_id_index ix)) of
        None \<Rightarrow> sonic_call env rl keys ixs
      | Some program_id \<Rightarrow>
          if is_sonic_program env rl program_id then
            (case ci_accounts ix of
               [] \<Rightarrow> None
             | account # _ \<Rightarrow> Some (Some (program_id, ak_get keys (unat account))))
          else sonic_call env rl keys ixs)"

fun first_capture :: "(string \<Rightarrow> string option) \<Rightarrow> string list \<Rightarrow> string option" where
  "first_capture captures [] = None"
| "first_capture captures (line # lines) =
     (case captures line of Some v \<Rightarrow> Some v | None \<Rightarrow> first_capture captures lines)"

text \<open>The outer option is a panic.\<close>

definition post_status_to_baselayer ::
    "'w bank_env \<Rightarrow> sanitized_transaction \<Rightarrow> string list option \<Rightarrow> 'w loader_state \<Rightarrow>
     (bytes option \<times> 'w loader_state) option" where
  "post_status_to_baselayer env tx log_messages s =
     (if stx_is_simple_vote tx then Some (None, s)
      else (case sonic_call (be_remote env) (fst s) (sm_account_keys (stx_message tx)) (sm_instructions (stx_message tx)) of
        None \<Rightarrow> None
      | Some None \<Rightarrow> Some (None, s)
      | Some (Some (program_id, None)) \<Rightarrow> Some (None, s)
      | Some (Some (program_id, Some account)) \<Rightarrow>
          (if \<not> rl_has_account (be_remote env) (fst s) account then Some (None, s)
           else (case log_messages of
             None \<Rightarrow> Some (None, s)
           | Some lines \<Rightarrow>
               (case first_capture (be_captures env) lines of
                  None \<Rightarrow> Some (None, s)
                | Some v \<Rightarrow>
                    Option.bind (parse_u64 v) (\<lambda>n.
                      send_status_to_baselayer (be_remote env) program_id account n s))))))"

end
