(* ===== verification/Hgnft.thy ===== *)
theory Hgnft
  imports Log_Collector Pubkeys
begin

text \<open>
  The programs of the demonstration: the NFT program of the base layer
  (\<^verbatim>\<open>sonic-nft-program/programs/hgnft/src/lib.rs\<close>), the inbox program and the three game programs, which
  only log.  A handler takes the accounts its \<^verbatim>\<open>Accounts\<close> struct names, after the framework
  (\<^verbatim>\<open>anchor_lang\<close>) has read them: the keys that signed the transaction and the NFT account.  The
  constraints of the struct are its guards, and the lines of \<^verbatim>\<open>msg!\<close> are part of the result.
\<close>

section \<open>The NFT program\<close>

record mint =
  mint_name :: string
  mint_uri :: string
  mint_level :: u64
  mint_locker :: pubkey

datatype anchor_error = AccountNotSigner | ConstraintHasOne

text \<open>An account that \<^verbatim>\<open>init\<close> has just created reads as zeroed fields.\<close>

definition mint_zeroed :: mint where
  "mint_zeroed = \<lparr>mint_name = [], mint_uri = [], mint_level = 0, mint_locker = pubkey_default\<rparr>"

type_synonym handler_result = "anchor_error + mint \<times> string list"

definition mintnft :: "(pubkey \<Rightarrow> string) \<Rightarrow> pubkey set \<Rightarrow> pubkey \<Rightarrow> string \<Rightarrow> string \<Rightarrow> u64 \<Rightarrow> handler_result" where
  "mintnft show_key signers user nft_name uri level =
     (if user \<notin> signers then Inl AccountNotSigner
      else let m = mint_zeroed\<lparr>mint_name := nft_name, mint_uri := uri, mint_level := level\<rparr>
           in Inr (m, [''Mint Account Created'', ''NFT Name: '' @ mint_name m, ''NFT Uri: '' @ mint_uri m,
                       ''NFT Level: '' @ decimal (unat (mint_level m)), ''NFT Locker: '' @ show_key (mint_locker m)]))"

definition setlocker :: "(pubkey \<Rightarrow> string) \<Rightarrow> pubkey set \<Rightarrow> pubkey \<Rightarrow> pubkey \<Rightarrow> mint \<Rightarrow> handler_result" where
  "setlocker show_key signers user locker mint =
     (if user \<notin> signers then Inl AccountNotSigner
      else let m = mint\<lparr>mint_locker := locker\<rparr>
           in Inr (m, [''NFT Set Locker'', ''NFT Locker: '' @ show_key (mint_locker m)]))"

definition setvalue :: "(pubkey \<Rightarrow> string) \<Rightarrow> pubkey set \<Rightarrow> pubkey \<Rightarrow> u64 \<Rightarrow> mint \<Rightarrow> handler_result" where
  "setvalue show_key signers locker level mint =
     (if locker \<notin> signers then Inl AccountNotSigner
      else if mint_locker mint \<noteq> locker then Inl ConstraintHasOne
      else let m = mint\<lparr>mint_level := level\<rparr>;
               m' = m\<lparr>mint_locker := pubkey_default\<rparr>
           in Inr (m', [''NFT Set Value'', ''NFT Old Value: '' @ decimal (unat (mint_level mint)),
                        ''NFT New Value: '' @ decimal (unat (mint_level m)), ''NFT Locker: '' @ show_key (mint_locker m')]))"

definition FAKE_NEW_VALUE :: string where
  "FAKE_NEW_VALUE = ''Fake NFT New Value: ''"

definition fakesetvalue :: "pubkey set \<Rightarrow> pubkey \<Rightarrow> u64 \<Rightarrow> mint \<Rightarrow> handler_result" where
  "fakesetvalue signers user level mint =
     (if user \<notin> signers then Inl AccountNotSigner
      else Inr (mint, [''Fake NFT Set Value'', ''Fake NFT Old Value: '' @ decimal (unat (mint_level mint)),
                       FAKE_NEW_VALUE @ decimal (unat level)]))"

section \<open>The inbox and game programs\<close>

definition addblock :: "pubkey set \<Rightarrow> pubkey \<Rightarrow> u64 \<Rightarrow> string \<Rightarrow> string \<Rightarrow> anchor_error + string list" where
  "addblock signers user slot block_hash from =
     (if user \<notin> signers then Inl AccountNotSigner
      else Inr [''New Block Added'', ''Block Slot: '' @ decimal (unat slot), ''Block Hash: '' @ block_hash,
                ''Block From: '' @ from])"

definition addlog :: "pubkey set \<Rightarrow> pubkey \<Rightarrow> u64 \<Rightarrow> string \<Rightarrow> anchor_error + string list" where
  "addlog signers user game log =
     (if user \<notin> signers then Inl AccountNotSigner
      else Inr [''New Log Added'', ''Game: '' @ decimal (unat game), ''Log: '' @ log])"

end
