(* ===== verification/Bank_Properties.thy ===== *)
theory Bank_Properties
  imports Bank_Remote Remote_Properties Cache_Properties Hgnft
begin

text \<open>
  Properties of the bank's handling of the base layer: a migrated account is available afterwards,
  the RPC helper never finds an account, and a report to the base layer can panic.
\<close>

section \<open>Migration\<close>

lemma fold_opt_reaches:
  assumes "\<And>x s. x \<in> set xs \<Longrightarrow> I s \<Longrightarrow> \<exists>s'. f x s = Some s' \<and> I s' \<and> R s s' \<and> G x s'"
    and "\<And>x s s'. G x s \<Longrightarrow> R s s' \<Longrightarrow> G x s'"
    and "\<And>s. R s s" and "\<And>s t u. R s t \<Longrightarrow> R t u \<Longrightarrow> R s u" and "I s"
  shows "\<exists>s'. fold_opt f xs s = Some s' \<and> I s' \<and> R s s' \<and> (\<forall>x \<in> set xs. G x s')"
  using assms(1,5)
proof (induction xs arbitrary: s)
  case Nil
  then show ?case using assms(3) by simp
next
  case (Cons x xs)
  obtain s1 where one: "f x s = Some s1" "I s1" "R s s1" "G x s1" using Cons.prems by auto
  obtain s2 where "fold_opt f xs s1 = Some s2" "I s2" "R s1 s2" "\<forall>y \<in> set xs. G y s2"
    using Cons.IH [of s1] Cons.prems one(2) by auto
  with one assms(2,4) show ?case by auto
qed

text \<open>
  What loading does to the rest of the bank: nothing but the loader changes, and an entry that agrees
  with the base layer keeps agreeing.
\<close>

definition warms :: "'w remote_env \<Rightarrow> (pubkey \<rightharpoonup> account) \<Rightarrow> 'w bank_state \<Rightarrow> 'w bank_state \<Rightarrow> bool" where
  "warms env base st st' \<longleftrightarrow>
     snd st' = snd st \<and> fst st' = (fst st)\<lparr>ac_remote_loader := ac_remote_loader (fst st')\<rparr> \<and>
     (\<forall>key. rl_account_cache (ac_remote_loader (fst st)) key = base_view env base key \<longrightarrow>
        rl_account_cache (ac_remote_loader (fst st')) key = base_view env base key)"

definition enabled :: "'w bank_state \<Rightarrow> bool" where
  "enabled st \<longleftrightarrow> rl_enable (ac_remote_loader (fst st))"

definition agrees :: "'w remote_env \<Rightarrow> (pubkey \<rightharpoonup> account) \<Rightarrow> pubkey \<Rightarrow> 'w bank_state \<Rightarrow> bool" where
  "agrees env base key st \<longleftrightarrow>
     (base_view env base key \<noteq> None \<longrightarrow> rl_account_cache (ac_remote_loader (fst st)) key = base_view env base key)"

lemma warms_refl [simp]: "warms env base st st"
  by (simp add: warms_def)

lemma warms_trans: "warms env base s t \<Longrightarrow> warms env base t u \<Longrightarrow> warms env base s u"
  unfolding warms_def by (metis accounts_cache.surjective accounts_cache.update_convs(5))

lemma agrees_warms: "agrees env base key s \<Longrightarrow> warms env base s t \<Longrightarrow> agrees env base key t"
  by (simp add: agrees_def warms_def)

lemma load_one_warms:
  assumes "stable env base" and "enabled st" and "chain_ends env base key"
  shows "\<exists>st'. load_accounts_from_remote env [key] st = Some st' \<and> enabled st' \<and> warms env base st st' \<and>
    agrees env base key st'"
proof -
  let ?s = "(ac_remote_loader (fst st), snd st)"
  have on: "rl_enable (fst ?s)" using assms(2) by (simp add: enabled_def)
  obtain r rl w where run: "load_account env key ?s = Some (r, rl, w)"
    using chain_ends_loads [OF assms(3,1), of "fst ?s" "snd ?s"] on by (metis fst_conv snd_conv prod.exhaust)
  note co = load_account_coherence [OF run assms(1) on]
  have load: "load_accounts_from_remote env [key] st = Some ((fst st)\<lparr>ac_remote_loader := rl\<rparr>, w)"
    using run by (simp add: load_accounts_from_remote_def)
  have "warms env base st ((fst st)\<lparr>ac_remote_loader := rl\<rparr>, w)"
      "agrees env base key ((fst st)\<lparr>ac_remote_loader := rl\<rparr>, w)" "enabled ((fst st)\<lparr>ac_remote_loader := rl\<rparr>, w)"
    using co by (auto simp: warms_def agrees_def enabled_def)
  with load show ?thesis by blast
qed

definition requests :: "sanitized_message \<Rightarrow> compiled_instruction \<Rightarrow> pubkey \<Rightarrow> bool" where
  "requests msg ix key \<longleftrightarrow>
     ak_get (sm_account_keys msg) (unat (ci_program_id_index ix)) = Some sonic_account_migrater_id \<and>
     (\<exists>i \<in> set (ci_accounts ix). \<not> sm_is_signer msg (unat i) \<and> i \<noteq> ci_program_id_index ix \<and>
        ak_get (sm_account_keys msg) (unat i) = Some key)"

lemma migrate_account_warms:
  assumes "stable (be_remote env) base" and "enabled st"
    and "\<And>key. \<not> sm_is_signer msg (unat i) \<Longrightarrow> i \<noteq> ci_program_id_index ix \<Longrightarrow>
      ak_get (sm_account_keys msg) (unat i) = Some key \<Longrightarrow> chain_ends (be_remote env) base key"
  shows "\<exists>st'. migrate_account env msg ix MigrateRemoteAccounts i st = Some st' \<and> enabled st' \<and>
    warms (be_remote env) base st st' \<and>
    (\<forall>key. \<not> sm_is_signer msg (unat i) \<longrightarrow> i \<noteq> ci_program_id_index ix \<longrightarrow>
       ak_get (sm_account_keys msg) (unat i) = Some key \<longrightarrow> agrees (be_remote env) base key st')"
proof (cases "sm_is_signer msg (unat i) \<or> i = ci_program_id_index ix")
  case True
  then show ?thesis using assms(2) by (auto simp: migrate_account_def)
next
  case False
  show ?thesis
  proof (cases "ak_get (sm_account_keys msg) (unat i)")
    case None
    then show ?thesis
      using False assms(2) by (cases st) (auto simp: migrate_account_def load_accounts_from_remote_def)
  next
    case (Some key)
    then show ?thesis
      using False load_one_warms [OF assms(1,2), of key] assms(3) by (auto simp: migrate_account_def)
  qed
qed

text \<open>
  Every migrater instruction of the message decodes as a migration, and the chain of every account
  asked for ends.
\<close>

definition migrates :: "'w bank_env \<Rightarrow> (pubkey \<rightharpoonup> account) \<Rightarrow> sanitized_message \<Rightarrow> bool" where
  "migrates env base msg \<longleftrightarrow>
     (\<forall>ix \<in> set (sm_instructions msg).
        (ak_get (sm_account_keys msg) (unat (ci_program_id_index ix)) = Some sonic_account_migrater_id \<longrightarrow>
           c_decode (be_migrater env) (ci_data ix) = Some MigrateRemoteAccounts) \<and>
        (\<forall>key. requests msg ix key \<longrightarrow> chain_ends (be_remote env) base key))"

lemma check_instruction_warms:
  fixes env :: "'w bank_env" and st :: "'w bank_state"
  assumes "stable (be_remote env) base" and "migrates env base msg" and ix: "ix \<in> set (sm_instructions msg)"
    and on: "enabled st"
  shows "\<exists>st'. check_remote_instruction env msg ix st = Some st' \<and> enabled st' \<and>
    warms (be_remote env) base st st' \<and> (\<forall>key. requests msg ix key \<longrightarrow> agrees (be_remote env) base key st')"
proof (cases "ak_get (sm_account_keys msg) (unat (ci_program_id_index ix)) = Some sonic_account_migrater_id")
  case False
  then show ?thesis
    using on by (cases st) (auto simp: check_remote_instruction_def requests_def split: option.splits)
next
  case True
  let ?G = "\<lambda>i st'. \<forall>key. \<not> sm_is_signer msg (unat i) \<longrightarrow> i \<noteq> ci_program_id_index ix \<longrightarrow>
     ak_get (sm_account_keys msg) (unat i) = Some key \<longrightarrow> agrees (be_remote env) base key st'"
  have "\<exists>st'. fold_opt (migrate_account env msg ix MigrateRemoteAccounts) (ci_accounts ix) st = Some st' \<and>
      enabled st' \<and> warms (be_remote env) base st st' \<and> (\<forall>i \<in> set (ci_accounts ix). ?G i st')"
  proof (rule fold_opt_reaches [of _ enabled])
    fix i and st :: "'w bank_state"
    assume i: "i \<in> set (ci_accounts ix)" and on: "enabled st"
    have "chain_ends (be_remote env) base key" if "\<not> sm_is_signer msg (unat i)" "i \<noteq> ci_program_id_index ix"
        "ak_get (sm_account_keys msg) (unat i) = Some key" for key
      using assms(2) ix i that True by (auto simp: migrates_def requests_def)
    then show "\<exists>s'. migrate_account env msg ix MigrateRemoteAccounts i st = Some s' \<and> enabled s' \<and>
        warms (be_remote env) base st s' \<and> ?G i s'"
      by (rule migrate_account_warms [OF assms(1) on])
  qed (use on agrees_warms warms_refl warms_trans in blast)+
  then show ?thesis
    using True assms(2) ix by (auto simp: check_remote_instruction_def requests_def migrates_def)
qed

lemma migration_available:
  fixes env :: "'w bank_env"
  assumes "stable (be_remote env) base" and "migrates env base (stx_message tx)"
    and "rl_enable (ac_remote_loader ac)" and "\<not> stx_is_simple_vote tx"
  shows "\<exists>ac'. check_remote_accounts env tx (ac, w) = Some (ac', w) \<and>
    ac' = ac\<lparr>ac_remote_loader := ac_remote_loader ac'\<rparr> \<and>
    (\<forall>ix \<in> set (sm_instructions (stx_message tx)). \<forall>key a. requests (stx_message tx) ix key \<longrightarrow>
       base_view (be_remote env) base key = Some a \<longrightarrow>
       rl_get_account (be_remote env) (ac_remote_loader ac') key = Some a)"
proof -
  let ?env = "be_remote env" and ?msg = "stx_message tx"
  have "\<exists>st'. fold_opt (check_remote_instruction env ?msg) (sm_instructions ?msg) (ac, w) = Some st' \<and> enabled st' \<and>
      warms ?env base (ac, w) st' \<and>
      (\<forall>ix \<in> set (sm_instructions ?msg). \<forall>key. requests ?msg ix key \<longrightarrow> agrees ?env base key st')"
  proof (rule fold_opt_reaches [of _ enabled])
    show "enabled (ac, w)" using assms(3) by (simp add: enabled_def)
  qed (use check_instruction_warms [OF assms(1,2)] agrees_warms warms_refl warms_trans in blast)+
  then obtain st' where st': "fold_opt (check_remote_instruction env ?msg) (sm_instructions ?msg) (ac, w) = Some st'"
      "enabled st'" "warms ?env base (ac, w) st'"
      "\<forall>ix \<in> set (sm_instructions ?msg). \<forall>key. requests ?msg ix key \<longrightarrow> agrees ?env base key st'"
    by blast
  have "rl_get_account ?env (ac_remote_loader (fst st')) key = Some a"
    if "agrees ?env base key st'" "base_view ?env base key = Some a" for key a
    using that st'(2) by (auto simp: agrees_def enabled_def rl_get_account_def base_view_def split: if_splits)
  with st' assms(4) show ?thesis
    by (intro exI [of _ "fst st'"]) (auto simp: check_remote_accounts_def warms_def prod_eq_iff)
qed

text \<open>
  (C15) Migration makes accounts available: when a transaction asks the migrater for accounts of a
  stable base layer, and the program data chain of each of them ends, the check before its
  execution returns, every account asked for that exists there is in the loader as the base layer
  has it, and nothing else of the accounts cache changed.
\<close>

theorem migration_makes_available:
  fixes env :: "'w bank_env"
  assumes "stable (be_remote env) base" and "migrates env base (stx_message tx)"
    and "rl_enable (ac_remote_loader ac)" and "\<not> stx_is_simple_vote tx"
  shows "\<exists>ac'. check_remote_accounts env tx (ac, w) = Some (ac', w) \<and>
    ac' = ac\<lparr>ac_remote_loader := ac_remote_loader ac'\<rparr> \<and>
    (\<forall>ix \<in> set (sm_instructions (stx_message tx)). \<forall>key a. requests (stx_message tx) ix key \<longrightarrow>
       base_view (be_remote env) base key = Some a \<longrightarrow>
       rl_get_account (be_remote env) (ac_remote_loader ac') key = Some a)"
  by (rule migration_available [OF assms])

text \<open>A transaction that asks the migrater for the program at \<open>demo_key 1\<close>, signed by \<open>demo_key 4\<close>.\<close>

definition migrate_demo_tx :: sanitized_transaction where
  "migrate_demo_tx =
     \<lparr>stx_message = LegacyMsg
        \<lparr>clm_message =
           \<lparr>lm_header = \<lparr>mh_num_required_signatures = 1, mh_num_readonly_signed_accounts = 0,
                         mh_num_readonly_unsigned_accounts = 2\<rparr>,
            lm_account_keys = [demo_key 4, demo_key 1, sonic_account_migrater_id],
            lm_recent_blockhash = hash_default,
            lm_instructions = [\<lparr>ci_program_id_index = 2, ci_accounts = [0, 1], ci_data = [0]\<rparr>]\<rparr>,
         clm_is_writable_cache = [True, False, False]\<rparr>,
      stx_is_simple_vote = False\<rparr>"

definition migrate_demo_env :: "unit bank_env" where
  "migrate_demo_env =
     \<lparr>be_remote = remote_demo_env,
      be_migrater = \<lparr>c_encode = (\<lambda>_. None), c_decode = (\<lambda>_. Some MigrateRemoteAccounts)\<rparr>,
      be_captures = (\<lambda>_. None)\<rparr>"

lemma migrate_demo_requests:
  assumes "ix \<in> set (sm_instructions (stx_message migrate_demo_tx))"
  shows "requests (stx_message migrate_demo_tx) ix key \<longleftrightarrow> key = demo_key 1"
  using assms
  by (auto simp: requests_def migrate_demo_tx_def ak_get_def key_segments_def sm_is_signer_def)

lemma migrate_demo_migrates: "migrates migrate_demo_env remote_demo_base (stx_message migrate_demo_tx)"
proof -
  have "chain_ends remote_demo_env remote_demo_base (demo_key 1)"
    by (rule chain_ends.link [OF remote_demo_view(1) remote_demo_programdata(1)
          chain_ends.final [OF remote_demo_view(2) remote_demo_programdata(2)]])
  then show ?thesis
    using migrate_demo_requests by (simp add: migrates_def migrate_demo_env_def)
qed

lemma migrate_demo_facts:
  "be_remote migrate_demo_env = remote_demo_env" "\<not> stx_is_simple_vote migrate_demo_tx"
  "rl_enable (ac_remote_loader (accounts_cache_new remote_demo_loader))"
  "\<exists>ix. ix \<in> set (sm_instructions (stx_message migrate_demo_tx)) \<and> requests (stx_message migrate_demo_tx) ix (demo_key 1)"
proof -
  have "sm_instructions (stx_message migrate_demo_tx) \<noteq> []" by (simp add: migrate_demo_tx_def)
  then show "\<exists>ix. ix \<in> set (sm_instructions (stx_message migrate_demo_tx)) \<and>
      requests (stx_message migrate_demo_tx) ix (demo_key 1)"
    using migrate_demo_requests by (metis list.set_intros(1) neq_Nil_conv)
qed (use remote_demo_stable(2) in \<open>simp_all add: migrate_demo_env_def migrate_demo_tx_def accounts_cache_new_def\<close>)

theorem migration_makes_available_witness:
  "\<exists>ac. check_remote_accounts migrate_demo_env migrate_demo_tx (accounts_cache_new remote_demo_loader, ()) = Some (ac, ()) \<and>
     rl_get_account remote_demo_env (ac_remote_loader ac) (demo_key 1) =
       Some (remote_account (account_create 5 [2, 2] bpf_loader_upgradeable_id True 0))"
  using migration_makes_available [OF _ migrate_demo_migrates migrate_demo_facts(3,2), unfolded migrate_demo_facts(1),
      OF remote_demo_stable(1)] migrate_demo_facts(4) remote_demo_view(1) by blast

section \<open>Panics and dead ends\<close>

text \<open>
  The RPC helper for remote accounts never finds one: it makes a new loader, whose cache is empty, and
  reads from the cache only.
\<close>

lemma get_account_from_remote_never: "get_account_from_remote env key = None"
  by (simp add: get_account_from_remote_def rl_get_account_def remote_loader_new_def)

lemma sonic_call_skips:
  assumes "\<forall>ix \<in> set pre. \<forall>p. ak_get keys (unat (ci_program_id_index ix)) = Some p \<longrightarrow> \<not> is_sonic_program env rl p"
  shows "sonic_call env rl keys (pre @ ixs) = sonic_call env rl keys ixs"
  using assms by (induction pre) (auto split: option.splits)

text \<open>
  (C24) A transaction can make the bank panic: when its first call of the sonic program, once that
  program is loaded, passes no account, reporting its status panics, whatever it logged and whether
  or not it succeeded.
\<close>

theorem post_status_panics:
  assumes "\<not> stx_is_simple_vote tx" and "sm_instructions (stx_message tx) = pre @ ix # ixs"
    and "\<forall>i \<in> set pre. \<forall>p. ak_get (sm_account_keys (stx_message tx)) (unat (ci_program_id_index i)) = Some p \<longrightarrow>
      \<not> is_sonic_program (be_remote env) (fst s) p"
    and "ak_get (sm_account_keys (stx_message tx)) (unat (ci_program_id_index ix)) = Some program_id"
    and "is_sonic_program (be_remote env) (fst s) program_id" and "ci_accounts ix = []"
  shows "post_status_to_baselayer env tx log_messages s = None"
  using assms sonic_call_skips [OF assms(3)] by (simp add: post_status_to_baselayer_def)

definition sonic_demo_tx :: sanitized_transaction where
  "sonic_demo_tx =
     \<lparr>stx_message = LegacyMsg
        \<lparr>clm_message =
           \<lparr>lm_header = \<lparr>mh_num_required_signatures = 1, mh_num_readonly_signed_accounts = 0,
                         mh_num_readonly_unsigned_accounts = 1\<rparr>,
            lm_account_keys = [demo_key 4, demo_key 1], lm_recent_blockhash = hash_default,
            lm_instructions = [\<lparr>ci_program_id_index = 1, ci_accounts = [], ci_data = []\<rparr>]\<rparr>,
         clm_is_writable_cache = [True, False]\<rparr>,
      stx_is_simple_vote = False\<rparr>"

definition sonic_demo_loader :: remote_loader where
  "sonic_demo_loader =
     \<lparr>rl_account_cache = [demo_key 1 \<mapsto> remote_account (account_create 5 [] bpf_loader_upgradeable_id True 0),
                          demo_key 2 \<mapsto> remote_account (account_create 6 [3] (demo_key 1) False 0)],
      rl_enable = True, rl_config = config_default\<lparr>cfg_sonic_program_id := ''key''\<rparr>\<rparr>"

theorem post_status_panics_witness:
  "post_status_to_baselayer migrate_demo_env sonic_demo_tx (Some []) (sonic_demo_loader, ()) = None"
proof (rule post_status_panics)
  show "sm_instructions (stx_message sonic_demo_tx) = [] @ [\<lparr>ci_program_id_index = 1, ci_accounts = [], ci_data = []\<rparr>]"
      "\<not> stx_is_simple_vote sonic_demo_tx"
    by (simp_all add: sonic_demo_tx_def)
  show "ak_get (sm_account_keys (stx_message sonic_demo_tx))
      (unat (ci_program_id_index \<lparr>ci_program_id_index = 1, ci_accounts = [], ci_data = []\<rparr>)) = Some (demo_key 1)"
    by (simp add: sonic_demo_tx_def ak_get_def key_segments_def)
  show "is_sonic_program (be_remote migrate_demo_env) (fst (sonic_demo_loader, ())) (demo_key 1)"
    using remote_demo_not_ignored demo_keys_distinct
    by (simp add: is_sonic_program_def sonic_demo_loader_def rl_has_account_def migrate_demo_env_def remote_demo_env_def)
qed simp_all

end
