(* ===== verification/Migrater.thy ===== *)
theory Migrater
  imports Bank_Remote Execution_Properties
begin

text \<open>
  The migrater program (\<^verbatim>\<open>programs/sonic-account-migrater\<close>) and the instructions that call it
  (\<^verbatim>\<open>sdk/program/src/sonic_account_migrater\<close>).  The bank does the migration before the transaction
  runs; the program itself only logs which accounts it concerns.  The sysvar cache and the decoder
  of the instruction data are arguments.
\<close>

section \<open>The program\<close>

record migrater_env =
  me_display :: display
  me_decode :: "bytes \<Rightarrow> migrater_instruction option"
  me_sysvars :: sysvar_cache

fun report_accounts ::
    "display \<Rightarrow> string \<Rightarrow> instruction_context \<Rightarrow> nat list \<Rightarrow> nat \<Rightarrow> nat iv_action" where
  "report_accounts d line ic [] addresses_len iv = (Inr addresses_len, iv)"
| "report_accounts d line ic (i # is) addresses_len iv =
     (case peek (try_borrow_instruction_account ic i) (iv_tc iv) of
        Inl e \<Rightarrow> (Inl e, iv)
      | Inr account \<Rightarrow>
          (let key = ba_get_key account (iv_tc iv)
           in if \<not> ba_is_signer account \<and> \<not> ba_is_writable account \<and> key \<noteq> sonic_account_migrater_id
              then report_accounts d line ic is (addresses_len + 1)
                     (iv_msg (ic_logger_msg (''Account '' @ show_key d key @ line)) iv)
              else report_accounts d line ic is addresses_len iv))"

text \<open>
  \<^verbatim>\<open>migrate_remote_accounts\<close> and \<^verbatim>\<open>deactivate_remote_accounts\<close> of the processor differ in their texts
  only.
\<close>

definition report_migration :: "migrater_env \<Rightarrow> string \<Rightarrow> string \<Rightarrow> unit iv_action" where
  "report_migration env line summary iv =
     (case get_current_instruction_context (iv_tc iv) of
        Inl e \<Rightarrow> (Inl e, iv)
      | Inr ic \<Rightarrow>
          (let n = get_number_of_instruction_accounts ic
           in if n < 1
              then (Inl NotEnoughAccountKeys, iv_msg (ic_logger_msg ''No accounts provided'') iv)
              else (case report_accounts (me_display env) line ic [0..<n] 0 iv of
                      (Inl e, iv') \<Rightarrow> (Inl e, iv')
                    | (Inr addresses_len, iv') \<Rightarrow>
                        (case get_clock (me_sysvars env) of
                           Inl e \<Rightarrow> (Inl e, iv')
                         | Inr clock \<Rightarrow>
                             (Inr (), iv_msg (ic_logger_msg (decimal addresses_len @ summary @ decimal (unat (clk_slot clock)) @ ''.'')) iv')))))"

definition migrate_remote_accounts :: "migrater_env \<Rightarrow> unit iv_action" where
  "migrate_remote_accounts env =
     report_migration env '' is migrated from remote.'' '' Remote Accounts are migrated at slot ''"

definition report_deactivation :: "migrater_env \<Rightarrow> unit iv_action" where
  "report_deactivation env =
     report_migration env '' is deactivated in cache.'' '' Remote Accounts are already deactivated at slot ''"

definition migrater_entrypoint :: "migrater_env \<Rightarrow> unit iv_action" where
  "migrater_entrypoint env iv =
     (case get_current_instruction_context (iv_tc iv) of
        Inl e \<Rightarrow> (Inl e, iv)
      | Inr ic \<Rightarrow>
          (case me_decode env (ic_instruction_data ic) of
             None \<Rightarrow> (Inl InvalidInstructionData, iv)
           | Some MigrateRemoteAccounts \<Rightarrow> migrate_remote_accounts env iv
           | Some DeactivateRemoteAccounts \<Rightarrow> report_deactivation env iv))"

definition migrater_builtin :: "migrater_env \<Rightarrow> builtin" where
  "migrater_builtin env = declare_process_instruction 750 (\<lambda>_. migrater_entrypoint env)"

section \<open>Instructions\<close>

definition account_meta_readonly :: "pubkey \<Rightarrow> bool \<Rightarrow> account_meta" where
  "account_meta_readonly key is_signer = \<lparr>am_pubkey = key, am_is_signer = is_signer, am_is_writable = False\<rparr>"

definition migrater_accounts :: "pubkey \<Rightarrow> pubkey list \<Rightarrow> account_meta list" where
  "migrater_accounts payer addresses =
     [account_meta_readonly payer True, account_meta_readonly system_program_id False] @
     map (\<lambda>a. account_meta_readonly a False) addresses"

text \<open>The two constructors; \<open>None\<close> is a failure of the encoder.\<close>

definition migrater_instruction_new ::
    "migrater_instruction codec \<Rightarrow> migrater_instruction \<Rightarrow> pubkey \<Rightarrow> pubkey list \<Rightarrow> instruction option" where
  "migrater_instruction_new c instr payer addresses =
     new_with_bincode sonic_account_migrater_id (c_encode c instr) (migrater_accounts payer addresses)"

section \<open>The program only logs\<close>

lemma report_accounts_tc: "iv_tc (snd (report_accounts d line ic is n iv)) = iv_tc iv"
  by (induction "is" arbitrary: n iv) (auto simp: iv_msg_def Let_def split: sum.splits)

lemma report_migration_tc: "iv_tc (snd (report_migration env line summary iv)) = iv_tc iv"
proof -
  have "iv_tc iv' = iv_tc iv" if "report_accounts (me_display env) line ic is 0 iv = (r, iv')" for ic "is" r iv'
    using report_accounts_tc [of "me_display env" line ic "is" 0 iv] that by simp
  then show ?thesis by (auto simp: report_migration_def iv_msg_def Let_def split: sum.splits prod.splits)
qed

lemma migrater_entrypoint_tc: "iv_tc (snd (migrater_entrypoint env iv)) = iv_tc iv"
  by (auto simp: migrater_entrypoint_def migrate_remote_accounts_def report_deactivation_def report_migration_tc
      split: sum.splits option.splits migrater_instruction.splits)

lemma migrater_builtin_tc: "iv_tc (snd (migrater_builtin env invoke iv)) = iv_tc iv"
proof -
  have "iv_tc (snd (consume_checked 750 iv)) = iv_tc iv" by (simp add: consume_checked_def Let_def)
  then show ?thesis
    using migrater_entrypoint_tc [of env "snd (consume_checked 750 iv)"]
    by (auto simp: migrater_builtin_def declare_process_instruction_def split: prod.splits sum.splits)
qed

lemma migrater_builtin_ok: "program_ok (migrater_builtin env)"
  by (simp add: program_ok_def migrater_builtin_tc call_frame_refl)

text \<open>The programs of a grid: the system program and the migrater.\<close>

definition grid_programs :: "system_env \<Rightarrow> migrater_env \<Rightarrow> programs" where
  "grid_programs senv menv =
     (system_programs senv)(sonic_account_migrater_id \<mapsto> Builtin (Some (migrater_builtin menv)))"

lemma grid_programs_ok: "all_programs_ok (grid_programs senv menv)"
  using system_programs_ok [of senv] migrater_builtin_ok
  by (auto simp: all_programs_ok_def grid_programs_def split: if_splits)

end
