(* ===== verification/Sync_Properties.thy ===== *)
theory Sync_Properties
  imports Bank_Properties Message_Properties
begin

text \<open>
  The path of a value from the grid to the base layer: the NFT program announces it in its log, the
  bank finds it there, and the transaction it sends, executed by the NFT program of the base layer, sets
  exactly this value.  The regular expression, the layout of the instruction data (\<^verbatim>\<open>bincode\<close>) and the
  dispatch that \<^verbatim>\<open>anchor_lang\<close> generates for the NFT program are parameters with their documented behaviour.
\<close>

section \<open>Decimal numbers\<close>

definition is_digit :: "char \<Rightarrow> bool" where
  "is_digit c \<longleftrightarrow> 48 \<le> (of_char c :: nat) \<and> (of_char c :: nat) < 58"

lemma char_digit: "d < 10 \<Longrightarrow> (of_char (char_of (48 + d)) :: nat) = 48 + d"
  by (simp add: of_char_of)

lemma decimal_digits: "\<forall>c \<in> set (decimal n). is_digit c"
proof (induction n rule: decimal.induct)
  case (1 n)
  have "is_digit (char_of (48 + n mod 10))" using char_digit [of "n mod 10"] by (simp add: is_digit_def)
  with 1 show ?case by (subst decimal.simps) (auto simp: is_digit_def char_digit)
qed

lemma decimal_nonempty: "decimal n \<noteq> []"
  by (subst decimal.simps) simp

lemma parse_digits_append:
  "parse_digits acc (xs @ ys) = Option.bind (parse_digits acc xs) (\<lambda>a. parse_digits a ys)"
  by (induction acc xs rule: parse_digits.induct) (auto simp: Let_def bind_assoc split: bind_splits)

lemma parse_decimal_digits: "n < 2 ^ 64 \<Longrightarrow> parse_digits 0 (decimal n) = Some (of_nat n)"
proof (induction n rule: decimal.induct)
  case (1 n)
  show ?case
  proof (cases "n < 10")
    case True
    then show ?thesis
      by (subst decimal.simps) (simp add: char_digit checked_mul_def checked_add_def unat_of_nat)
  next
    case False
    let ?q = "n div 10"
    have q: "?q < 2 ^ 64" "?q * 10 < 2 ^ 64" "?q * 10 + n mod 10 < 2 ^ 64" using 1(2) by auto
    have IH: "parse_digits 0 (decimal ?q) = Some (of_nat ?q)" using 1 False q by simp
    have m: "unat (of_nat ?q :: u64) = ?q" using q by (simp add: unat_of_nat)
    have mul: "checked_mul (of_nat ?q) 10 = Some (of_nat (?q * 10) :: u64)"
      using q m by (simp add: checked_mul_def mult.commute)
    have add: "checked_add (of_nat (?q * 10)) (of_nat (n mod 10)) = Some (of_nat n :: u64)"
    proof -
      have "unat (of_nat (?q * 10) :: u64) = ?q * 10" using q(2) by (simp only: unat_of_nat) simp
      moreover have "unat (of_nat (n mod 10) :: u64) = n mod 10" by (simp only: unat_of_nat) simp
      moreover have "of_nat (?q * 10) + of_nat (n mod 10) = (of_nat n :: u64)"
        by (metis div_mult_mod_eq of_nat_add)
      ultimately show ?thesis using q(3) by (simp only: checked_add_def) simp
    qed
    show ?thesis
      using False IH mul add char_digit [of "n mod 10"]
      by (subst decimal.simps) (simp add: parse_digits_append)
  qed
qed

lemma parse_decimal: "parse_u64 (decimal (unat v)) = Some v"
proof -
  obtain c cs where c: "decimal (unat v) = c # cs" using decimal_nonempty by (meson list.exhaust)
  then have "is_digit c" using decimal_digits [of "unat v"] by simp
  then have "c \<noteq> CHR ''+''" "c \<noteq> CHR ''-''" by (auto simp: is_digit_def)
  then show ?thesis
    using parse_decimal_digits [OF unat_u64_less [of v]] c
    by (simp add: parse_u64_def del: parse_digits.simps)
qed

section \<open>Finding the value in the log\<close>

text \<open>
  Documented behaviour of the regular expression \<^verbatim>\<open>Fake NFT New Value: (\d+)\<close>: it captures the whole run of
  digits after its first occurrence, and nothing in a line without the text.
\<close>

definition captures_ok :: "(string \<Rightarrow> string option) \<Rightarrow> bool" where
  "captures_ok captures \<longleftrightarrow>
     (\<forall>pre ds. CHR ''F'' \<notin> set pre \<longrightarrow> ds \<noteq> [] \<longrightarrow> (\<forall>c \<in> set ds. is_digit c) \<longrightarrow>
        captures (pre @ FAKE_NEW_VALUE @ ds) = Some ds) \<and>
     (\<forall>line. \<not> contains_str FAKE_NEW_VALUE line \<longrightarrow> captures line = None)"

text \<open>The lines of a program as the runtime logs them.\<close>

definition logged :: "string list \<Rightarrow> string list" where
  "logged lines = map (\<lambda>line. ''Program log: '' @ line) lines"

lemma contains_str_set: "contains_str p line \<Longrightarrow> set p \<subseteq> set line"
  unfolding contains_str_def list_ex_iff by (meson in_set_suffixes set_mono_prefix set_mono_suffix subset_trans)

lemma no_w_no_match: "CHR ''w'' \<notin> set line \<Longrightarrow> \<not> contains_str FAKE_NEW_VALUE line"
  using contains_str_set [of FAKE_NEW_VALUE line] by (auto simp: FAKE_NEW_VALUE_def)

lemma digits_no_w: "CHR ''w'' \<notin> set (decimal n)"
  using decimal_digits [of n] by (auto simp: is_digit_def)

lemma first_capture_announced:
  assumes "captures_ok captures" and "fakesetvalue signers user level mint = Inr (mint', lines)"
  shows "first_capture captures (logged lines) = Some (decimal (unat level))"
proof -
  let ?old = "''Program log: Fake NFT Old Value: '' @ decimal (unat (mint_level mint))"
  let ?new = "''Program log: '' @ FAKE_NEW_VALUE @ decimal (unat level)"
  have lines: "logged lines = [''Program log: Fake NFT Set Value'', ?old, ?new]"
    using assms(2) by (auto simp: fakesetvalue_def logged_def split: if_splits)
  have none: "captures line = None" if "CHR ''w'' \<notin> set line" for line
    using assms(1) no_w_no_match [OF that] by (simp add: captures_ok_def)
  have "captures ''Program log: Fake NFT Set Value'' = None" "captures ?old = None"
    using digits_no_w by (auto intro!: none)
  moreover have "captures ?new = Some (decimal (unat level))"
  proof -
    have "CHR ''F'' \<notin> set ''Program log: ''" by simp
    with assms(1) show ?thesis unfolding captures_ok_def using decimal_digits decimal_nonempty by blast
  qed
  ultimately show ?thesis by (simp add: lines)
qed

section \<open>The transaction on the base layer\<close>

text \<open>
  The entry point that \<^verbatim>\<open>anchor_lang\<close> generates for the NFT program takes the accounts of an instruction,
  its data and the content of the NFT account, the first of the accounts.  Documented behaviour for the
  two methods of a report: the first eight bytes of the SHA-256 hash of \<^verbatim>\<open>global:\<close> and the method name
  select the method, its argument follows (32 bytes of a key, or a little-endian \<^verbatim>\<open>u64\<close>), and the accounts
  are those of the \<^verbatim>\<open>Accounts\<close> struct in order, the NFT account writable.
\<close>

type_synonym anchor_entry = "account_meta list \<Rightarrow> bytes \<Rightarrow> mint \<Rightarrow> handler_result"

primrec le_bytes :: "nat \<Rightarrow> u64 \<Rightarrow> bytes" where
  "le_bytes 0 v = []"
| "le_bytes (Suc n) v = ucast v # le_bytes n (drop_bit 8 v)"

abbreviation u64_le_bytes :: "u64 \<Rightarrow> bytes" where
  "u64_le_bytes v \<equiv> le_bytes 8 v"

definition signed_by :: "account_meta list \<Rightarrow> pubkey set" where
  "signed_by ams = am_pubkey ` {am \<in> set ams. am_is_signer am}"

definition anchor_dispatches :: "(bytes \<Rightarrow> bytes) \<Rightarrow> (pubkey \<Rightarrow> string) \<Rightarrow> anchor_entry \<Rightarrow> bool" where
  "anchor_dispatches sha256 display_key entry \<longleftrightarrow>
     (\<forall>nft user locker m. am_is_writable nft \<longrightarrow> length (pk_bytes locker) = 32 \<longrightarrow>
        entry [nft, user] (take 8 (sha256 (map of_char ''global:setlocker'')) @ pk_bytes locker) m =
          setlocker display_key (signed_by [nft, user]) (am_pubkey user) locker m) \<and>
     (\<forall>nft locker v m. am_is_writable nft \<longrightarrow>
        entry [nft, locker] (take 8 (sha256 (map of_char ''global:setvalue'')) @ u64_le_bytes v) m =
          setvalue display_key (signed_by [nft, locker]) (am_pubkey locker) v m)"

text \<open>Documented behaviour of \<^verbatim>\<open>bincode\<close>: the fields of a struct follow one another, arrays without a length.\<close>

definition bincode_layout :: "'w remote_env \<Rightarrow> bool" where
  "bincode_layout env \<longleftrightarrow>
     (\<forall>x. length (sl_instruction x) = 8 \<longrightarrow>
        c_encode (re_set_locker env) x = Some (sl_instruction x @ pk_bytes (sl_locker x))) \<and>
     (\<forall>x. length (sv_instruction x) = 8 \<longrightarrow>
        c_encode (re_set_value env) x = Some (sv_instruction x @ u64_le_bytes (sv_value x)))"

text \<open>
  Executing a message: it is sanitized, and its instructions run in order on the NFT accounts.  All of
  them have to be calls of the NFT program and succeed, or the transaction has no effect.
\<close>

definition run_instruction ::
    "pubkey \<Rightarrow> anchor_entry \<Rightarrow> instruction \<Rightarrow> (pubkey \<rightharpoonup> mint) \<Rightarrow> (pubkey \<rightharpoonup> mint) option" where
  "run_instruction program_id entry ix nfts =
     (case ix_accounts ix of
        [] \<Rightarrow> None
      | nft # _ \<Rightarrow>
          if ix_program_id ix \<noteq> program_id then None
          else Option.bind (nfts (am_pubkey nft)) (\<lambda>m.
            case entry (ix_accounts ix) (ix_data ix) m of
              Inl _ \<Rightarrow> None
            | Inr (m', lines) \<Rightarrow> Some (nfts(am_pubkey nft \<mapsto> m'))))"

fun run_instructions ::
    "pubkey \<Rightarrow> anchor_entry \<Rightarrow> instruction list \<Rightarrow> (pubkey \<rightharpoonup> mint) \<Rightarrow> (pubkey \<rightharpoonup> mint) option" where
  "run_instructions program_id entry [] nfts = Some nfts"
| "run_instructions program_id entry (ix # ixs) nfts =
     Option.bind (run_instruction program_id entry ix nfts) (run_instructions program_id entry ixs)"

definition base_layer_run ::
    "pubkey \<Rightarrow> anchor_entry \<Rightarrow> legacy_message \<Rightarrow> (pubkey \<rightharpoonup> mint) \<Rightarrow> (pubkey \<rightharpoonup> mint) option" where
  "base_layer_run program_id entry message nfts =
     (case try_from_legacy message of
        Some (Inr sm) \<Rightarrow>
          Option.bind (decompile_instructions sm) (\<lambda>ixs. run_instructions program_id entry ixs nfts)
      | _ \<Rightarrow> None)"

text \<open>The two instructions of a report, written out.\<close>

definition report_ix :: "'w remote_env \<Rightarrow> string \<Rightarrow> bytes \<Rightarrow> pubkey \<Rightarrow> pubkey \<Rightarrow> pubkey \<Rightarrow> instruction" where
  "report_ix env method argument payer program_id key =
     \<lparr>ix_program_id = program_id, ix_accounts = [account_meta_new key False, account_meta_new payer False],
      ix_data = take 8 (re_sha256 env (map of_char (''global:'' @ method))) @ argument\<rparr>"

lemma status_instructions_layout:
  assumes "bincode_layout env" and "\<forall>b. length (re_sha256 env b) = 32"
  shows "status_instructions env payer program_id key v =
    Some [report_ix env ''setlocker'' (pk_bytes payer) payer program_id key,
          report_ix env ''setvalue'' (u64_le_bytes v) payer program_id key]"
  using assms by (simp add: status_instructions_def bincode_layout_def new_with_bincode_def report_ix_def
      hash_instruction_method_def str_bytes_def Let_def)

lemma new_with_blockhash_any:
  assumes "new_with_blockhash ixs p b = Some m"
  shows "new_with_blockhash ixs p b' = Some (m\<lparr>lm_recent_blockhash := b'\<rparr>)"
  using assms by (auto simp: new_with_blockhash_def split: sum.splits)

text \<open>
  Every instruction that comes back from compiling has the NFT account writable and the payer signing,
  so running the two of them takes the lock and sets the value.
\<close>

lemma run_report_ix:
  assumes "faithful ixs payer d (report_ix env method argument payer program_id key)" and "write_granted ixs payer key"
  obtains nft user where "ix_program_id d = program_id" and "ix_accounts d = [nft, user]" and "am_pubkey nft = key"
    and "am_pubkey user = payer" and "am_is_writable nft" and "payer \<in> signed_by [nft, user]"
    and "ix_data d = take 8 (re_sha256 env (map of_char (''global:'' @ method))) @ argument"
proof -
  from assms(1) have keys: "map am_pubkey (ix_accounts d) = [key, payer]"
    by (simp add: faithful_def report_ix_def account_meta_new_def)
  then obtain nft user where "ix_accounts d = [nft, user]" "am_pubkey nft = key" "am_pubkey user = payer" by auto
  with assms show thesis by (intro that [of nft user]) (auto simp: faithful_def report_ix_def signed_by_def)
qed

lemma run_report:
  assumes "anchor_dispatches (re_sha256 env) display_key entry" and "length (pk_bytes payer) = 32"
    and "list_all2 (faithful ixs payer) ds
      [report_ix env ''setlocker'' (pk_bytes payer) payer program_id key,
       report_ix env ''setvalue'' (u64_le_bytes v) payer program_id key]"
    and "write_granted ixs payer key" and "nfts key = Some m"
  shows "run_instructions program_id entry ds nfts = Some (nfts(key \<mapsto> m\<lparr>mint_level := v, mint_locker := pubkey_default\<rparr>))"
proof -
  from assms(3) obtain d e where ds: "ds = [d, e]"
      and d: "faithful ixs payer d (report_ix env ''setlocker'' (pk_bytes payer) payer program_id key)"
      and e: "faithful ixs payer e (report_ix env ''setvalue'' (u64_le_bytes v) payer program_id key)"
    by (auto simp: list_all2_Cons2)
  have "run_instruction program_id entry d nfts = Some (nfts(key \<mapsto> m\<lparr>mint_locker := payer\<rparr>))"
    using assms(1,2,5) by (rule_tac run_report_ix [OF d assms(4)])
      (simp add: run_instruction_def anchor_dispatches_def setlocker_def)
  moreover have "run_instruction program_id entry e (nfts(key \<mapsto> m\<lparr>mint_locker := payer\<rparr>)) =
      Some (nfts(key \<mapsto> m\<lparr>mint_level := v, mint_locker := pubkey_default\<rparr>))"
    using assms(1) by (rule_tac run_report_ix [OF e assms(4)])
      (simp add: run_instruction_def anchor_dispatches_def setvalue_def)
  ultimately show ?thesis by (simp add: ds)
qed

lemma first_capture_skips:
  "\<forall>line \<in> set pre. captures line = None \<Longrightarrow> first_capture captures (pre @ lines) = first_capture captures lines"
  by (induction pre) simp_all

lemma first_capture_found: "first_capture captures lines = Some v \<Longrightarrow> first_capture captures (lines @ post) = Some v"
  by (induction lines) (auto split: option.splits)

lemma report_sent:
  assumes "bincode_layout env" and "\<forall>b. length (re_sha256 env b) = 32"
    and "anchor_dispatches (re_sha256 env) display_key entry"
    and "re_keypair env (cfg_keypair_base58 (rl_config (fst s))) = Some payer" and "length (pk_bytes payer) = 32"
    and "program_id \<notin> {payer, key}" and "key \<notin> set (BUILTIN_PROGRAMS_KEYS @ ALL_IDS)"
    and "rpc_get_latest_blockhash (re_rpc env) (snd s) = (Some blockhash, w)"
  shows "\<exists>message.
    send_status_to_baselayer env program_id key v s =
      (case rpc_send_transaction (re_rpc env) message w of
         (None, w') \<Rightarrow> Some (None, fst s, w')
       | (Some signature, w') \<Rightarrow> Some (Some signature, snd (load_account_via_rpc env key (fst s, w')))) \<and>
    (\<forall>nfts m. nfts key = Some m \<longrightarrow>
       base_layer_run program_id entry message nfts =
         Some (nfts(key \<mapsto> m\<lparr>mint_level := v, mint_locker := pubkey_default\<rparr>)))"
proof -
  define ixs where "ixs = [report_ix env ''setlocker'' (pk_bytes payer) payer program_id key,
          report_ix env ''setvalue'' (u64_le_bytes v) payer program_id key]"
  have keys: "insert payer (mentioned ixs) = {payer, program_id, key}"
    by (auto simp: ixs_def mentioned_def report_ix_def account_meta_new_def)
  have "card (insert payer (mentioned ixs)) < 256" unfolding keys by (simp add: card_insert_if)
  then obtain m where m: "new_with_blockhash ixs (Some payer) hash_default = Some m" "length (lm_account_keys m) < 256"
    using compile_total by blast
  let ?message = "m\<lparr>lm_recent_blockhash := blockhash\<rparr>"
  have "send_status_to_baselayer env program_id key v s = submit_status env key m s"
    using assms(4) status_instructions_layout [OF assms(1,2)] m(1) by (simp add: send_status_to_baselayer_def ixs_def)
  then have sent: "send_status_to_baselayer env program_id key v s =
      (case rpc_send_transaction (re_rpc env) ?message w of
         (None, w') \<Rightarrow> Some (None, fst s, w')
       | (Some signature, w') \<Rightarrow> Some (Some signature, snd (load_account_via_rpc env key (fst s, w'))))"
    using assms(8) by (cases s) (simp add: submit_status_def split: prod.split option.split)
  have programs: "ix_program_id ` set ixs = {program_id}" by (auto simp: ixs_def report_ix_def)
  then obtain sm ds where sm: "try_from_legacy ?message = Some (Inr sm)" "decompile_instructions sm = Some ds"
      "list_all2 (faithful ixs payer) ds ixs"
    using compile_faithful [OF new_with_blockhash_any [OF m(1), of blockhash]] m(2) assms(6) by auto
  have granted: "write_granted ixs payer key"
    using assms(6,7) programs unfolding write_granted_def by (auto simp: ixs_def wants_def report_ix_def account_meta_new_def)
  have "base_layer_run program_id entry ?message nfts =
      Some (nfts(key \<mapsto> nft\<lparr>mint_level := v, mint_locker := pubkey_default\<rparr>))" if "nfts key = Some nft" for nfts nft
    using run_report [OF assms(3,5) _ granted, where ds = ds and program_id = program_id and v = v and nfts = nfts and m = nft]
      sm that by (simp add: base_layer_run_def flip: ixs_def)
  with sent show ?thesis by blast
qed

text \<open>
  (C17) An announced value is reported and set, given the documented behaviour of the regular expression, of
  \<^verbatim>\<open>bincode\<close>, of SHA-256 (32 bytes) and of the \<^verbatim>\<open>anchor_lang\<close> dispatch.  Take a transaction that is not a simple
  vote, whose first call of the sonic program names an account the loader has, and which logs the
  announcement of a value by \<^verbatim>\<open>fakesetvalue\<close> with no match of the regular expression before it.  Let the
  configured key pair be valid, its public key 32 bytes, and a latest blockhash be available; let the
  account be no builtin program or sysvar and differ, like the payer, from the program.  Then the bank
  sends one transaction, and reloads the account from the base layer if the RPC call accepts it.  Executed by
  the NFT program of the base layer, whatever NFT the account holds and whoever has locked it, the
  transaction leaves it at the announced value and unlocked, and changes no other.
\<close>

theorem announced_value_reported:
  assumes "captures_ok (be_captures env)" and "bincode_layout (be_remote env)"
    and "\<forall>b. length (re_sha256 (be_remote env) b) = 32"
    and "anchor_dispatches (re_sha256 (be_remote env)) display_key entry"
    and "fakesetvalue signers user v mint = Inr (mint', lines)"
    and "\<forall>line \<in> set pre. be_captures env line = None"
    and "\<not> stx_is_simple_vote tx"
    and "sonic_call (be_remote env) (fst s) (sm_account_keys (stx_message tx)) (sm_instructions (stx_message tx)) =
      Some (Some (program_id, Some key))"
    and "rl_has_account (be_remote env) (fst s) key"
    and "re_keypair (be_remote env) (cfg_keypair_base58 (rl_config (fst s))) = Some payer"
    and "length (pk_bytes payer) = 32"
    and "program_id \<notin> {payer, key}" and "key \<notin> set (BUILTIN_PROGRAMS_KEYS @ ALL_IDS)"
    and "rpc_get_latest_blockhash (re_rpc (be_remote env)) (snd s) = (Some blockhash, w)"
  shows "\<exists>message.
    post_status_to_baselayer env tx (Some (pre @ logged lines @ post)) s =
      (case rpc_send_transaction (re_rpc (be_remote env)) message w of
         (None, w') \<Rightarrow> Some (None, fst s, w')
       | (Some signature, w') \<Rightarrow> Some (Some signature, snd (load_account_via_rpc (be_remote env) key (fst s, w')))) \<and>
    (\<forall>nfts m. nfts key = Some m \<longrightarrow>
       base_layer_run program_id entry message nfts =
         Some (nfts(key \<mapsto> m\<lparr>mint_level := v, mint_locker := pubkey_default\<rparr>)))"
proof -
  have "first_capture (be_captures env) (pre @ logged lines @ post) = Some (decimal (unat v))"
    using first_capture_found [OF first_capture_announced [OF assms(1,5)]] first_capture_skips [OF assms(6)] by simp
  then have "post_status_to_baselayer env tx (Some (pre @ logged lines @ post)) s =
      send_status_to_baselayer (be_remote env) program_id key v s"
    using assms(7-9) by (simp add: post_status_to_baselayer_def parse_decimal)
  with report_sent [OF assms(2-4,10-14)] show ?thesis by simp
qed

text \<open>A regular expression search written out, and codecs that know a single value.\<close>

fun find_value :: "string \<Rightarrow> string option" where
  "find_value [] = None"
| "find_value (c # cs) =
     (if prefix FAKE_NEW_VALUE (c # cs) \<and> takeWhile is_digit (drop (length FAKE_NEW_VALUE) (c # cs)) \<noteq> []
      then Some (takeWhile is_digit (drop (length FAKE_NEW_VALUE) (c # cs)))
      else find_value cs)"

lemma captures_ok_find_value: "captures_ok find_value"
  unfolding captures_ok_def
proof (intro conjI allI impI)
  fix pre ds
  assume prems: "CHR ''F'' \<notin> set pre" "ds \<noteq> []" and digits: "\<forall>c \<in> set ds. is_digit c"
  from digits have all: "takeWhile is_digit ds = ds" by (simp add: takeWhile_eq_all_conv)
  from prems show "find_value (pre @ FAKE_NEW_VALUE @ ds) = Some ds"
    by (induction pre) (simp_all add: FAKE_NEW_VALUE_def all)
next
  fix line
  show "\<not> contains_str FAKE_NEW_VALUE line \<Longrightarrow> find_value line = None"
    by (induction line) (auto simp: contains_str_def)
qed


text \<open>
  An environment in which everything is concrete: a hash that only has the right length, the layout of
  the instructions, and an entry point that looks at the first eight bytes.
\<close>

definition demo_sha256 :: "bytes \<Rightarrow> bytes" where
  "demo_sha256 b = take 32 (rev b @ replicate 32 0)"

definition sync_demo_env :: "unit bank_env" where
  "sync_demo_env =
     \<lparr>be_remote = remote_demo_env\<lparr>
        re_rpc := \<lparr>rpc_get_account = (\<lambda>_ w. (None, w)), rpc_get_latest_blockhash = (\<lambda>w. (Some hash_default, w)),
                   rpc_send_transaction = (\<lambda>_ w. (Some [1], w))\<rparr>,
        re_keypair := (\<lambda>_. Some (demo_key 4)), re_sha256 := demo_sha256,
        re_set_value := \<lparr>c_encode = (\<lambda>x. Some (sv_instruction x @ u64_le_bytes (sv_value x))), c_decode = (\<lambda>_. None)\<rparr>,
        re_set_locker := \<lparr>c_encode = (\<lambda>x. Some (sl_instruction x @ pk_bytes (sl_locker x))), c_decode = (\<lambda>_. None)\<rparr>\<rparr>,
      be_migrater = \<lparr>c_encode = (\<lambda>_. None), c_decode = (\<lambda>_. None)\<rparr>, be_captures = find_value\<rparr>"

primrec of_le_bytes :: "bytes \<Rightarrow> u64" where
  "of_le_bytes [] = 0"
| "of_le_bytes (b # bs) = or (ucast b) (push_bit 8 (of_le_bytes bs))"

lemma of_le_bytes_take: "of_le_bytes (le_bytes n v) = take_bit (8 * n) v"
proof (induction n arbitrary: v)
  case (Suc n)
  then show ?case by (intro bit_word_eqI) (auto simp: bit_simps not_less)
qed simp

lemma of_le_bytes_u64: "of_le_bytes (u64_le_bytes v) = v"
  by (intro bit_word_eqI) (simp add: of_le_bytes_take bit_simps)

definition demo_entry :: anchor_entry where
  "demo_entry ams data m =
     (case ams of
        [nft, user] \<Rightarrow>
          if take 8 data = take 8 (demo_sha256 (map of_char ''global:setlocker''))
          then setlocker (\<lambda>_. ''key'') (signed_by ams) (am_pubkey user) (Pubkey (drop 8 data)) m
          else setvalue (\<lambda>_. ''key'') (signed_by ams) (am_pubkey user) (of_le_bytes (drop 8 data)) m
      | _ \<Rightarrow> Inl AccountNotSigner)"

lemma demo_entry_dispatches: "anchor_dispatches demo_sha256 (\<lambda>_. ''key'') demo_entry"
  by (simp add: anchor_dispatches_def demo_entry_def demo_sha256_def of_le_bytes_u64)

definition sync_demo_tx :: sanitized_transaction where
  "sync_demo_tx =
     \<lparr>stx_message = LegacyMsg
        \<lparr>clm_message =
           \<lparr>lm_header = \<lparr>mh_num_required_signatures = 1, mh_num_readonly_signed_accounts = 0,
                         mh_num_readonly_unsigned_accounts = 1\<rparr>,
            lm_account_keys = [demo_key 4, demo_key 2, demo_key 1], lm_recent_blockhash = hash_default,
            lm_instructions = [\<lparr>ci_program_id_index = 2, ci_accounts = [1], ci_data = []\<rparr>]\<rparr>,
         clm_is_writable_cache = [True, True, False]\<rparr>,
      stx_is_simple_vote = False\<rparr>"

lemma sync_demo_facts:
  "be_captures sync_demo_env = find_value" "re_sha256 (be_remote sync_demo_env) = demo_sha256"
  "bincode_layout (be_remote sync_demo_env)" "\<forall>b. length (demo_sha256 b) = 32"
  "re_keypair (be_remote sync_demo_env) name = Some (demo_key 4)" "length (pk_bytes (demo_key 4)) = 32"
  "rpc_get_latest_blockhash (re_rpc (be_remote sync_demo_env)) w = (Some hash_default, w)"
  "demo_key 1 \<notin> {demo_key 4, demo_key 2}" "\<not> stx_is_simple_vote sync_demo_tx"
  by (simp_all add: sync_demo_env_def bincode_layout_def demo_sha256_def demo_key_def sync_demo_tx_def min_def)

lemma sync_demo_present:
  "n = 1 \<or> n = 2 \<Longrightarrow> rl_has_account (be_remote sync_demo_env) (fst (sonic_demo_loader, ())) (demo_key n)"
  using demo_keys_distinct
  by (auto simp: rl_has_account_def sonic_demo_loader_def ignored_account_def contains_str_def sync_demo_env_def
      remote_demo_env_def)

lemma sync_demo_call:
  "sonic_call (be_remote sync_demo_env) (fst (sonic_demo_loader, ()))
      (sm_account_keys (stx_message sync_demo_tx)) (sm_instructions (stx_message sync_demo_tx)) =
      Some (Some (demo_key 1, Some (demo_key 2)))"
proof -
  have "is_sonic_program (be_remote sync_demo_env) (fst (sonic_demo_loader, ())) (demo_key 1)"
    using sync_demo_present [of 1] by (simp add: is_sonic_program_def sonic_demo_loader_def sync_demo_env_def remote_demo_env_def)
  then show ?thesis by (simp add: sync_demo_tx_def ak_get_def key_segments_def)
qed

lemma demo_key_not_reserved: "demo_key 2 \<notin> set (BUILTIN_PROGRAMS_KEYS @ ALL_IDS)"
  by code_simp

theorem announced_value_reported_witness:
  "\<exists>lines message. fakesetvalue {demo_key 4} (demo_key 4) 42 mint_zeroed = Inr (mint_zeroed, lines) \<and>
     post_status_to_baselayer sync_demo_env sync_demo_tx (Some ([''Program invoke''] @ logged lines @ []))
         (sonic_demo_loader, ()) =
       (case rpc_send_transaction (re_rpc (be_remote sync_demo_env)) message () of
          (None, w') \<Rightarrow> Some (None, fst (sonic_demo_loader, ()), w')
        | (Some signature, w') \<Rightarrow> Some (Some signature,
            snd (load_account_via_rpc (be_remote sync_demo_env) (demo_key 2) (fst (sonic_demo_loader, ()), w')))) \<and>
     base_layer_run (demo_key 1) demo_entry message [demo_key 2 \<mapsto> mint_zeroed\<lparr>mint_locker := demo_key 3\<rparr>] =
       Some [demo_key 2 \<mapsto> mint_zeroed\<lparr>mint_level := 42\<rparr>]"
proof -
  obtain lines where fake: "fakesetvalue {demo_key 4} (demo_key 4) 42 mint_zeroed = Inr (mint_zeroed, lines)"
    by (simp add: fakesetvalue_def)
  have skip: "\<forall>line \<in> set [''Program invoke'']. find_value line = None"
    by (simp add: FAKE_NEW_VALUE_def)
  have present: "rl_has_account (be_remote sync_demo_env) (fst (sonic_demo_loader, ())) (demo_key 2)"
    using sync_demo_present [of 2] by simp
  note env = sync_demo_facts(1,2)
  from announced_value_reported [of sync_demo_env, unfolded env, OF captures_ok_find_value sync_demo_facts(3,4)
      demo_entry_dispatches fake skip sync_demo_facts(9) sync_demo_call present
      sync_demo_facts(5,6,8) demo_key_not_reserved sync_demo_facts(7), of "[]"]
  obtain message where "post_status_to_baselayer sync_demo_env sync_demo_tx (Some ([''Program invoke''] @ logged lines @ []))
         (sonic_demo_loader, ()) =
       (case rpc_send_transaction (re_rpc (be_remote sync_demo_env)) message (snd (sonic_demo_loader, ())) of
          (None, w') \<Rightarrow> Some (None, fst (sonic_demo_loader, ()), w')
        | (Some signature, w') \<Rightarrow> Some (Some signature,
            snd (load_account_via_rpc (be_remote sync_demo_env) (demo_key 2) (fst (sonic_demo_loader, ()), w'))))"
      and run: "\<forall>nfts m. nfts (demo_key 2) = Some m \<longrightarrow> base_layer_run (demo_key 1) demo_entry message nfts =
         Some (nfts(demo_key 2 \<mapsto> m\<lparr>mint_level := 42, mint_locker := pubkey_default\<rparr>))"
    by blast
  moreover have "base_layer_run (demo_key 1) demo_entry message [demo_key 2 \<mapsto> mint_zeroed\<lparr>mint_locker := demo_key 3\<rparr>] =
       Some [demo_key 2 \<mapsto> mint_zeroed\<lparr>mint_level := 42\<rparr>]"
    using run [rule_format, of "[demo_key 2 \<mapsto> mint_zeroed\<lparr>mint_locker := demo_key 3\<rparr>]"] by (simp add: mint_zeroed_def)
  ultimately show ?thesis using fake by (auto simp only: snd_conv)
qed

end
