(* ===== verification/Rolling_Bit_Field.thy ===== *)
theory Rolling_Bit_Field
  imports Slot_History
begin

text \<open>
  The set of slots behind the ancestors of a bank and the alive roots of the accounts index
  (\<^verbatim>\<open>accounts-db/src/rolling_bit_field.rs\<close> and \<^verbatim>\<open>accounts-db/src/ancestors.rs\<close>): a ring of bits for the
  keys in a window, and a set for the keys below it.  The keys are numbers below \<open>2 ^ 64\<close>, with the
  wrap-around of additions written out; the bit vector is the interface of the slot history; the
  order of the excess list stands for the iteration order of the hash set.  \<open>None\<close> is a panic.

  Shown: the field implements a set as long as no key is inserted below the excess while the ring is
  empty, and it forgets keys otherwise.  The locale \<open>slot_set\<close> is the interface that the ancestors and the roots
  of the index rely on.
\<close>

section \<open>The bit field\<close>

record 'b rolling_bit_field =
  rbf_max_width :: nat
  rbf_min :: nat
  rbf_max_exclusive :: nat
  rbf_bits :: 'b
  rbf_count :: nat
  rbf_excess :: "nat list"

definition wrap_u64 :: "nat \<Rightarrow> nat" where
  "wrap_u64 n = n mod 2 ^ 64"

definition rbf_empty :: "'b bit_vec \<Rightarrow> nat \<Rightarrow> 'b rolling_bit_field" where
  "rbf_empty ops max_width =
     \<lparr>rbf_max_width = max_width, rbf_min = 0, rbf_max_exclusive = 0,
      rbf_bits = bv_new_fill ops False max_width, rbf_count = 0, rbf_excess = []\<rparr>"

definition rbf_new :: "'b bit_vec \<Rightarrow> nat \<Rightarrow> 'b rolling_bit_field option" where
  "rbf_new ops max_width =
     (if 0 < max_width \<and> (\<exists>k < 64. max_width = 2 ^ k)
      then Some (rbf_empty ops max_width) else None)"

definition get_address :: "'b rolling_bit_field \<Rightarrow> nat \<Rightarrow> nat" where
  "get_address r key = key mod rbf_max_width r"

definition all_items_in_excess :: "'b rolling_bit_field \<Rightarrow> bool" where
  "all_items_in_excess r \<longleftrightarrow> length (rbf_excess r) = rbf_count r"

definition contains_assume_in_range :: "'b bit_vec \<Rightarrow> 'b rolling_bit_field \<Rightarrow> nat \<Rightarrow> bool" where
  "contains_assume_in_range ops r key = bv_get ops (rbf_bits r) (get_address r key)"

definition rbf_min_item :: "'b rolling_bit_field \<Rightarrow> nat option" where
  "rbf_min_item r =
     (if rbf_count r = 0 then None
      else if rbf_excess r = [] then Some (rbf_min r)
      else if all_items_in_excess r then Some (Min (set (rbf_excess r)))
      else Some (min (rbf_min r) (Min (set (rbf_excess r)))))"

definition rbf_purge :: "'b bit_vec \<Rightarrow> nat \<Rightarrow> 'b rolling_bit_field \<Rightarrow> 'b rolling_bit_field" where
  "rbf_purge ops key r =
     (if 0 < rbf_count r \<and> \<not> all_items_in_excess r then
        (if key = rbf_min r then
           (case List.find (contains_assume_in_range ops r) [rbf_min r + 1..<rbf_max_exclusive r] of
              Some k \<Rightarrow> r\<lparr>rbf_min := k\<rparr> | None \<Rightarrow> r)
         else r)
      else r\<lparr>rbf_min := rbf_max_exclusive r\<rparr>)"

text \<open>The loop that moves the lowest items out of the window until the new maximum fits.\<close>

definition move_min :: "'b bit_vec \<Rightarrow> 'b rolling_bit_field \<Rightarrow> 'b rolling_bit_field" where
  "move_min ops r =
     rbf_purge ops (rbf_min r)
       (r\<lparr>rbf_excess := rbf_min r # rbf_excess r,
          rbf_bits := bv_set ops (rbf_bits r) (get_address r (rbf_min r)) False\<rparr>)"

function make_room :: "'b bit_vec \<Rightarrow> nat \<Rightarrow> 'b rolling_bit_field \<Rightarrow> (bool \<times> 'b rolling_bit_field) option" where
  "make_room ops new_max r =
     (if new_max - rbf_min r \<le> rbf_max_width r then Some (False, r)
      else if rbf_min r \<in> set (rbf_excess r) then None
      else if all_items_in_excess (move_min ops r) then Some (True, move_min ops r)
      else make_room ops new_max (move_min ops r))"
  by pat_completeness auto

definition reachable_mins :: "'b rolling_bit_field \<Rightarrow> nat set" where
  "reachable_mins r =
     ({rbf_min r, rbf_max_exclusive r} \<union> {rbf_min r..rbf_max_exclusive r}) - set (rbf_excess r)"

lemma find_upt:
  assumes "List.find P [a..<b] = Some k"
  shows "a \<le> k" "k < b" "P k" "\<forall>j. a \<le> j \<and> j < k \<longrightarrow> \<not> P j"
proof -
  obtain i where i: "i < b - a" "P (a + i)" "k = a + i" "\<forall>j < i. \<not> P (a + j)"
    using assms by (auto simp: find_Some_iff)
  then show "a \<le> k" "k < b" "P k" by auto
  show "\<forall>j. a \<le> j \<and> j < k \<longrightarrow> \<not> P j"
  proof (intro allI impI)
    fix j assume "a \<le> j \<and> j < k"
    then show "\<not> P j" using i(3,4) by (metis le_add_diff_inverse nat_add_left_cancel_less)
  qed
qed

lemma move_min_frame:
  "rbf_excess (move_min ops r) = rbf_min r # rbf_excess r"
  "rbf_max_exclusive (move_min ops r) = rbf_max_exclusive r"
  "rbf_max_width (move_min ops r) = rbf_max_width r"
  "rbf_count (move_min ops r) = rbf_count r"
  by (auto simp: move_min_def rbf_purge_def split: option.split)

lemma move_min_cases:
  "rbf_min (move_min ops r) \<in> {rbf_min r, rbf_max_exclusive r} \<union> {rbf_min r<..<rbf_max_exclusive r}"
  by (auto simp: move_min_def rbf_purge_def split: option.split dest: find_upt(1,2))

termination make_room
proof (relation "measure (\<lambda>(ops, new_max, r). card (reachable_mins r))", goal_cases)
  case (2 ops new_max r)
  have "reachable_mins (move_min ops r) \<subset> reachable_mins r"
    using move_min_cases [of ops r] 2(2)
    by (auto simp: reachable_mins_def move_min_frame)
  then show ?case by (simp add: psubset_card_mono reachable_mins_def)
qed simp

declare make_room.simps [simp del]

definition rbf_set_bit ::
    "'b bit_vec \<Rightarrow> nat \<Rightarrow> bool \<Rightarrow> 'b rolling_bit_field \<Rightarrow> 'b rolling_bit_field option" where
  "rbf_set_bit ops key bits_empty r =
     (if contains_assume_in_range ops r key then Some r
      else let r1 = r\<lparr>rbf_bits := bv_set ops (rbf_bits r) (get_address r key) True\<rparr>
           in if bits_empty
              then Some (r1\<lparr>rbf_min := key, rbf_max_exclusive := wrap_u64 (key + 1), rbf_count := rbf_count r + 1\<rparr>)
              else let r2 = r1\<lparr>rbf_min := min (rbf_min r) key,
                               rbf_max_exclusive := max (rbf_max_exclusive r) (wrap_u64 (key + 1))\<rparr>
                   in if rbf_max_exclusive r2 \<le> wrap_u64 (rbf_min r2 + rbf_max_width r2)
                      then Some (r2\<lparr>rbf_count := rbf_count r + 1\<rparr>) else None)"

definition rbf_insert :: "'b bit_vec \<Rightarrow> nat \<Rightarrow> 'b rolling_bit_field \<Rightarrow> 'b rolling_bit_field option" where
  "rbf_insert ops key r =
     (if rbf_count r = 0 \<or> all_items_in_excess r then rbf_set_bit ops key True r
      else if key < rbf_min r then
        Some (if key \<in> set (rbf_excess r) then r
              else r\<lparr>rbf_excess := key # rbf_excess r, rbf_count := rbf_count r + 1\<rparr>)
      else if key < rbf_max_exclusive r then rbf_set_bit ops key False r
      else Option.bind (make_room ops (wrap_u64 (key + 1)) r)
             (\<lambda>(bits_empty, r'). rbf_set_bit ops key bits_empty r'))"

definition rbf_remove :: "'b bit_vec \<Rightarrow> nat \<Rightarrow> 'b rolling_bit_field \<Rightarrow> bool \<times> 'b rolling_bit_field" where
  "rbf_remove ops key r =
     (if rbf_min r \<le> key then
        (if key < rbf_max_exclusive r then
           (if contains_assume_in_range ops r key
            then (True, rbf_purge ops key
                    (r\<lparr>rbf_count := rbf_count r - 1, rbf_bits := bv_set ops (rbf_bits r) (get_address r key) False\<rparr>))
            else (False, r))
         else (False, r))
      else if key \<in> set (rbf_excess r)
           then (True, r\<lparr>rbf_excess := remove1 key (rbf_excess r), rbf_count := rbf_count r - 1\<rparr>)
           else (False, r))"

definition rbf_contains :: "'b bit_vec \<Rightarrow> 'b rolling_bit_field \<Rightarrow> nat \<Rightarrow> bool" where
  "rbf_contains ops r key \<longleftrightarrow>
     (if key < rbf_max_exclusive r
      then (if rbf_min r \<le> key then contains_assume_in_range ops r key else key \<in> set (rbf_excess r))
      else False)"

definition rbf_max_inclusive :: "'b rolling_bit_field \<Rightarrow> nat" where
  "rbf_max_inclusive r = rbf_max_exclusive r - 1"

definition rbf_get_all_less_than :: "'b bit_vec \<Rightarrow> nat \<Rightarrow> 'b rolling_bit_field \<Rightarrow> nat list" where
  "rbf_get_all_less_than ops max_slot_exclusive r =
     filter (\<lambda>slot. slot < max_slot_exclusive) (rbf_excess r) @
     filter (contains_assume_in_range ops r)
       (takeWhile (\<lambda>key. key < max_slot_exclusive) [rbf_min r..<rbf_max_exclusive r])"

function prior_from :: "'b bit_vec \<Rightarrow> 'b rolling_bit_field \<Rightarrow> nat \<Rightarrow> nat \<Rightarrow> nat option" where
  "prior_from ops r lowest slot =
     (if rbf_contains ops r slot then Some slot
      else if slot - 1 = 0 \<or> slot - 1 < lowest then None
      else prior_from ops r lowest (slot - 1))"
  by pat_completeness auto

termination prior_from
  by (relation "measure (\<lambda>(_, _, _, slot). slot)") auto

declare prior_from.simps [simp del]

definition rbf_get_prior :: "'b bit_vec \<Rightarrow> nat \<Rightarrow> 'b rolling_bit_field \<Rightarrow> nat option" where
  "rbf_get_prior ops max_slot_exclusive r =
     (case rbf_min_item r of
        None \<Rightarrow> None | Some lowest \<Rightarrow> prior_from ops r lowest (max_slot_exclusive - 1))"

definition rbf_get_all :: "'b bit_vec \<Rightarrow> 'b rolling_bit_field \<Rightarrow> nat list" where
  "rbf_get_all ops r =
     rbf_excess r @ filter (contains_assume_in_range ops r) [rbf_min r..<rbf_max_exclusive r]"

section \<open>Ancestors\<close>

type_synonym 'b ancestors = "'b rolling_bit_field"

definition ancestors_default :: "'b bit_vec \<Rightarrow> 'b ancestors" where
  "ancestors_default ops = rbf_empty ops 8192"

definition ancestors_of_slots :: "'b bit_vec \<Rightarrow> nat list \<Rightarrow> 'b ancestors option" where
  "ancestors_of_slots ops source =
     fold (\<lambda>slot r. Option.bind r (rbf_insert ops slot)) (sort source) (Some (ancestors_default ops))"

section \<open>The field as a set\<close>

text \<open>
  The items are the excess and the keys of the window whose bit is set.  The invariant: the window is
  no wider than the ring, the excess lies below it, the count is right, the window starts with an
  item unless it has none, and a set bit belongs to an item.
\<close>

definition bit_keys :: "'b bit_vec \<Rightarrow> 'b rolling_bit_field \<Rightarrow> nat set" where
  "bit_keys ops r = {k. rbf_min r \<le> k \<and> k < rbf_max_exclusive r \<and> contains_assume_in_range ops r k}"

definition rbf_items :: "'b bit_vec \<Rightarrow> 'b rolling_bit_field \<Rightarrow> nat set" where
  "rbf_items ops r = set (rbf_excess r) \<union> bit_keys ops r"

definition rbf_shape :: "'b bit_vec \<Rightarrow> 'b rolling_bit_field \<Rightarrow> bool" where
  "rbf_shape ops r \<longleftrightarrow>
     0 < rbf_max_width r \<and> bv_len ops (rbf_bits r) = rbf_max_width r \<and>
     rbf_max_exclusive r \<le> rbf_min r + rbf_max_width r \<and> distinct (rbf_excess r) \<and>
     rbf_count r = length (rbf_excess r) + card (bit_keys ops r) \<and>
     (\<forall>j < rbf_max_width r. bv_get ops (rbf_bits r) j \<longrightarrow> (\<exists>k \<in> bit_keys ops r. get_address r k = j))"

definition rbf_inv :: "'b bit_vec \<Rightarrow> 'b rolling_bit_field \<Rightarrow> bool" where
  "rbf_inv ops r \<longleftrightarrow>
     rbf_shape ops r \<and> rbf_min r \<le> rbf_max_exclusive r \<and> (\<forall>e \<in> set (rbf_excess r). e < rbf_min r) \<and>
     (bit_keys ops r = {} \<longrightarrow> rbf_min r = rbf_max_exclusive r) \<and>
     (bit_keys ops r \<noteq> {} \<longrightarrow> rbf_min r \<in> bit_keys ops r)"

lemma bit_keys_finite [simp]: "finite (bit_keys ops r)"
  by (rule finite_subset [of _ "{..<rbf_max_exclusive r}"]) (auto simp: bit_keys_def)

lemma address_inj:
  assumes "a mod w = b mod w" and "m \<le> a" "a < m + w" "m \<le> b" "b < m + (w :: nat)"
  shows "a = b"
  using assms mod_window [of a b w] mod_window [of b a w] by (metis (no_types, lifting) add_le_mono1 le_less_trans less_le_trans nat_neq_iff)

lemma all_excess_iff: "rbf_shape ops r \<Longrightarrow> all_items_in_excess r \<longleftrightarrow> bit_keys ops r = {}"
  by (simp add: rbf_shape_def all_items_in_excess_def)

lemma bits_empty_iff: "rbf_shape ops r \<Longrightarrow> (rbf_count r = 0 \<or> all_items_in_excess r) \<longleftrightarrow> bit_keys ops r = {}"
  using all_excess_iff by (auto simp: rbf_shape_def)

lemma clear_bit:
  fixes ops :: "'b bit_vec"
  assumes "bit_vec_laws ops" and "rbf_shape ops r" and "key \<in> bit_keys ops r"
    and b: "b = bv_set ops (rbf_bits r) (get_address r key) False"
  shows "bit_keys ops (r\<lparr>rbf_bits := b\<rparr>) = bit_keys ops r - {key}" and "bv_len ops b = rbf_max_width r"
    and "\<forall>j < rbf_max_width r. bv_get ops b j \<longrightarrow> (\<exists>k \<in> bit_keys ops r - {key}. get_address r k = j)"
proof -
  have w: "0 < rbf_max_width r" "bv_len ops (rbf_bits r) = rbf_max_width r"
      "rbf_max_exclusive r \<le> rbf_min r + rbf_max_width r"
      "\<forall>j < rbf_max_width r. bv_get ops (rbf_bits r) j \<longrightarrow> (\<exists>k \<in> bit_keys ops r. get_address r k = j)"
    using assms(2) by (simp_all add: rbf_shape_def)
  have addr: "get_address r k < rbf_max_width r" for k using w(1) by (simp add: get_address_def)
  have inj: "k = key" if "get_address r k = get_address r key" "rbf_min r \<le> k" "k < rbf_max_exclusive r" for k
    using address_inj [of k "rbf_max_width r" key "rbf_min r"] that assms(3) w(3) by (simp add: bit_keys_def get_address_def)
  have get: "bv_get ops b j = (if j = get_address r key then False else bv_get ops (rbf_bits r) j)"
    if "j < rbf_max_width r" for j
    using bv_set_laws(2) [OF assms(1), of "get_address r key" "rbf_bits r" j False] addr w(2) that b by simp
  show "bit_keys ops (r\<lparr>rbf_bits := b\<rparr>) = bit_keys ops r - {key}"
    using addr inj by (auto simp: bit_keys_def contains_assume_in_range_def get_address_def get)
  show "bv_len ops b = rbf_max_width r"
    using bv_set_laws(1) [OF assms(1), of "get_address r key" "rbf_bits r" False] addr w(2) b by simp
  show "\<forall>j < rbf_max_width r. bv_get ops b j \<longrightarrow> (\<exists>k \<in> bit_keys ops r - {key}. get_address r k = j)"
    using w(4) get by auto
qed

lemma purge_restores:
  assumes "rbf_shape ops r" and "rbf_min r < rbf_max_exclusive r" and "key \<notin> bit_keys ops r"
    and "\<forall>e \<in> set (rbf_excess r). e < rbf_min r \<or> e = key" and "key \<noteq> rbf_min r \<longrightarrow> rbf_min r \<in> bit_keys ops r"
    and "key \<in> set (rbf_excess r) \<longrightarrow> key = rbf_min r"
  shows "rbf_inv ops (rbf_purge ops key r) \<and> bit_keys ops (rbf_purge ops key r) = bit_keys ops r \<and>
    rbf_excess (rbf_purge ops key r) = rbf_excess r"
proof (cases "bit_keys ops r = {}")
  case True
  then have purge: "rbf_purge ops key r = r\<lparr>rbf_min := rbf_max_exclusive r\<rparr>"
    using all_excess_iff [OF assms(1)] by (simp add: rbf_purge_def)
  have keys: "bit_keys ops (r\<lparr>rbf_min := rbf_max_exclusive r\<rparr>) = {}" by (auto simp: bit_keys_def)
  have "rbf_shape ops (r\<lparr>rbf_min := rbf_max_exclusive r\<rparr>)"
    using assms(1) keys True by (auto simp: rbf_shape_def)
  then show ?thesis using purge keys True assms(2,4,6) by (auto simp: rbf_inv_def)
next
  case False
  have count: "0 < rbf_count r \<and> \<not> all_items_in_excess r"
    using False all_excess_iff [OF assms(1)] bits_empty_iff [OF assms(1)] by auto
  show ?thesis
  proof (cases "key = rbf_min r")
    case True
    have above: "\<forall>k \<in> bit_keys ops r. rbf_min r < k"
      using assms(3) True by (metis (no_types, lifting) bit_keys_def le_neq_implies_less mem_Collect_eq)
    then obtain k where k: "List.find (contains_assume_in_range ops r) [rbf_min r + 1..<rbf_max_exclusive r] = Some k"
      using False by (cases "List.find (contains_assume_in_range ops r) [rbf_min r + 1..<rbf_max_exclusive r]")
        (fastforce simp: find_None_iff bit_keys_def)+
    have purge: "rbf_purge ops key r = r\<lparr>rbf_min := k\<rparr>" using k count True by (simp add: rbf_purge_def)
    have keys: "bit_keys ops (r\<lparr>rbf_min := k\<rparr>) = bit_keys ops r"
      using find_upt [OF k] above by (auto simp: bit_keys_def contains_assume_in_range_def get_address_def not_less [symmetric] Suc_le_eq)
    have "rbf_shape ops (r\<lparr>rbf_min := k\<rparr>)"
      using assms(1) keys find_upt(1) [OF k] by (auto simp: rbf_shape_def get_address_def)
    moreover have "k \<in> bit_keys ops (r\<lparr>rbf_min := k\<rparr>)"
      using find_upt [OF k] by (simp add: bit_keys_def contains_assume_in_range_def get_address_def)
    ultimately show ?thesis
      using purge keys find_upt(1,2) [OF k] assms(4) True by (fastforce simp: rbf_inv_def)
  next
    case key: False
    then have "rbf_purge ops key r = r" using count by (simp add: rbf_purge_def)
    then show ?thesis using assms key False by (auto simp: rbf_inv_def)
  qed
qed

lemma move_min_inv:
  assumes "bit_vec_laws ops" and "rbf_inv ops r" and "bit_keys ops r \<noteq> {}"
  shows "rbf_inv ops (move_min ops r) \<and> rbf_items ops (move_min ops r) = rbf_items ops r"
proof -
  let ?b = "bv_set ops (rbf_bits r) (get_address r (rbf_min r)) False"
  let ?r = "r\<lparr>rbf_excess := rbf_min r # rbf_excess r, rbf_bits := ?b\<rparr>"
  have shape: "rbf_shape ops r" and m: "rbf_min r \<in> bit_keys ops r" and below: "\<forall>e \<in> set (rbf_excess r). e < rbf_min r"
    using assms(2,3) by (simp_all add: rbf_inv_def)
  note cleared = clear_bit [OF assms(1) shape m refl]
  have keys: "bit_keys ops ?r = bit_keys ops r - {rbf_min r}"
    using cleared(1) by (simp add: bit_keys_def contains_assume_in_range_def get_address_def)
  have "rbf_shape ops ?r"
    using shape keys cleared(2,3) m below card_Suc_Diff1 [OF bit_keys_finite m]
    by (auto simp: rbf_shape_def get_address_def)
  then have "rbf_inv ops (move_min ops r) \<and> bit_keys ops (move_min ops r) = bit_keys ops ?r \<and>
      rbf_excess (move_min ops r) = rbf_excess ?r"
    using purge_restores [of ops ?r "rbf_min r"] keys below m by (auto simp: move_min_def bit_keys_def)
  then show ?thesis using keys m by (auto simp: rbf_items_def)
qed

definition room_made :: "'b bit_vec \<Rightarrow> nat \<Rightarrow> 'b rolling_bit_field \<Rightarrow> bool \<Rightarrow> 'b rolling_bit_field \<Rightarrow> bool" where
  "room_made ops key r bits_empty r' \<longleftrightarrow>
     rbf_inv ops r' \<and> rbf_items ops r' = rbf_items ops r \<and> rbf_max_width r' = rbf_max_width r \<and>
     rbf_max_exclusive r' = rbf_max_exclusive r \<and>
     (if bits_empty then bit_keys ops r' = {} else bit_keys ops r' \<noteq> {} \<and> key < rbf_min r' + rbf_max_width r')"

lemma make_room_inv:
  assumes "bit_vec_laws ops" and "rbf_inv ops r" and "bit_keys ops r \<noteq> {}" and "new_max = key + 1"
  shows "\<exists>bits_empty r'. make_room ops new_max r = Some (bits_empty, r') \<and> room_made ops key r bits_empty r'"
  using assms
proof (induction ops new_max r rule: make_room.induct)
  case (1 ops new_max r)
  have fresh: "rbf_min r \<notin> set (rbf_excess r)" using "1.prems"(2) by (auto simp: rbf_inv_def)
  note moved = move_min_inv [OF "1.prems"(1,2,3)]
  have empty: "all_items_in_excess (move_min ops r) \<longleftrightarrow> bit_keys ops (move_min ops r) = {}"
    using moved by (simp add: rbf_inv_def all_excess_iff)
  consider (fits) "new_max - rbf_min r \<le> rbf_max_width r"
    | (last) "\<not> new_max - rbf_min r \<le> rbf_max_width r" "all_items_in_excess (move_min ops r)"
    | (more) "\<not> new_max - rbf_min r \<le> rbf_max_width r" "\<not> all_items_in_excess (move_min ops r)"
    by blast
  then show ?case
  proof cases
    case fits
    then have "make_room ops new_max r = Some (False, r)" by (simp add: make_room.simps)
    moreover have "room_made ops key r False r" using fits "1.prems" by (auto simp: room_made_def)
    ultimately show ?thesis by blast
  next
    case last
    then have "make_room ops new_max r = Some (True, move_min ops r)"
      using fresh by (simp add: make_room.simps [of ops new_max r])
    moreover have "room_made ops key r True (move_min ops r)"
      using last empty moved by (simp add: room_made_def move_min_frame)
    ultimately show ?thesis by blast
  next
    case more
    then have "make_room ops new_max r = make_room ops new_max (move_min ops r)"
      using fresh by (simp add: make_room.simps [of ops new_max r])
    moreover obtain be r' where "make_room ops new_max (move_min ops r) = Some (be, r')"
        "room_made ops key (move_min ops r) be r'"
      using "1.IH" [OF more(1) fresh more(2) "1.prems"(1)] moved empty more(2) "1.prems"(4) by blast
    ultimately show ?thesis using moved by (auto simp: room_made_def move_min_frame)
  qed
qed

lemma set_bit_empty:
  assumes "bit_vec_laws ops" and "rbf_inv ops r" and "bit_keys ops r = {}"
    and "\<forall>e \<in> set (rbf_excess r). e < key" and "key + 1 < 2 ^ 64"
  shows "\<exists>r'. rbf_set_bit ops key True r = Some r' \<and> rbf_inv ops r' \<and>
    rbf_items ops r' = insert key (rbf_items ops r) \<and> rbf_max_width r' = rbf_max_width r \<and> bit_keys ops r' \<noteq> {}"
proof -
  let ?b = "bv_set ops (rbf_bits r) (get_address r key) True"
  let ?r = "r\<lparr>rbf_bits := ?b, rbf_min := key, rbf_max_exclusive := key + 1, rbf_count := rbf_count r + 1\<rparr>"
  have w: "0 < rbf_max_width r" "bv_len ops (rbf_bits r) = rbf_max_width r" "distinct (rbf_excess r)"
      "rbf_count r = length (rbf_excess r)" "\<forall>j < rbf_max_width r. \<not> bv_get ops (rbf_bits r) j"
    using assms(2,3) by (auto simp: rbf_inv_def rbf_shape_def)
  have addr: "get_address r key < rbf_max_width r" using w(1) by (simp add: get_address_def)
  have get: "bv_get ops ?b j = (j = get_address r key)" if "j < rbf_max_width r" for j
    using bv_set_laws(2) [OF assms(1), of "get_address r key" "rbf_bits r" j True] addr w(2,5) that by simp
  have len: "bv_len ops ?b = rbf_max_width r"
    using bv_set_laws(1) [OF assms(1), of "get_address r key" "rbf_bits r" True] addr w(2) by simp
  have run: "rbf_set_bit ops key True r = Some ?r"
    using w(5) addr assms(5) by (simp add: rbf_set_bit_def contains_assume_in_range_def wrap_u64_def Let_def)
  have keys: "bit_keys ops ?r = {key}"
    using get [OF addr] by (auto simp: bit_keys_def contains_assume_in_range_def get_address_def)
  have "rbf_inv ops ?r"
    using keys w len get assms(4) by (auto simp: rbf_inv_def rbf_shape_def get_address_def)
  then show ?thesis using run keys assms(3) by (auto simp: rbf_items_def)
qed

lemma set_bit_in_window:
  assumes "bit_vec_laws ops" and "rbf_inv ops r" and "bit_keys ops r \<noteq> {}" and "rbf_min r \<le> key"
    and "key < rbf_min r + rbf_max_width r" and "key + rbf_max_width r < 2 ^ 64"
  shows "\<exists>r'. rbf_set_bit ops key False r = Some r' \<and> rbf_inv ops r' \<and>
    rbf_items ops r' = insert key (rbf_items ops r) \<and> rbf_max_width r' = rbf_max_width r \<and> bit_keys ops r' \<noteq> {}"
proof -
  let ?b = "bv_set ops (rbf_bits r) (get_address r key) True"
  let ?r = "r\<lparr>rbf_bits := ?b, rbf_max_exclusive := max (rbf_max_exclusive r) (key + 1), rbf_count := rbf_count r + 1\<rparr>"
  have shape: "rbf_shape ops r" using assms(2) by (simp add: rbf_inv_def)
  have w: "0 < rbf_max_width r" "bv_len ops (rbf_bits r) = rbf_max_width r" "rbf_max_exclusive r \<le> rbf_min r + rbf_max_width r"
      "\<forall>j < rbf_max_width r. bv_get ops (rbf_bits r) j \<longrightarrow> (\<exists>k \<in> bit_keys ops r. get_address r k = j)"
    using shape by (simp_all add: rbf_shape_def)
  have addr: "get_address r k < rbf_max_width r" for k using w(1) by (simp add: get_address_def)
  have inj: "a = b" if "get_address r a = get_address r b" "rbf_min r \<le> a" "a < rbf_min r + rbf_max_width r"
      "rbf_min r \<le> b" "b < rbf_min r + rbf_max_width r" for a b
    using address_inj [of a "rbf_max_width r" b "rbf_min r"] that by (simp add: get_address_def)
  have window: "rbf_min r \<le> k \<and> k < rbf_min r + rbf_max_width r" if "k \<in> bit_keys ops r" for k
    using that w(3) by (auto simp: bit_keys_def)
  have known: "contains_assume_in_range ops r k \<longleftrightarrow> k \<in> bit_keys ops r"
    if "rbf_min r \<le> k" "k < rbf_min r + rbf_max_width r" for k
  proof
    assume "contains_assume_in_range ops r k"
    then obtain k' where "k' \<in> bit_keys ops r" "get_address r k' = get_address r k"
      using w(4) addr [of k] unfolding contains_assume_in_range_def by blast
    then show "k \<in> bit_keys ops r" using inj [of k' k] window that by blast
  qed (simp add: bit_keys_def)
  show ?thesis
  proof (cases "contains_assume_in_range ops r key")
    case True
    then have "key \<in> bit_keys ops r" using known [OF assms(4,5)] by simp
    then show ?thesis using True assms(2) by (auto simp: rbf_set_bit_def rbf_items_def)
  next
    case False
    have get: "bv_get ops ?b j = (j = get_address r key \<or> bv_get ops (rbf_bits r) j)" if "j < rbf_max_width r" for j
      using bv_set_laws(2) [OF assms(1), of "get_address r key" "rbf_bits r" j True] addr w(2) that by auto
    have len: "bv_len ops ?b = rbf_max_width r"
      using bv_set_laws(1) [OF assms(1), of "get_address r key" "rbf_bits r" True] addr w(2) by simp
    have run: "rbf_set_bit ops key False r = Some ?r"
      using False assms(4-6) w(1,3) by (simp add: rbf_set_bit_def wrap_u64_def min_def Let_def)
    have "k \<in> bit_keys ops ?r \<longleftrightarrow> k = key \<or> k \<in> bit_keys ops r" for k
    proof -
      have "k \<in> bit_keys ops ?r \<longleftrightarrow> rbf_min r \<le> k \<and> (k < rbf_max_exclusive r \<or> k < key + 1) \<and>
          (get_address r k = get_address r key \<or> contains_assume_in_range ops r k)"
        using get [OF addr [of k]] by (auto simp: bit_keys_def contains_assume_in_range_def get_address_def)
      also have "\<dots> \<longleftrightarrow> k = key \<or> k \<in> bit_keys ops r"
      proof
        assume k: "rbf_min r \<le> k \<and> (k < rbf_max_exclusive r \<or> k < key + 1) \<and>
          (get_address r k = get_address r key \<or> contains_assume_in_range ops r k)"
        then have "k < rbf_min r + rbf_max_width r" using assms(5) w(3) by linarith
        with k show "k = key \<or> k \<in> bit_keys ops r" using inj [of k key] known [of k] assms(4,5) by blast
      next
        assume "k = key \<or> k \<in> bit_keys ops r"
        then show "rbf_min r \<le> k \<and> (k < rbf_max_exclusive r \<or> k < key + 1) \<and>
          (get_address r k = get_address r key \<or> contains_assume_in_range ops r k)"
          using assms(4) by (auto simp: bit_keys_def)
      qed
      finally show ?thesis .
    qed
    then have keys: "bit_keys ops ?r = insert key (bit_keys ops r)" by blast
    have "key \<notin> bit_keys ops r" using False known [OF assms(4,5)] by simp
    then have count: "rbf_count r + 1 = length (rbf_excess r) + card (bit_keys ops ?r)"
      using shape unfolding keys by (simp add: rbf_shape_def)
    have "\<exists>k \<in> bit_keys ops ?r. get_address r k = j" if "j < rbf_max_width r" "bv_get ops ?b j" for j
      using get [OF that(1)] that w(4) unfolding keys by blast
    then have "rbf_shape ops ?r"
      using w len count assms(5) shape by (simp add: rbf_shape_def get_address_def)
    then have "rbf_inv ops ?r" using keys assms(2,3) by (auto simp: rbf_inv_def bit_keys_def)
    then show ?thesis using run keys by (auto simp: rbf_items_def)
  qed
qed

lemma rbf_insert_items:
  assumes "bit_vec_laws ops" and "rbf_inv ops r" and "key + rbf_max_width r < 2 ^ 64"
    and "bit_keys ops r = {} \<longrightarrow> (\<forall>e \<in> set (rbf_excess r). e < key)"
  shows "\<exists>r'. rbf_insert ops key r = Some r' \<and> rbf_inv ops r' \<and>
    rbf_items ops r' = insert key (rbf_items ops r) \<and> rbf_max_width r' = rbf_max_width r \<and> bit_keys ops r' \<noteq> {}"
proof (cases "bit_keys ops r = {}")
  case True
  have shape: "rbf_shape ops r" using assms(2) by (simp add: rbf_inv_def)
  have "key + 1 < 2 ^ 64" using assms(3) shape by (simp add: rbf_shape_def)
  then show ?thesis
    using set_bit_empty [OF assms(1,2) True] assms(4) True bits_empty_iff [OF shape] by (simp add: rbf_insert_def)
next
  case False
  have shape: "rbf_shape ops r" and below: "\<forall>e \<in> set (rbf_excess r). e < rbf_min r"
    using assms(2) by (simp_all add: rbf_inv_def)
  have nonempty: "\<not> (rbf_count r = 0 \<or> all_items_in_excess r)" using False bits_empty_iff [OF shape] by simp
  have wrap: "wrap_u64 (key + 1) = key + 1" using assms(3) shape by (simp add: wrap_u64_def rbf_shape_def)
  consider (low) "key < rbf_min r" | (fits) "rbf_min r \<le> key" "key < rbf_max_exclusive r"
    | (high) "rbf_min r \<le> key" "rbf_max_exclusive r \<le> key"
    by linarith
  then show ?thesis
  proof cases
    case low
    let ?r = "if key \<in> set (rbf_excess r) then r
              else r\<lparr>rbf_excess := key # rbf_excess r, rbf_count := rbf_count r + 1\<rparr>"
    have "rbf_insert ops key r = Some ?r" using nonempty low by (simp add: rbf_insert_def)
    moreover have keys: "bit_keys ops ?r = bit_keys ops r"
      by (simp add: bit_keys_def contains_assume_in_range_def get_address_def)
    moreover have "rbf_inv ops ?r"
      using assms(2) low keys by (auto simp: rbf_inv_def rbf_shape_def get_address_def)
    ultimately show ?thesis using False by (auto simp: rbf_items_def)
  next
    case fits
    moreover from fits have "key < rbf_min r + rbf_max_width r" using shape by (simp add: rbf_shape_def)
    ultimately show ?thesis
      using set_bit_in_window [OF assms(1,2) False] nonempty assms(3) by (simp add: rbf_insert_def)
  next
    case high
    obtain bits_empty r1 where room: "make_room ops (key + 1) r = Some (bits_empty, r1)" "room_made ops key r bits_empty r1"
      using make_room_inv [OF assms(1,2) False refl] by blast
    have insert: "rbf_insert ops key r = rbf_set_bit ops key bits_empty r1"
      using nonempty high wrap room(1) by (simp add: rbf_insert_def)
    have r1: "rbf_inv ops r1" "rbf_items ops r1 = rbf_items ops r" "rbf_max_width r1 = rbf_max_width r"
        "rbf_max_exclusive r1 \<le> key"
      using room(2) high by (simp_all add: room_made_def)
    then have low: "rbf_min r1 \<le> key" by (simp add: rbf_inv_def)
    show ?thesis
    proof (cases bits_empty)
      case True
      have "\<forall>e \<in> set (rbf_excess r1). e < key" using r1(1) low by (force simp: rbf_inv_def)
      moreover have "key + 1 < 2 ^ 64" using assms(3) shape by (simp add: rbf_shape_def)
      ultimately show ?thesis
        using set_bit_empty [OF assms(1) r1(1)] True insert r1(2,3) room(2) by (simp add: room_made_def)
    next
      case nofit: False
      then show ?thesis
        using set_bit_in_window [OF assms(1) r1(1) _ low] insert r1(2,3) room(2) assms(3) by (simp add: room_made_def)
    qed
  qed
qed

lemma rbf_remove_items:
  assumes "bit_vec_laws ops" and "rbf_inv ops r"
  shows "fst (rbf_remove ops key r) \<longleftrightarrow> key \<in> rbf_items ops r" and "rbf_inv ops (snd (rbf_remove ops key r))"
    and "rbf_items ops (snd (rbf_remove ops key r)) = rbf_items ops r - {key}"
proof -
  have shape: "rbf_shape ops r" and below: "\<forall>e \<in> set (rbf_excess r). e < rbf_min r"
      and start: "bit_keys ops r \<noteq> {} \<longrightarrow> rbf_min r \<in> bit_keys ops r"
    using assms(2) by (simp_all add: rbf_inv_def)
  have "(fst (rbf_remove ops key r) \<longleftrightarrow> key \<in> rbf_items ops r) \<and> rbf_inv ops (snd (rbf_remove ops key r)) \<and>
    rbf_items ops (snd (rbf_remove ops key r)) = rbf_items ops r - {key}"
  proof (cases "key \<in> bit_keys ops r")
    case True
    let ?b = "bv_set ops (rbf_bits r) (get_address r key) False"
    let ?r = "r\<lparr>rbf_count := rbf_count r - 1, rbf_bits := ?b\<rparr>"
    have range: "rbf_min r \<le> key" "key < rbf_max_exclusive r" "contains_assume_in_range ops r key"
      using True by (simp_all add: bit_keys_def)
    note cleared = clear_bit [OF assms(1) shape True refl]
    have keys: "bit_keys ops ?r = bit_keys ops r - {key}"
      using cleared(1) by (simp add: bit_keys_def contains_assume_in_range_def get_address_def)
    have "rbf_shape ops ?r"
      using shape keys cleared(2,3) True card_Suc_Diff1 [OF bit_keys_finite True]
      by (auto simp: rbf_shape_def get_address_def)
    then have "rbf_inv ops (rbf_purge ops key ?r) \<and> bit_keys ops (rbf_purge ops key ?r) = bit_keys ops ?r \<and>
        rbf_excess (rbf_purge ops key ?r) = rbf_excess ?r"
      using range below start True keys by (intro purge_restores) auto
    moreover have "rbf_remove ops key r = (True, rbf_purge ops key ?r)" using range by (simp add: rbf_remove_def)
    moreover have "key \<notin> set (rbf_excess r)" using range(1) below by force
    ultimately show ?thesis using keys True by (auto simp: rbf_items_def)
  next
    case absent: False
    show ?thesis
    proof (cases "key \<in> set (rbf_excess r)")
      case True
      let ?r = "r\<lparr>rbf_excess := remove1 key (rbf_excess r), rbf_count := rbf_count r - 1\<rparr>"
      have keys: "bit_keys ops ?r = bit_keys ops r"
        by (simp add: bit_keys_def contains_assume_in_range_def get_address_def)
      have "length (rbf_excess r) = Suc (length (remove1 key (rbf_excess r)))"
        using True length_pos_if_in_set [OF True] by (simp add: length_remove1)
      then have "rbf_shape ops ?r" using shape keys by (auto simp: rbf_shape_def get_address_def)
      moreover have "\<forall>e \<in> set (remove1 key (rbf_excess r)). e < rbf_min r"
        using below set_remove1_subset [of key "rbf_excess r"] by blast
      ultimately have "rbf_inv ops ?r" using assms(2) keys by (simp add: rbf_inv_def)
      moreover have "rbf_remove ops key r = (True, ?r)" using True below by (auto simp: rbf_remove_def)
      moreover have "set (remove1 key (rbf_excess r)) = set (rbf_excess r) - {key}"
        using shape by (simp add: rbf_shape_def)
      ultimately show ?thesis using keys True absent by (auto simp: rbf_items_def)
    next
      case False
      then have "rbf_remove ops key r = (False, r)" using absent by (auto simp: rbf_remove_def bit_keys_def)
      then show ?thesis using assms(2) absent False by (auto simp: rbf_items_def)
    qed
  qed
  then show "fst (rbf_remove ops key r) \<longleftrightarrow> key \<in> rbf_items ops r" "rbf_inv ops (snd (rbf_remove ops key r))"
    "rbf_items ops (snd (rbf_remove ops key r)) = rbf_items ops r - {key}"
    by auto
qed

lemma rbf_contains_iff:
  assumes "rbf_inv ops r"
  shows "rbf_contains ops r key \<longleftrightarrow> key \<in> rbf_items ops r"
proof -
  have "key \<in> set (rbf_excess r) \<Longrightarrow> key < rbf_min r \<and> key < rbf_max_exclusive r"
    using assms less_le_trans unfolding rbf_inv_def by blast
  then show ?thesis by (auto simp: rbf_contains_def rbf_items_def bit_keys_def)
qed

lemma rbf_count_card:
  assumes "rbf_inv ops r"
  shows "rbf_count r = card (rbf_items ops r)"
proof -
  have "set (rbf_excess r) \<inter> bit_keys ops r = {}"
    using assms not_less unfolding rbf_inv_def bit_keys_def by blast
  then show ?thesis
    using assms by (simp add: rbf_items_def card_Un_disjoint rbf_inv_def rbf_shape_def distinct_card)
qed

lemma rbf_get_all_items: "set (rbf_get_all ops r) = rbf_items ops r"
  by (auto simp: rbf_get_all_def rbf_items_def bit_keys_def)

lemma rbf_empty_inv:
  assumes "bit_vec_laws ops" and "0 < w"
  shows "rbf_inv ops (rbf_empty ops w)" and "rbf_items ops (rbf_empty ops w) = {}"
  using assms by (auto simp: rbf_inv_def rbf_shape_def rbf_empty_def rbf_items_def bit_keys_def bit_vec_laws_def)

text \<open>
  What the users of the field rely on: a set of slots whose additions may need a condition.  Members,
  additions and removals are those of a set.
\<close>

locale slot_set =
  fixes ok :: "'r \<Rightarrow> bool" and items :: "'r \<Rightarrow> nat set" and member :: "'r \<Rightarrow> nat \<Rightarrow> bool"
    and fits :: "nat \<Rightarrow> 'r \<Rightarrow> bool" and add :: "nat \<Rightarrow> 'r \<Rightarrow> 'r option" and remove :: "nat \<Rightarrow> 'r \<Rightarrow> bool \<times> 'r"
  assumes member_items: "ok r \<Longrightarrow> member r k \<longleftrightarrow> k \<in> items r"
    and add_items: "ok r \<Longrightarrow> fits k r \<Longrightarrow> \<exists>r'. add k r = Some r' \<and> ok r' \<and> items r' = insert k (items r)"
    and remove_items: "ok r \<Longrightarrow> (fst (remove k r) \<longleftrightarrow> k \<in> items r) \<and> ok (snd (remove k r)) \<and>
      items (snd (remove k r)) = items r - {k}"
begin

lemma add_member:
  assumes "ok r" and "fits k r"
  shows "\<exists>r'. add k r = Some r' \<and> ok r' \<and> (\<forall>j. member r' j \<longleftrightarrow> j = k \<or> member r j)"
proof -
  obtain r' where r': "add k r = Some r'" "ok r'" "items r' = insert k (items r)" using add_items [OF assms] by blast
  then show ?thesis using member_items [OF r'(2)] member_items [OF assms(1)] by simp
qed

lemma remove_member:
  assumes "ok r"
  shows "fst (remove k r) = member r k" and "ok (snd (remove k r))"
    and "member (snd (remove k r)) j \<longleftrightarrow> member r j \<and> j \<noteq> k"
proof -
  show ok: "ok (snd (remove k r))" and "fst (remove k r) = member r k"
    using remove_items [OF assms, of k] member_items [OF assms] by simp_all
  show "member (snd (remove k r)) j \<longleftrightarrow> member r j \<and> j \<noteq> k"
    using remove_items [OF assms, of k] member_items [OF assms] member_items [OF ok] by simp
qed

end

definition rbf_fits :: "'b bit_vec \<Rightarrow> nat \<Rightarrow> 'b rolling_bit_field \<Rightarrow> bool" where
  "rbf_fits ops key r \<longleftrightarrow>
     key + rbf_max_width r < 2 ^ 64 \<and> (bit_keys ops r = {} \<longrightarrow> (\<forall>e \<in> set (rbf_excess r). e < key))"

interpretation rolling: slot_set "\<lambda>r. bit_vec_laws ops \<and> rbf_inv ops r" "rbf_items ops" "rbf_contains ops"
  "rbf_fits ops" "rbf_insert ops" "rbf_remove ops" for ops
proof (unfold_locales, goal_cases)
  case (1 r k)
  then show ?case using rbf_contains_iff by blast
next
  case (2 r k)
  then show ?case using rbf_insert_items [of ops r k] by (auto simp: rbf_fits_def)
next
  case (3 r k)
  then show ?case using rbf_remove_items [of ops r k] by blast
qed

text \<open>
  (C31) The rolling bit field implements a set of keys: a new field is empty; inserting a key adds it and
  never panics, also when the window has to move, as long as the key is not below an excess key while
  the window is empty; removing a key removes it and tells whether it was there; membership, the
  number of items and their enumeration are those of the set.
\<close>

theorem rolling_bit_field_refines:
  assumes "bit_vec_laws ops"
  shows "(rbf_new ops w = Some new \<longrightarrow> rbf_inv ops new \<and> rbf_items ops new = {}) \<and>
    (rbf_inv ops r \<and> key + rbf_max_width r < 2 ^ 64 \<and>
       (bit_keys ops r = {} \<longrightarrow> (\<forall>e \<in> set (rbf_excess r). e < key)) \<longrightarrow>
       (\<exists>r'. rbf_insert ops key r = Some r' \<and> rbf_inv ops r' \<and> rbf_items ops r' = insert key (rbf_items ops r))) \<and>
    (rbf_inv ops r \<longrightarrow>
       (fst (rbf_remove ops key r) \<longleftrightarrow> key \<in> rbf_items ops r) \<and> rbf_inv ops (snd (rbf_remove ops key r)) \<and>
       rbf_items ops (snd (rbf_remove ops key r)) = rbf_items ops r - {key} \<and>
       (rbf_contains ops r key \<longleftrightarrow> key \<in> rbf_items ops r) \<and>
       rbf_count r = card (rbf_items ops r) \<and> set (rbf_get_all ops r) = rbf_items ops r)"
proof (intro conjI impI)
  assume "rbf_new ops w = Some new"
  then have "new = rbf_empty ops w" "0 < w" by (auto simp: rbf_new_def split: if_splits)
  then show "rbf_inv ops new" "rbf_items ops new = {}" using rbf_empty_inv [OF assms] by simp_all
next
  assume "rbf_inv ops r \<and> key + rbf_max_width r < 2 ^ 64 \<and>
    (bit_keys ops r = {} \<longrightarrow> (\<forall>e \<in> set (rbf_excess r). e < key))"
  then show "\<exists>r'. rbf_insert ops key r = Some r' \<and> rbf_inv ops r' \<and> rbf_items ops r' = insert key (rbf_items ops r)"
    using rbf_insert_items [OF assms] by blast
qed (simp_all add: rbf_remove_items [OF assms] rbf_contains_iff rbf_count_card rbf_get_all_items)

theorem rolling_bit_field_refines_witness:
  "\<exists>r. rbf_insert fun_bit_vec 7 (rbf_empty fun_bit_vec 4) = Some r \<and> rbf_items fun_bit_vec r = {7} \<and>
     rbf_contains fun_bit_vec r 7 \<and> \<not> rbf_contains fun_bit_vec r 3"
proof -
  have new: "rbf_new fun_bit_vec 4 = Some (rbf_empty fun_bit_vec 4)"
    by (auto simp: rbf_new_def intro: exI [of _ 2])
  note R = rolling_bit_field_refines [OF fun_bit_vec_laws]
  have e: "rbf_inv fun_bit_vec (rbf_empty fun_bit_vec 4)" "rbf_items fun_bit_vec (rbf_empty fun_bit_vec 4) = {}"
    using R [of 4 "rbf_empty fun_bit_vec 4"] new by blast+
  have "rbf_excess (rbf_empty fun_bit_vec 4) = []" "rbf_max_width (rbf_empty fun_bit_vec 4) = 4"
    by (simp_all add: rbf_empty_def)
  then obtain r where "rbf_insert fun_bit_vec 7 (rbf_empty fun_bit_vec 4) = Some r" "rbf_inv fun_bit_vec r"
      "rbf_items fun_bit_vec r = {7}"
    using R [of 4 "rbf_empty fun_bit_vec 4" "rbf_empty fun_bit_vec 4" 7] e by auto
  then show ?thesis using R [of 4 "rbf_empty fun_bit_vec 4" r 7] R [of 4 "rbf_empty fun_bit_vec 4" r 3] by auto
qed

text \<open>
  The excluded case: while the window is empty, inserting a key below the excess moves the upper end of
  the window down to it, and every excess key from there on is no longer found.
\<close>

lemma rolling_bit_field_forgets:
  assumes "bit_vec_laws ops" and "rbf_inv ops r" and "bit_keys ops r = {}"
    and "e \<in> set (rbf_excess r)" and "key < e" and "key + 1 < 2 ^ 64"
  shows "rbf_contains ops r e \<and> (\<exists>r'. rbf_insert ops key r = Some r' \<and> \<not> rbf_contains ops r' e)"
proof -
  have shape: "rbf_shape ops r" using assms(2) by (simp add: rbf_inv_def)
  have "get_address r key < rbf_max_width r" using shape by (simp add: rbf_shape_def get_address_def)
  then have "\<not> contains_assume_in_range ops r key"
    using shape assms(3) by (auto simp: rbf_shape_def contains_assume_in_range_def)
  then have "\<exists>r'. rbf_insert ops key r = Some r' \<and> rbf_max_exclusive r' = key + 1"
    using bits_empty_iff [OF shape] assms(3,6) by (simp add: rbf_insert_def rbf_set_bit_def wrap_u64_def Let_def)
  then show ?thesis
    using rbf_contains_iff [OF assms(2)] assms(4,5) by (auto simp: rbf_items_def rbf_contains_def)
qed

text \<open>
  The lookup of the highest item below a bound misses item 0: it stops before looking at slot 0 unless
  it starts there.
\<close>

lemma get_prior_misses_zero:
  assumes "bit_vec_laws ops" and "rbf_inv ops r" and "rbf_items ops r = {0}"
  shows "rbf_get_prior ops 2 r = None"
proof -
  have "\<not> rbf_contains ops r 1" using rbf_contains_iff [OF assms(2)] assms(3) by simp
  then show ?thesis by (auto simp: rbf_get_prior_def prior_from.simps [of ops r _ "Suc 0"] split: option.split)
qed

lemma ancestors_of_slots_items:
  assumes "bit_vec_laws ops" and "\<forall>slot \<in> set source. slot + 8192 < 2 ^ 64"
  shows "\<exists>a. ancestors_of_slots ops source = Some a \<and> rbf_inv ops a \<and> rbf_items ops a = set source"
proof -
  have "\<exists>a. fold (\<lambda>slot r. Option.bind r (rbf_insert ops slot)) slots (Some r) = Some a \<and> rbf_inv ops a \<and>
      rbf_items ops a = rbf_items ops r \<union> set slots"
    if "sorted slots" "rbf_inv ops r" "rbf_max_width r = 8192" "\<forall>slot \<in> set slots. slot + 8192 < 2 ^ 64"
      "bit_keys ops r \<noteq> {} \<or> rbf_excess r = []" for slots r
    using that
  proof (induction slots arbitrary: r)
    case (Cons slot slots)
    then have "slot + rbf_max_width r < 2 ^ 64" "bit_keys ops r = {} \<longrightarrow> (\<forall>e \<in> set (rbf_excess r). e < slot)" by auto
    then obtain r' where "rbf_insert ops slot r = Some r'" "rbf_inv ops r'" "bit_keys ops r' \<noteq> {}"
        "rbf_items ops r' = insert slot (rbf_items ops r)" "rbf_max_width r' = rbf_max_width r"
      using rbf_insert_items [OF assms(1) Cons.prems(2)] by blast
    with Cons.IH [of r'] Cons.prems show ?case by auto
  qed simp
  from this [of "sort source" "rbf_empty ops 8192"] assms(2) rbf_empty_inv [OF assms(1), of 8192] show ?thesis
    by (simp add: ancestors_of_slots_def ancestors_default_def rbf_empty_def)
qed

end
