(* ===== verification/Accounts_Index.thy ===== *)
theory Accounts_Index
  imports Rolling_Bit_Field Pubkeys
begin

text \<open>
  Where the accounts database finds an account: the packed location of an account
  (\<^verbatim>\<open>accounts-db/src/account_info.rs\<close>) and the index from keys to the slots that changed them
  (\<^verbatim>\<open>accounts-db/src/accounts_index.rs\<close>), with its roots, its lookup and the cleaning of outdated
  entries.  The bins of the index are one map, and the locks, reference counts, secondary indexes and
  statistics are left out.  \<open>None\<close> is a panic where an operation returns an option of its result.
\<close>

section \<open>Locations\<close>

datatype storage_location = AppendVec u32 nat | Cached

definition is_store_id_equal :: "storage_location \<Rightarrow> storage_location \<Rightarrow> bool" where
  "is_store_id_equal a b =
     (case a of
        Cached \<Rightarrow> (case b of Cached \<Rightarrow> True | AppendVec _ _ \<Rightarrow> False)
      | AppendVec store_id _ \<Rightarrow> (case b of Cached \<Rightarrow> False | AppendVec other_store_id _ \<Rightarrow> other_store_id = store_id))"

definition location_is_cached :: "storage_location \<Rightarrow> bool" where
  "location_is_cached l \<longleftrightarrow> l = Cached"

abbreviation ALIGN_BOUNDARY_OFFSET :: nat where "ALIGN_BOUNDARY_OFFSET \<equiv> 8"

definition CACHED_OFFSET :: u32 where
  "CACHED_OFFSET = 2 ^ 31 - 1"

definition CACHE_VIRTUAL_STORAGE_ID :: u32 where
  "CACHE_VIRTUAL_STORAGE_ID = - 1"

record account_info =
  ainfo_store_id :: u32
  ainfo_offset_reduced :: "31 word"
  ainfo_is_zero_lamport :: bool

definition get_reduced_offset :: "nat \<Rightarrow> u32" where
  "get_reduced_offset offset = of_nat (offset div ALIGN_BOUNDARY_OFFSET)"

definition reduced_offset_to_offset :: "u32 \<Rightarrow> nat" where
  "reduced_offset_to_offset reduced = unat reduced * ALIGN_BOUNDARY_OFFSET"

text \<open>The setter of a field of 31 bits panics on a value that does not fit; the assertion after it would
  fail otherwise, because the offset read back differs.\<close>

definition set_offset_reduced :: "u32 \<Rightarrow> 31 word option" where
  "set_offset_reduced v = (if unat v < 2 ^ 31 then Some (ucast v) else None)"

definition account_info_new :: "storage_location \<Rightarrow> u64 \<Rightarrow> account_info option" where
  "account_info_new l lamports =
     (case l of
        AppendVec store_id offset \<Rightarrow>
          (let reduced_offset = get_reduced_offset offset
           in if reduced_offset = CACHED_OFFSET then None
              else Option.bind (set_offset_reduced reduced_offset) (\<lambda>packed.
                     if reduced_offset_to_offset (ucast packed) \<noteq> offset then None
                     else Some \<lparr>ainfo_store_id = store_id, ainfo_offset_reduced = packed,
                                ainfo_is_zero_lamport = (lamports = 0)\<rparr>))
      | Cached \<Rightarrow>
          Option.bind (set_offset_reduced CACHED_OFFSET) (\<lambda>packed.
            Some \<lparr>ainfo_store_id = CACHE_VIRTUAL_STORAGE_ID, ainfo_offset_reduced = packed,
                  ainfo_is_zero_lamport = (lamports = 0)\<rparr>))"

definition info_is_cached :: "account_info \<Rightarrow> bool" where
  "info_is_cached i \<longleftrightarrow> ucast (ainfo_offset_reduced i) = CACHED_OFFSET"

definition info_offset :: "account_info \<Rightarrow> nat" where
  "info_offset i = reduced_offset_to_offset (ucast (ainfo_offset_reduced i))"

definition info_storage_location :: "account_info \<Rightarrow> storage_location" where
  "info_storage_location i =
     (if info_is_cached i then Cached else AppendVec (ainfo_store_id i) (info_offset i))"

section \<open>The index\<close>

type_synonym slot_list = "(u64 \<times> account_info) list"

record 'b accounts_index =
  ai_account_maps :: "pubkey \<rightharpoonup> slot_list"
  ai_alive_roots :: "'b rolling_bit_field"
  ai_uncleaned_roots :: "u64 set"

definition slot_in :: "'b bit_vec \<Rightarrow> 'b rolling_bit_field \<Rightarrow> u64 \<Rightarrow> bool" where
  "slot_in ops r slot = rbf_contains ops r (unat slot)"

text \<open>One pass over the slot list: the latest slot seen so far that satisfies the predicate.\<close>

definition latest_pass ::
    "(u64 \<Rightarrow> bool) \<Rightarrow> (nat \<times> u64) list \<Rightarrow> nat option \<times> u64 \<Rightarrow> nat option \<times> u64" where
  "latest_pass p =
     fold (\<lambda>(i, slot) (rv, current_max).
       if (rv = None \<or> current_max < slot) \<and> p slot then (Some i, slot) else (rv, current_max))"

definition latest_slot ::
    "'b bit_vec \<Rightarrow> 'b accounts_index \<Rightarrow> 'b ancestors option \<Rightarrow> slot_list \<Rightarrow> u64 option \<Rightarrow> nat option" where
  "latest_slot ops idx ancestors entries max_root_inclusive =
     (let slots = enumerate 0 (rev (map fst entries));
          by_ancestor =
            (case ancestors of
               Some a \<Rightarrow> if rbf_count a = 0 then (None, 0) else latest_pass (slot_in ops a) slots (None, 0)
             | None \<Rightarrow> (None, 0));
          max_root = (case max_root_inclusive of Some m \<Rightarrow> m | None \<Rightarrow> - 1);
          rv = latest_pass (\<lambda>slot. slot \<le> max_root \<and> slot_in ops (ai_alive_roots idx) slot) slots by_ancestor
      in map_option (\<lambda>index. length entries - 1 - index) (fst rv))"

definition index_get ::
    "'b bit_vec \<Rightarrow> 'b accounts_index \<Rightarrow> pubkey \<Rightarrow> 'b ancestors option \<Rightarrow> u64 option \<Rightarrow> (slot_list \<times> nat) option" where
  "index_get ops idx key ancestors max_root =
     (case ai_account_maps idx key of
        Some entries \<Rightarrow> map_option (Pair entries) (latest_slot ops idx ancestors entries max_root)
      | None \<Rightarrow> None)"

definition newest_step :: "'b bit_vec \<Rightarrow> 'b rolling_bit_field \<Rightarrow> u64 option \<Rightarrow> u64 \<times> account_info \<Rightarrow> u64 \<Rightarrow> u64" where
  "newest_step ops alive_roots max_allowed_root_inclusive e max_root =
     (if (case max_allowed_root_inclusive of Some m \<Rightarrow> m < fst e | None \<Rightarrow> False) then max_root
      else if max_root < fst e \<and> slot_in ops alive_roots (fst e) then fst e else max_root)"

definition get_newest_root_in_slot_list ::
    "'b bit_vec \<Rightarrow> 'b rolling_bit_field \<Rightarrow> slot_list \<Rightarrow> u64 option \<Rightarrow> u64" where
  "get_newest_root_in_slot_list ops alive_roots entries max_allowed_root_inclusive =
     fold (newest_step ops alive_roots max_allowed_root_inclusive) entries 0"

definition can_purge_older_entries :: "u64 \<Rightarrow> u64 \<Rightarrow> u64 \<Rightarrow> bool" where
  "can_purge_older_entries max_clean_root_exclusive newest_root_in_slot_list slot \<longleftrightarrow>
     slot < max_clean_root_exclusive \<and> slot \<noteq> newest_root_in_slot_list"

definition index_max_root_inclusive :: "'b accounts_index \<Rightarrow> u64" where
  "index_max_root_inclusive idx = of_nat (rbf_max_inclusive (ai_alive_roots idx))"

text \<open>The kept entries and the reclaimed ones.\<close>

definition purge_older_root_entries ::
    "'b bit_vec \<Rightarrow> 'b accounts_index \<Rightarrow> u64 option \<Rightarrow> slot_list \<Rightarrow> slot_list \<times> slot_list" where
  "purge_older_root_entries ops idx max_clean_root_inclusive slot_list =
     (let newest = get_newest_root_in_slot_list ops (ai_alive_roots idx) slot_list max_clean_root_inclusive;
          max_clean_root = (case max_clean_root_inclusive of Some m \<Rightarrow> m | None \<Rightarrow> index_max_root_inclusive idx);
          should_purge = (\<lambda>(slot, info). can_purge_older_entries max_clean_root newest slot \<and> \<not> info_is_cached info)
      in (filter (\<lambda>e. \<not> should_purge e) slot_list, filter should_purge slot_list))"

text \<open>The result tells whether the key is gone from the index; the third part is what was reclaimed.\<close>

definition clean_rooted_entries ::
    "'b bit_vec \<Rightarrow> pubkey \<Rightarrow> u64 option \<Rightarrow> 'b accounts_index \<Rightarrow> bool \<times> 'b accounts_index \<times> slot_list" where
  "clean_rooted_entries ops key max_clean_root_inclusive idx =
     (case ai_account_maps idx key of
        None \<Rightarrow> (True, idx, [])
      | Some slot_list \<Rightarrow>
          (let (kept, reclaims) = purge_older_root_entries ops idx max_clean_root_inclusive slot_list
           in if kept = [] then (True, idx\<lparr>ai_account_maps := (ai_account_maps idx)(key := None)\<rparr>, reclaims)
              else (False, idx\<lparr>ai_account_maps := (ai_account_maps idx)(key \<mapsto> kept)\<rparr>, reclaims)))"

text \<open>The result tells whether the key has no entries any more; its empty list stays in the index.\<close>

definition purge_exact ::
    "pubkey \<Rightarrow> u64 set \<Rightarrow> 'b accounts_index \<Rightarrow> bool \<times> 'b accounts_index \<times> slot_list" where
  "purge_exact key slots_to_purge idx =
     (case ai_account_maps idx key of
        None \<Rightarrow> (True, idx, [])
      | Some slot_list \<Rightarrow>
          (let kept = filter (\<lambda>(slot, _). slot \<notin> slots_to_purge) slot_list;
               reclaims = filter (\<lambda>(slot, _). slot \<in> slots_to_purge) slot_list
           in (kept = [], idx\<lparr>ai_account_maps := (ai_account_maps idx)(key \<mapsto> kept)\<rparr>, reclaims)))"

definition get_rooted_entries :: "'b bit_vec \<Rightarrow> 'b accounts_index \<Rightarrow> slot_list \<Rightarrow> u64 option \<Rightarrow> slot_list" where
  "get_rooted_entries ops idx entries max_inclusive =
     filter (\<lambda>(slot, _). slot \<le> (case max_inclusive of Some m \<Rightarrow> m | None \<Rightarrow> - 1) \<and>
       slot_in ops (ai_alive_roots idx) slot) entries"

definition index_is_alive_root :: "'b bit_vec \<Rightarrow> 'b accounts_index \<Rightarrow> u64 \<Rightarrow> bool" where
  "index_is_alive_root ops idx slot = slot_in ops (ai_alive_roots idx) slot"

definition index_add_root :: "'b bit_vec \<Rightarrow> u64 \<Rightarrow> 'b accounts_index \<Rightarrow> 'b accounts_index option" where
  "index_add_root ops slot idx =
     (if rbf_max_inclusive (ai_alive_roots idx) \<le> unat slot
      then map_option (\<lambda>r. idx\<lparr>ai_alive_roots := r\<rparr>) (rbf_insert ops (unat slot) (ai_alive_roots idx))
      else None)"

definition clean_dead_slot :: "'b bit_vec \<Rightarrow> u64 \<Rightarrow> 'b accounts_index \<Rightarrow> bool \<times> 'b accounts_index" where
  "clean_dead_slot ops slot idx =
     (case rbf_remove ops (unat slot) (ai_alive_roots idx) of
        (removed, r) \<Rightarrow>
          (removed, idx\<lparr>ai_alive_roots := r, ai_uncleaned_roots := ai_uncleaned_roots idx - {slot}\<rparr>))"

definition reset_uncleaned_roots :: "u64 option \<Rightarrow> 'b accounts_index \<Rightarrow> 'b accounts_index" where
  "reset_uncleaned_roots max_clean_root idx =
     idx\<lparr>ai_uncleaned_roots :=
       Set.filter (\<lambda>root. \<not> (case max_clean_root of Some m \<Rightarrow> root \<le> m | None \<Rightarrow> True)) (ai_uncleaned_roots idx)\<rparr>"

section \<open>Roots\<close>

lemma slot_in_roots: "index_is_alive_root ops idx slot = rbf_contains ops (ai_alive_roots idx) (unat slot)"
  by (simp add: index_is_alive_root_def slot_in_def)

text \<open>Adding a root in order makes it alive and changes no other root; a dead slot is a root no more.\<close>

lemma index_add_root_alive:
  assumes "bit_vec_laws ops" and "rbf_inv ops (ai_alive_roots idx)" and "rbf_fits ops (unat slot) (ai_alive_roots idx)"
    and "rbf_max_inclusive (ai_alive_roots idx) \<le> unat slot"
  shows "\<exists>idx'. index_add_root ops slot idx = Some idx' \<and> rbf_inv ops (ai_alive_roots idx') \<and>
    (\<forall>s. index_is_alive_root ops idx' s \<longleftrightarrow> s = slot \<or> index_is_alive_root ops idx s)"
proof -
  obtain r where r: "rbf_insert ops (unat slot) (ai_alive_roots idx) = Some r" "rbf_inv ops r"
      "\<forall>j. rbf_contains ops r j \<longleftrightarrow> j = unat slot \<or> rbf_contains ops (ai_alive_roots idx) j"
    using rolling.add_member [of ops "ai_alive_roots idx" "unat slot"] assms(1-3) by blast
  then show ?thesis using assms(4) by (simp add: index_add_root_def slot_in_roots flip: word_unat_eq_iff)
qed

lemma clean_dead_slot_alive:
  assumes "bit_vec_laws ops" and "rbf_inv ops (ai_alive_roots idx)"
  shows "fst (clean_dead_slot ops slot idx) = index_is_alive_root ops idx slot"
    and "rbf_inv ops (ai_alive_roots (snd (clean_dead_slot ops slot idx)))"
    and "index_is_alive_root ops (snd (clean_dead_slot ops slot idx)) s \<longleftrightarrow> index_is_alive_root ops idx s \<and> s \<noteq> slot"
proof -
  note r = rolling.remove_member [of ops "ai_alive_roots idx" "unat slot", OF conjI [OF assms]]
  show "fst (clean_dead_slot ops slot idx) = index_is_alive_root ops idx slot"
    using r(1) by (simp add: clean_dead_slot_def slot_in_roots split_beta)
  show "rbf_inv ops (ai_alive_roots (snd (clean_dead_slot ops slot idx)))"
    using r(2) by (simp add: clean_dead_slot_def split_beta)
  show "index_is_alive_root ops (snd (clean_dead_slot ops slot idx)) s \<longleftrightarrow> index_is_alive_root ops idx s \<and> s \<noteq> slot"
    using r(3) [of "unat s"] by (simp add: clean_dead_slot_def slot_in_roots split_beta flip: word_unat_eq_iff)
qed

section \<open>Packing\<close>

lemma reduced_exact:
  assumes "unat (get_reduced_offset offset) < 2 ^ 31"
  shows "reduced_offset_to_offset (ucast (ucast (get_reduced_offset offset) :: 31 word)) = offset \<longleftrightarrow>
    8 dvd offset \<and> offset div 8 < 2 ^ 31"
proof -
  have "unat (ucast (ucast (get_reduced_offset offset) :: 31 word) :: u32) = unat (get_reduced_offset offset)"
    using assms by (simp add: unsigned_ucast_eq take_bit_eq_mod unat_mod)
  moreover have "unat (get_reduced_offset offset) = (offset div 8) mod 2 ^ 32"
    by (simp add: get_reduced_offset_def unat_of_nat)
  ultimately show ?thesis using assms by (auto simp: reduced_offset_to_offset_def) (metis dvd_triv_right)
qed

text \<open>
  (C32) The packed location of an account is exact: packing succeeds for the write cache, and for a place
  in a storage exactly when the offset is a multiple of 8 and, divided by 8, below the value reserved
  for the write cache; what was packed is read back, with the flag for an empty account.
\<close>

theorem account_info_exact:
  "(\<exists>i. account_info_new Cached lamports = Some i) \<and>
   ((\<exists>i. account_info_new (AppendVec store_id offset) lamports = Some i) \<longleftrightarrow>
      8 dvd offset \<and> offset div 8 < 2 ^ 31 - 1) \<and>
   (account_info_new l lamports = Some info \<longrightarrow>
      info_storage_location info = l \<and> ainfo_is_zero_lamport info = (lamports = 0))"
proof (intro conjI impI)
  have cached: "unat CACHED_OFFSET = 2 ^ 31 - 1" by (simp add: CACHED_OFFSET_def)
  show "\<exists>i. account_info_new Cached lamports = Some i"
    by (simp add: account_info_new_def set_offset_reduced_def cached)
  have reduced: "unat (get_reduced_offset offset) = (offset div 8) mod 2 ^ 32"
    by (simp add: get_reduced_offset_def unat_of_nat)
  have eq: "get_reduced_offset offset = CACHED_OFFSET \<longleftrightarrow> (offset div 8) mod 2 ^ 32 = 2 ^ 31 - 1"
    using reduced cached by (metis word_unat_eq_iff)
  show "(\<exists>i. account_info_new (AppendVec store_id offset) lamports = Some i) \<longleftrightarrow>
      8 dvd offset \<and> offset div 8 < 2 ^ 31 - 1"
    using reduced_exact [of offset] reduced
    by (auto simp: account_info_new_def set_offset_reduced_def eq Let_def split: if_splits)
  assume new: "account_info_new l lamports = Some info"
  have offs: "ucast (ucast v :: 31 word) = v" if "unat v < 2 ^ 31" for v :: u32
    using that by (simp add: word_unat_eq_iff unsigned_ucast_eq take_bit_eq_mod unat_mod)
  show "info_storage_location info = l"
    using new offs cached
    by (auto simp: account_info_new_def info_storage_location_def info_is_cached_def info_offset_def
        set_offset_reduced_def Let_def split: storage_location.splits if_splits)
  show "ainfo_is_zero_lamport info = (lamports = 0)"
    using new by (auto simp: account_info_new_def set_offset_reduced_def Let_def split: storage_location.splits if_splits)
qed

theorem account_info_exact_witness:
  "account_info_new (AppendVec 3 16) 0 =
     Some \<lparr>ainfo_store_id = 3, ainfo_offset_reduced = 2, ainfo_is_zero_lamport = True\<rparr> \<and>
   info_storage_location \<lparr>ainfo_store_id = 3, ainfo_offset_reduced = 2, ainfo_is_zero_lamport = True\<rparr> = AppendVec 3 16"
proof -
  have new: "account_info_new (AppendVec 3 16) 0 =
      Some \<lparr>ainfo_store_id = 3, ainfo_offset_reduced = 2, ainfo_is_zero_lamport = True\<rparr>"
    by (simp add: account_info_new_def get_reduced_offset_def set_offset_reduced_def CACHED_OFFSET_def
        reduced_offset_to_offset_def Let_def)
  from account_info_exact [of 0 3 16 "AppendVec 3 16"] new show ?thesis by blast
qed

section \<open>Lookup\<close>

text \<open>The slots that a lookup may see, and the best candidate among a set of positions.\<close>

definition visible :: "'b bit_vec \<Rightarrow> 'b accounts_index \<Rightarrow> 'b ancestors option \<Rightarrow> u64 option \<Rightarrow> u64 \<Rightarrow> bool" where
  "visible ops idx ancestors max_root slot \<longleftrightarrow>
     (\<exists>a. ancestors = Some a \<and> rbf_count a \<noteq> 0 \<and> slot_in ops a slot) \<or>
     (slot \<le> (case max_root of Some m \<Rightarrow> m | None \<Rightarrow> - 1) \<and> slot_in ops (ai_alive_roots idx) slot)"

definition best :: "(nat \<times> u64) set \<Rightarrow> nat option \<times> u64 \<Rightarrow> bool" where
  "best Q st \<longleftrightarrow>
     (case fst st of None \<Rightarrow> Q = {} | Some i \<Rightarrow> (i, snd st) \<in> Q \<and> (\<forall>(j, slot) \<in> Q. slot \<le> snd st))"

lemma latest_pass_best:
  assumes "best Q st"
  shows "best (Q \<union> {e \<in> set es. p (snd e)}) (latest_pass p es st)"
  using assms
proof (induction es arbitrary: Q st)
  case Nil
  then show ?case by (simp add: latest_pass_def)
next
  case (Cons e es)
  obtain i slot where e: "e = (i, slot)" by force
  obtain rv cur where st: "st = (rv, cur)" by force
  let ?st = "if (rv = None \<or> cur < slot) \<and> p slot then (Some i, slot) else (rv, cur)"
  let ?Q = "if p slot then insert (i, slot) Q else Q"
  have "best ?Q ?st"
    using Cons.prems by (auto simp: best_def st not_less split: option.splits)
  from Cons.IH [OF this] have "best (?Q \<union> {e \<in> set es. p (snd e)}) (latest_pass p (e # es) st)"
    by (simp add: latest_pass_def e st)
  moreover have "?Q \<union> {e \<in> set es. p (snd e)} = Q \<union> {e' \<in> set (e # es). p (snd e')}"
    by (auto simp: e)
  ultimately show ?case by simp
qed

lemma latest_slot_best:
  "\<exists>st. best {e \<in> set (enumerate 0 (rev (map fst entries))). visible ops idx ancestors max_root (snd e)} st \<and>
     latest_slot ops idx ancestors entries max_root = map_option (\<lambda>i. length entries - 1 - i) (fst st)"
proof -
  let ?es = "enumerate 0 (rev (map fst entries))"
  let ?a = "\<lambda>slot. \<exists>a. ancestors = Some a \<and> rbf_count a \<noteq> 0 \<and> slot_in ops a slot"
  let ?r = "\<lambda>slot. slot \<le> (case max_root of Some m \<Rightarrow> m | None \<Rightarrow> - 1) \<and> slot_in ops (ai_alive_roots idx) slot"
  let ?st = "case ancestors of
      Some a \<Rightarrow> if rbf_count a = 0 then (None, 0) else latest_pass (slot_in ops a) ?es (None, 0) | None \<Rightarrow> (None, 0)"
  have start: "best {} (None, 0)" by (simp add: best_def)
  have "best {e \<in> set ?es. ?a (snd e)} ?st"
    using latest_pass_best [OF start, of ?es] start by (auto split: option.split)
  from latest_pass_best [OF this, of ?es ?r]
  have "best {e \<in> set ?es. visible ops idx ancestors max_root (snd e)} (latest_pass ?r ?es ?st)"
    by (simp add: visible_def Collect_disj_eq [symmetric] conj_disj_distribL)
  then show ?thesis by (intro exI [of _ "latest_pass ?r ?es ?st"]) (simp add: latest_slot_def Let_def)
qed

lemma enumerate_rev_iff:
  "(i, slot) \<in> set (enumerate 0 (rev xs)) \<longleftrightarrow> i < length xs \<and> xs ! (length xs - 1 - i) = slot"
  by (auto simp: in_set_enumerate_eq rev_nth)

lemma latest_slot_spec:
  "(case latest_slot ops idx ancestors entries max_root of
      None \<Rightarrow> \<not> (\<exists>e \<in> set entries. visible ops idx ancestors max_root (fst e))
    | Some j \<Rightarrow> j < length entries \<and> visible ops idx ancestors max_root (fst (entries ! j)) \<and>
        (\<forall>e \<in> set entries. visible ops idx ancestors max_root (fst e) \<longrightarrow> fst e \<le> fst (entries ! j)))"
proof -
  let ?vis = "visible ops idx ancestors max_root"
  let ?es = "enumerate 0 (rev (map fst entries))"
  obtain st where best: "best {e \<in> set ?es. ?vis (snd e)} st"
      and found: "latest_slot ops idx ancestors entries max_root = map_option (\<lambda>i. length entries - 1 - i) (fst st)"
    using latest_slot_best by blast
  have cand: "\<exists>i. (i, fst e) \<in> {e \<in> set ?es. ?vis (snd e)}" if e: "e \<in> set entries" "?vis (fst e)" for e
  proof -
    obtain j where j: "j < length entries" "entries ! j = e" using e(1) by (auto simp: in_set_conv_nth)
    then have "(length entries - 1 - j, fst e) \<in> set ?es" by (simp add: enumerate_rev_iff)
    with e(2) show ?thesis by auto
  qed
  show ?thesis
  proof (cases "fst st")
    case None
    then have "{e \<in> set ?es. ?vis (snd e)} = {}" using best by (simp add: best_def)
    then have "\<not> (\<exists>e \<in> set entries. ?vis (fst e))" using cand by blast
    then show ?thesis using found None by simp
  next
    case (Some i)
    then have i: "(i, snd st) \<in> set ?es" "?vis (snd st)" "\<forall>(j, slot) \<in> {e \<in> set ?es. ?vis (snd e)}. slot \<le> snd st"
      using best by (auto simp: best_def)
    then have pos: "i < length entries" "fst (entries ! (length entries - 1 - i)) = snd st"
      by (auto simp: enumerate_rev_iff)
    have "fst e \<le> snd st" if "e \<in> set entries" "?vis (fst e)" for e using cand [OF that] i(3) by blast
    then show ?thesis using found Some pos i(2) by auto
  qed
qed

text \<open>What a lookup reads at the position it finds.\<close>

definition index_lookup ::
    "'b bit_vec \<Rightarrow> 'b accounts_index \<Rightarrow> pubkey \<Rightarrow> 'b ancestors option \<Rightarrow> u64 option \<Rightarrow> (u64 \<times> account_info) option" where
  "index_lookup ops idx key ancestors max_root =
     map_option (\<lambda>(entries, j). entries ! j) (index_get ops idx key ancestors max_root)"

definition latest_visible :: "(u64 \<Rightarrow> bool) \<Rightarrow> slot_list \<Rightarrow> u64 \<times> account_info \<Rightarrow> bool" where
  "latest_visible vis entries e \<longleftrightarrow>
     e \<in> set entries \<and> vis (fst e) \<and> (\<forall>e' \<in> set entries. vis (fst e') \<longrightarrow> fst e' \<le> fst e)"

lemma index_lookup_spec:
  assumes "ai_account_maps idx key = Some entries"
  shows "case index_lookup ops idx key ancestors max_root of
      None \<Rightarrow> \<forall>e \<in> set entries. \<not> visible ops idx ancestors max_root (fst e)
    | Some e \<Rightarrow> latest_visible (visible ops idx ancestors max_root) entries e"
  using latest_slot_spec [where ops = ops and idx = idx and ancestors = ancestors and entries = entries and max_root = max_root]
  by (auto simp: index_lookup_def index_get_def assms latest_visible_def split: option.splits)

text \<open>
  The slot that a lookup finds depends on the visible slots only: it is the latest of them, so that it
  stays the same when slots go of which a later one stays.
\<close>

definition visible_slots :: "'b bit_vec \<Rightarrow> 'b accounts_index \<Rightarrow> pubkey \<Rightarrow> 'b ancestors option \<Rightarrow> u64 set" where
  "visible_slots ops idx key ancestors =
     {slot. \<exists>entries. ai_account_maps idx key = Some entries \<and> slot \<in> fst ` set entries \<and> visible ops idx ancestors None slot}"

lemma lookup_slot:
  "case index_lookup ops idx key ancestors None of
     None \<Rightarrow> visible_slots ops idx key ancestors = {}
   | Some e \<Rightarrow> fst e \<in> visible_slots ops idx key ancestors \<and> (\<forall>slot \<in> visible_slots ops idx key ancestors. slot \<le> fst e)"
proof (cases "ai_account_maps idx key")
  case None
  then show ?thesis by (simp add: index_lookup_def index_get_def visible_slots_def)
next
  case (Some entries)
  then show ?thesis
    using index_lookup_spec [OF Some, of ops ancestors None]
    by (auto simp: visible_slots_def latest_visible_def image_iff split: option.splits) force
qed

lemma lookup_slot_same:
  assumes "visible_slots ops idx' key ancestors \<subseteq> visible_slots ops idx key ancestors"
    and "\<And>slot. slot \<in> visible_slots ops idx key ancestors \<Longrightarrow> \<exists>slot' \<in> visible_slots ops idx' key ancestors. slot \<le> slot'"
  shows "map_option fst (index_lookup ops idx' key ancestors None) = map_option fst (index_lookup ops idx key ancestors None)"
proof (cases "index_lookup ops idx key ancestors None")
  case None
  then have "visible_slots ops idx' key ancestors = {}" using lookup_slot [of ops idx key ancestors] assms(1) by simp
  then show ?thesis using None lookup_slot [of ops idx' key ancestors] by (auto split: option.splits)
next
  case (Some e)
  then have e: "fst e \<in> visible_slots ops idx key ancestors" "\<forall>slot \<in> visible_slots ops idx key ancestors. slot \<le> fst e"
    using lookup_slot [of ops idx key ancestors] by simp_all
  then have here: "fst e \<in> visible_slots ops idx' key ancestors" using assms by (metis antisym subsetD)
  then obtain e' where e': "index_lookup ops idx' key ancestors None = Some e'"
    using lookup_slot [of ops idx' key ancestors] by (auto split: option.splits)
  then have "fst e' \<in> visible_slots ops idx' key ancestors" "fst e \<le> fst e'"
    using lookup_slot [of ops idx' key ancestors] here by simp_all
  then have "fst e' = fst e" using e(2) assms(1) by (meson antisym subsetD)
  then show ?thesis by (simp add: Some e')
qed

text \<open>
  (C27) The index finds the latest visible version of an account: a lookup finds nothing exactly when the
  key is unknown or no slot of its list is an ancestor or a root up to the bound, and otherwise the
  entry it finds is visible and no visible entry of the key has a later slot.
\<close>

theorem index_lookup_exact:
  "case index_lookup ops idx key ancestors max_root of
     None \<Rightarrow> (\<forall>entries. ai_account_maps idx key = Some entries \<longrightarrow>
       (\<forall>e \<in> set entries. \<not> visible ops idx ancestors max_root (fst e)))
   | Some e \<Rightarrow> (\<exists>entries. ai_account_maps idx key = Some entries \<and>
       latest_visible (visible ops idx ancestors max_root) entries e)"
proof (cases "ai_account_maps idx key")
  case None
  then show ?thesis by (simp add: index_lookup_def index_get_def)
next
  case (Some entries)
  then show ?thesis using index_lookup_spec [OF Some, of ops ancestors max_root] by (auto split: option.splits)
qed

text \<open>An index with one key, changed in slots 3 (a root) and 9 (neither a root nor an ancestor).\<close>

definition index_demo_info :: account_info where
  "index_demo_info = \<lparr>ainfo_store_id = 1, ainfo_offset_reduced = 0, ainfo_is_zero_lamport = False\<rparr>"

definition index_demo :: "(nat \<times> (nat \<Rightarrow> bool)) accounts_index" where
  "index_demo =
     \<lparr>ai_account_maps = (\<lambda>_. Some [(3, index_demo_info), (9, index_demo_info)]),
      ai_alive_roots = (rbf_empty fun_bit_vec 4)
        \<lparr>rbf_bits := (4, (\<lambda>_. False)(3 := True)), rbf_min := 3, rbf_max_exclusive := 4, rbf_count := 1\<rparr>,
      ai_uncleaned_roots = {}\<rparr>"

lemma index_demo_roots: "slot_in fun_bit_vec (ai_alive_roots index_demo) 3" "\<not> slot_in fun_bit_vec (ai_alive_roots index_demo) 9"
  by (simp_all add: slot_in_def index_demo_def rbf_contains_def rbf_empty_def contains_assume_in_range_def
      get_address_def fun_bit_vec_def)

theorem index_lookup_exact_witness:
  "index_lookup fun_bit_vec index_demo pubkey_default None None = Some (3, index_demo_info)"
proof -
  have vis: "visible fun_bit_vec index_demo None None 3" "\<not> visible fun_bit_vec index_demo None None 9"
    using index_demo_roots by (simp_all add: visible_def)
  have map: "ai_account_maps index_demo pubkey_default = Some [(3, index_demo_info), (9, index_demo_info)]"
    by (simp add: index_demo_def)
  show ?thesis
    using index_lookup_exact [where ops = fun_bit_vec and idx = index_demo and key = pubkey_default and ancestors = None and max_root = None]
      map vis by (auto simp: latest_visible_def split: option.splits)
qed

section \<open>Cleaning\<close>

definition clean_root :: "'b bit_vec \<Rightarrow> 'b rolling_bit_field \<Rightarrow> u64 option \<Rightarrow> u64 \<Rightarrow> bool" where
  "clean_root ops roots m slot \<longleftrightarrow> slot_in ops roots slot \<and> (case m of Some k \<Rightarrow> slot \<le> k | None \<Rightarrow> True)"

lemma newest_step_cases:
  "n \<le> newest_step ops roots m e n" "clean_root ops roots m (fst e) \<Longrightarrow> fst e \<le> newest_step ops roots m e n"
  "newest_step ops roots m e n = n \<or> newest_step ops roots m e n = fst e \<and> clean_root ops roots m (fst e)"
  by (auto simp: newest_step_def clean_root_def not_less split: option.splits)

lemma newest_fold_ge: "n \<le> fold (newest_step ops roots m) entries n"
proof (induction entries arbitrary: n)
  case (Cons e entries)
  show ?case
    using order_trans [OF newest_step_cases(1) Cons.IH, of n ops roots m e] by simp
qed simp

lemma newest_fold_upper:
  "e \<in> set entries \<Longrightarrow> clean_root ops roots m (fst e) \<Longrightarrow> fst e \<le> fold (newest_step ops roots m) entries n"
proof (induction entries arbitrary: n)
  case (Cons x entries)
  show ?case
  proof (cases "e = x")
    case True
    then show ?thesis
      using newest_step_cases(2) [OF Cons.prems(2), of n] newest_fold_ge [of "newest_step ops roots m x n" ops roots m entries]
      by simp
  next
    case False
    then show ?thesis using Cons by simp
  qed
qed simp

lemma newest_fold_member:
  "fold (newest_step ops roots m) entries n = n \<or>
   (\<exists>e \<in> set entries. fst e = fold (newest_step ops roots m) entries n \<and> clean_root ops roots m (fst e))"
proof (induction entries arbitrary: n)
  case (Cons x entries)
  show ?case using Cons.IH [of "newest_step ops roots m x n"] newest_step_cases(3) [of ops roots m x n] by auto
qed simp

lemma latest_visible_unique:
  assumes "distinct (map fst entries)" and "latest_visible vis entries e" and "latest_visible vis entries e'"
  shows "e = e'"
proof -
  have "fst e = fst e'" using assms(2,3) by (auto simp: latest_visible_def intro: antisym)
  then show ?thesis using assms by (auto simp: latest_visible_def distinct_map dest: inj_onD)
qed

lemma purge_keeps_latest:
  fixes idx :: "'b accounts_index" and m :: "u64 option"
  defines "max_clean \<equiv> (case m of Some k \<Rightarrow> k | None \<Rightarrow> index_max_root_inclusive idx)"
  assumes "latest_visible (visible ops idx ancestors None) entries e"
    and "\<forall>slot < max_clean. visible ops idx ancestors None slot \<longrightarrow> slot_in ops (ai_alive_roots idx) slot"
  shows "e \<in> set (fst (purge_older_root_entries ops idx m entries))"
proof (rule ccontr)
  let ?N = "get_newest_root_in_slot_list ops (ai_alive_roots idx) entries m"
  assume "e \<notin> set (fst (purge_older_root_entries ops idx m entries))"
  then have purged: "fst e < max_clean" "fst e \<noteq> ?N"
    using assms(2) by (auto simp: purge_older_root_entries_def can_purge_older_entries_def latest_visible_def max_clean_def Let_def)
  have e: "e \<in> set entries" "visible ops idx ancestors None (fst e)"
      "\<forall>e' \<in> set entries. visible ops idx ancestors None (fst e') \<longrightarrow> fst e' \<le> fst e"
    using assms(2) by (auto simp: latest_visible_def)
  have "clean_root ops (ai_alive_roots idx) m (fst e)"
    using assms(3) e(2) purged(1) by (auto simp: clean_root_def max_clean_def split: option.splits)
  then have upper: "fst e \<le> ?N"
    using newest_fold_upper [OF e(1)] by (simp add: get_newest_root_in_slot_list_def)
  have "?N = 0 \<or> (\<exists>e' \<in> set entries. fst e' = ?N \<and> clean_root ops (ai_alive_roots idx) m (fst e'))"
    using newest_fold_member [of ops "ai_alive_roots idx" m entries 0] by (simp add: get_newest_root_in_slot_list_def)
  then have "?N \<le> fst e" using e(3) by (auto simp: clean_root_def visible_def)
  with upper purged(2) show False by (simp add: antisym)
qed

text \<open>
  (C28) Cleaning an account keeps what banks read: after the outdated entries of a key were purged, every
  lookup finds the same slot and location as before, provided that the ancestors of the reading bank
  below the cleaned root are roots.
\<close>

theorem clean_keeps_lookup:
  assumes "ai_account_maps idx key = Some entries" and "distinct (map fst entries)"
    and "\<forall>slot < (case m of Some k \<Rightarrow> k | None \<Rightarrow> index_max_root_inclusive idx).
      visible ops idx ancestors None slot \<longrightarrow> slot_in ops (ai_alive_roots idx) slot"
    and "clean_rooted_entries ops key m idx = (gone, idx', reclaims)"
  shows "index_lookup ops idx' key ancestors None = index_lookup ops idx key ancestors None \<and>
    (\<forall>k. k \<noteq> key \<longrightarrow> ai_account_maps idx' k = ai_account_maps idx k) \<and> (gone \<longleftrightarrow> ai_account_maps idx' key = None)"
proof -
  let ?kept = "fst (purge_older_root_entries ops idx m entries)"
  have idx': "ai_account_maps idx' = (ai_account_maps idx)(key := (if ?kept = [] then None else Some ?kept))"
      "gone \<longleftrightarrow> ?kept = []" "ai_alive_roots idx' = ai_alive_roots idx"
    using assms(1,4) by (auto simp: clean_rooted_entries_def Let_def split: prod.splits if_splits)
  have vis: "visible ops idx' ancestors None = visible ops idx ancestors None"
    using idx'(3) by (simp add: visible_def fun_eq_iff)
  have sub: "set ?kept \<subseteq> set entries" by (auto simp: purge_older_root_entries_def Let_def)
  have "index_lookup ops idx' key ancestors None = index_lookup ops idx key ancestors None"
  proof (cases "index_lookup ops idx key ancestors None")
    case None
    then have none: "\<forall>e \<in> set entries. \<not> visible ops idx ancestors None (fst e)"
      using index_lookup_spec [OF assms(1), of ops ancestors None] by simp
    show ?thesis
    proof (cases "index_lookup ops idx' key ancestors None")
      case (Some e)
      then have "?kept \<noteq> []" using idx'(1) by (auto simp: index_lookup_def index_get_def)
      then have "ai_account_maps idx' key = Some ?kept" using idx'(1) by simp
      from index_lookup_spec [OF this, of ops ancestors None] Some show ?thesis
        using none sub vis by (auto simp: latest_visible_def)
    qed (simp add: None)
  next
    case (Some e)
    then have e: "latest_visible (visible ops idx ancestors None) entries e"
      using index_lookup_spec [OF assms(1), of ops ancestors None] by simp
    then have kept: "e \<in> set ?kept" by (rule purge_keeps_latest) (use assms(3) in simp)
    then have "ai_account_maps idx' key = Some ?kept" using idx'(1) by (auto split: if_splits)
    note spec = index_lookup_spec [OF this, of ops ancestors None, unfolded vis]
    have "latest_visible (visible ops idx ancestors None) ?kept e"
      using e kept sub by (auto simp: latest_visible_def)
    moreover have "distinct (map fst ?kept)"
      using assms(2) by (simp add: purge_older_root_entries_def Let_def distinct_map_filter)
    ultimately have same: "e' = e" if "latest_visible (visible ops idx ancestors None) ?kept e'" for e'
      using latest_visible_unique that by blast
    show ?thesis
    proof (cases "index_lookup ops idx' key ancestors None")
      case None
      then show ?thesis using spec e kept by (auto simp: latest_visible_def)
    next
      case (Some e')
      then show ?thesis using spec same \<open>index_lookup ops idx key ancestors None = Some e\<close> by simp
    qed
  qed
  with idx' show ?thesis by (auto split: if_splits)
qed

theorem clean_keeps_lookup_witness:
  "\<exists>idx reclaims. clean_rooted_entries fun_bit_vec pubkey_default (Some 5) index_demo = (False, idx, reclaims) \<and>
     index_lookup fun_bit_vec idx pubkey_default None None = index_lookup fun_bit_vec index_demo pubkey_default None None"
proof -
  have map: "ai_account_maps index_demo pubkey_default = Some [(3, index_demo_info), (9, index_demo_info)]"
    by (simp add: index_demo_def)
  obtain gone idx reclaims where run:
      "clean_rooted_entries fun_bit_vec pubkey_default (Some 5) index_demo = (gone, idx, reclaims)"
    by (metis prod.exhaust)
  have keep: "index_lookup fun_bit_vec idx pubkey_default None None = index_lookup fun_bit_vec index_demo pubkey_default None None \<and>
      (gone \<longleftrightarrow> ai_account_maps idx pubkey_default = None)"
    using clean_keeps_lookup [OF map _ _ run, of None] by (simp add: visible_def)
  moreover have "\<not> gone"
    using run map by (auto simp: clean_rooted_entries_def purge_older_root_entries_def can_purge_older_entries_def Let_def split: if_splits)
  ultimately show ?thesis using run by auto
qed

end
