(* ===== verification/Read_Cache.thy ===== *)
theory Read_Cache
  imports Account
begin

text \<open>
  The read-only cache of the accounts database (\<^verbatim>\<open>accounts-db/src/read_only_accounts_cache.rs\<close>): accounts
  by key and slot, with an eviction queue in the order of their last use.  The queue is the list of
  the \<^verbatim>\<open>index_list\<close> crate, so its operations are a parameter and \<open>index_list_laws\<close> states its
  documented behaviour.  The current time in milliseconds is an argument, sizes are naturals, and the
  fixed size of an entry, which depends on the memory layout, is a field.  The eviction loop may run
  forever if the queue and the map disagree, so it is a partial function.

  Shown: loading, storing and removing implement a least-recently-used list that is cut to the size limit.
\<close>

section \<open>The eviction queue\<close>

datatype cache_key = CacheKey pubkey u64

record ('i, 'q) index_list =
  il_insert_last :: "cache_key \<Rightarrow> 'q \<Rightarrow> 'i \<times> 'q"
  il_remove :: "'i \<Rightarrow> 'q \<Rightarrow> 'q"
  il_get_first :: "'q \<Rightarrow> cache_key option"

text \<open>\<open>items\<close> are the indices and keys in the order of the list.\<close>

definition index_list_laws :: "('i, 'q) index_list \<Rightarrow> ('q \<Rightarrow> ('i \<times> cache_key) list) \<Rightarrow> bool" where
  "index_list_laws ops items \<longleftrightarrow>
     (\<forall>key q. fst (il_insert_last ops key q) \<notin> fst ` set (items q) \<and>
        items (snd (il_insert_last ops key q)) = items q @ [(fst (il_insert_last ops key q), key)]) \<and>
     (\<forall>i q. items (il_remove ops i q) = filter (\<lambda>e. fst e \<noteq> i) (items q)) \<and>
     (\<forall>q. il_get_first ops q = (case items q of [] \<Rightarrow> None | e # _ \<Rightarrow> Some (snd e)))"

section \<open>The cache\<close>

record 'i cache_entry =
  roe_account :: account_shared_data
  roe_index :: 'i
  roe_last_update_time :: u32

record ('i, 'q) read_cache =
  roc_cache :: "cache_key \<rightharpoonup> 'i cache_entry"
  roc_queue :: 'q
  roc_max_data_size :: nat
  roc_data_size :: nat
  roc_ms_to_skip_lru_update :: u32
  roc_entry_size :: nat

definition roc_in_cache :: "pubkey \<Rightarrow> u64 \<Rightarrow> ('i, 'q) read_cache \<Rightarrow> bool" where
  "roc_in_cache key slot c \<longleftrightarrow> roc_cache c (CacheKey key slot) \<noteq> None"

definition roc_account_size :: "('i, 'q) read_cache \<Rightarrow> account_shared_data \<Rightarrow> nat" where
  "roc_account_size c account = roc_entry_size c + length (acct_data account)"

definition roc_load ::
    "('i, 'q) index_list \<Rightarrow> u32 \<Rightarrow> pubkey \<Rightarrow> u64 \<Rightarrow> ('i, 'q) read_cache \<Rightarrow>
     account_shared_data option \<times> ('i, 'q) read_cache" where
  "roc_load ops now key slot c =
     (case roc_cache c (CacheKey key slot) of
        None \<Rightarrow> (None, c)
      | Some e \<Rightarrow>
          if roc_ms_to_skip_lru_update c \<le> now - roe_last_update_time e then
            (let (i, q) = il_insert_last ops (CacheKey key slot) (il_remove ops (roe_index e) (roc_queue c))
             in (Some (roe_account e),
                 c\<lparr>roc_queue := q,
                   roc_cache := (roc_cache c)((CacheKey key slot) \<mapsto> e\<lparr>roe_index := i, roe_last_update_time := now\<rparr>)\<rparr>))
          else (Some (roe_account e), c))"

definition roc_remove ::
    "('i, 'q) index_list \<Rightarrow> cache_key \<Rightarrow> ('i, 'q) read_cache \<Rightarrow> account_shared_data option \<times> ('i, 'q) read_cache" where
  "roc_remove ops key c =
     (case roc_cache c key of
        None \<Rightarrow> (None, c)
      | Some e \<Rightarrow>
          (Some (roe_account e),
           c\<lparr>roc_cache := (roc_cache c)(key := None), roc_queue := il_remove ops (roe_index e) (roc_queue c),
             roc_data_size := roc_data_size c - roc_account_size c (roe_account e)\<rparr>))"

partial_function (option) roc_evict ::
    "('i, 'q) index_list \<Rightarrow> ('i, 'q) read_cache \<Rightarrow> ('i, 'q) read_cache option" where
  "roc_evict ops c =
     (if roc_max_data_size c < roc_data_size c
      then (case il_get_first ops (roc_queue c) of
              None \<Rightarrow> Some c
            | Some key \<Rightarrow> roc_evict ops (snd (roc_remove ops key c)))
      else Some c)"

definition roc_insert ::
    "('i, 'q) index_list \<Rightarrow> u32 \<Rightarrow> cache_key \<Rightarrow> account_shared_data \<Rightarrow> ('i, 'q) read_cache \<Rightarrow> ('i, 'q) read_cache" where
  "roc_insert ops now key account c =
     (let c1 = c\<lparr>roc_data_size := roc_data_size c + roc_account_size c account\<rparr>
      in case roc_cache c key of
           None \<Rightarrow>
             (let (i, q) = il_insert_last ops key (roc_queue c)
              in c1\<lparr>roc_queue := q,
                    roc_cache := (roc_cache c)(key \<mapsto>
                      \<lparr>roe_account = account, roe_index = i, roe_last_update_time = now\<rparr>)\<rparr>)
         | Some e \<Rightarrow>
             (let (i, q) = il_insert_last ops key (il_remove ops (roe_index e) (roc_queue c))
              in c1\<lparr>roc_data_size := roc_data_size c1 - roc_account_size c (roe_account e), roc_queue := q,
                    roc_cache := (roc_cache c)(key \<mapsto> e\<lparr>roe_account := account, roe_index := i\<rparr>)\<rparr>))"

definition roc_store ::
    "('i, 'q) index_list \<Rightarrow> u32 \<Rightarrow> pubkey \<Rightarrow> u64 \<Rightarrow> account_shared_data \<Rightarrow> ('i, 'q) read_cache \<Rightarrow>
     ('i, 'q) read_cache option" where
  "roc_store ops now key slot account c = roc_evict ops (roc_insert ops now (CacheKey key slot) account c)"

section \<open>Least recently used\<close>

text \<open>
  The specification: a list of keys and accounts, the least recently used first, with the time in
  milliseconds at which each was last moved by a load or first stored.  Loading moves the account to
  the end, unless it was moved too short a time ago.  Storing puts the account at the end and then drops
  accounts from the front while the list is too big; storing over an account keeps its time.
\<close>

type_synonym lru = "(cache_key \<times> account_shared_data \<times> u32) list"

definition lru_size :: "nat \<Rightarrow> lru \<Rightarrow> nat" where
  "lru_size entry_size xs = (\<Sum>x \<leftarrow> xs. entry_size + length (acct_data (fst (snd x))))"

fun lru_trim :: "nat \<Rightarrow> nat \<Rightarrow> lru \<Rightarrow> lru" where
  "lru_trim entry_size limit [] = []"
| "lru_trim entry_size limit (x # xs) =
     (if limit < lru_size entry_size (x # xs) then lru_trim entry_size limit xs else x # xs)"

definition lru_remove :: "cache_key \<Rightarrow> lru \<Rightarrow> lru" where
  "lru_remove key xs = filter (\<lambda>x. fst x \<noteq> key) xs"

definition lru_touch :: "cache_key \<Rightarrow> account_shared_data \<Rightarrow> u32 \<Rightarrow> lru \<Rightarrow> lru" where
  "lru_touch key account t xs = lru_remove key xs @ [(key, account, t)]"

definition lru_load :: "u32 \<Rightarrow> u32 \<Rightarrow> cache_key \<Rightarrow> lru \<Rightarrow> account_shared_data option \<times> lru" where
  "lru_load skip now key xs =
     (case map_of xs key of
        None \<Rightarrow> (None, xs)
      | Some (a, t) \<Rightarrow> (Some a, if skip \<le> now - t then lru_touch key a now xs else xs))"

definition lru_time :: "u32 \<Rightarrow> cache_key \<Rightarrow> lru \<Rightarrow> u32" where
  "lru_time now key xs = (case map_of xs key of None \<Rightarrow> now | Some (a, t) \<Rightarrow> t)"

definition lru_store :: "nat \<Rightarrow> nat \<Rightarrow> u32 \<Rightarrow> cache_key \<Rightarrow> account_shared_data \<Rightarrow> lru \<Rightarrow> lru" where
  "lru_store entry_size limit now key account xs =
     lru_trim entry_size limit (lru_touch key account (lru_time now key xs) xs)"

definition entry_view :: "'i cache_entry \<Rightarrow> account_shared_data \<times> u32" where
  "entry_view e = (roe_account e, roe_last_update_time e)"

definition cache_lru :: "('q \<Rightarrow> ('i \<times> cache_key) list) \<Rightarrow> ('i, 'q) read_cache \<Rightarrow> lru" where
  "cache_lru items c =
     map (\<lambda>(i, key). (key, case roc_cache c key of Some e \<Rightarrow> entry_view e | None \<Rightarrow> (shared_default, 0)))
       (items (roc_queue c))"

text \<open>What no operation changes: the size limit, the time between moves and the size of an entry.\<close>

definition roc_params :: "('i, 'q) read_cache \<Rightarrow> nat \<times> u32 \<times> nat" where
  "roc_params c = (roc_max_data_size c, roc_ms_to_skip_lru_update c, roc_entry_size c)"

definition queue_ok :: "('q \<Rightarrow> ('i \<times> cache_key) list) \<Rightarrow> ('i, 'q) read_cache \<Rightarrow> bool" where
  "queue_ok items c \<longleftrightarrow>
     distinct (map fst (items (roc_queue c))) \<and> distinct (map snd (items (roc_queue c))) \<and>
     (\<forall>i key. (i, key) \<in> set (items (roc_queue c)) \<longleftrightarrow> (\<exists>e. roc_cache c key = Some e \<and> roe_index e = i))"

definition roc_inv :: "('q \<Rightarrow> ('i \<times> cache_key) list) \<Rightarrow> ('i, 'q) read_cache \<Rightarrow> bool" where
  "roc_inv items c \<longleftrightarrow> queue_ok items c \<and> roc_data_size c = lru_size (roc_entry_size c) (cache_lru items c)"

lemma filter_pairs:
  assumes "distinct (map fst xs)" and "distinct (map snd xs)" and "(i, k) \<in> set xs"
  shows "filter (\<lambda>x. fst x \<noteq> i) xs = filter (\<lambda>x. snd x \<noteq> k) xs"
proof (rule filter_cong [OF refl])
  fix x assume "x \<in> set xs"
  then show "(fst x \<noteq> i) = (snd x \<noteq> k)"
    using assms unfolding distinct_map inj_on_def by (metis fst_conv snd_conv)
qed

lemma cache_lru_keys: "map fst (cache_lru items c) = map snd (items (roc_queue c))"
  by (simp add: cache_lru_def case_prod_beta comp_def)

lemma cache_lru_mem:
  assumes "queue_ok items c"
  shows "(key, a) \<in> set (cache_lru items c) \<longleftrightarrow> (\<exists>e. roc_cache c key = Some e \<and> entry_view e = a)"
  using assms by (force simp: cache_lru_def queue_ok_def)

lemma cache_lru_find:
  assumes "queue_ok items c"
  shows "map_of (cache_lru items c) key = map_option entry_view (roc_cache c key)"
proof -
  have "distinct (map fst (cache_lru items c))" using assms by (simp add: cache_lru_keys queue_ok_def)
  then have "map_of (cache_lru items c) key = Some a \<longleftrightarrow> map_option entry_view (roc_cache c key) = Some a" for a
    using cache_lru_mem [OF assms, of key a] by (simp add: map_of_eq_Some_iff)
  then show ?thesis by (metis option.exhaust)
qed

lemma lru_size_append [simp]: "lru_size n (xs @ ys) = lru_size n xs + lru_size n ys"
  by (simp add: lru_size_def)

lemma lru_size_Cons [simp]: "lru_size n (x # xs) = n + length (acct_data (fst (snd x))) + lru_size n xs"
  by (simp add: lru_size_def)

lemma lru_size_Nil [simp]: "lru_size n [] = 0"
  by (simp add: lru_size_def)

lemma lru_size_remove:
  "distinct (map fst xs) \<Longrightarrow> (key, a) \<in> set xs \<Longrightarrow>
   lru_size n (lru_remove key xs) + (n + length (acct_data (fst a))) = lru_size n xs"
proof (induction xs)
  case (Cons x xs)
  show ?case
  proof (cases "fst x = key")
    case True
    then have "\<forall>y \<in> set xs. fst y \<noteq> key" using Cons.prems(1) by (auto simp: image_iff)
    moreover from this have "x = (key, a)" using Cons.prems(2) by auto
    ultimately show ?thesis by (simp add: lru_remove_def filter_True)
  next
    case False
    then have "(key, a) \<in> set xs" using Cons.prems(2) by auto
    then show ?thesis using Cons.IH Cons.prems(1) False by (simp add: lru_remove_def)
  qed
qed simp

lemma cache_size_remove:
  assumes "queue_ok items c" and "roc_cache c key = Some e"
  shows "lru_size n (lru_remove key (cache_lru items c)) + (n + length (acct_data (roe_account e))) =
    lru_size n (cache_lru items c)"
proof -
  have "distinct (map fst (cache_lru items c))" using assms(1) by (simp add: cache_lru_keys queue_ok_def)
  moreover have "(key, entry_view e) \<in> set (cache_lru items c)" using cache_lru_mem [OF assms(1)] assms(2) by blast
  ultimately show ?thesis using lru_size_remove [of "cache_lru items c" key "entry_view e" n] by (simp add: entry_view_def)
qed

lemma remove_absent:
  assumes "queue_ok items c" and "roc_cache c key = None"
  shows "lru_remove key (cache_lru items c) = cache_lru items c"
proof -
  have "\<forall>x \<in> set (cache_lru items c). fst x \<noteq> key"
    using cache_lru_mem [OF assms(1), of key] assms(2) by (metis option.distinct(1) prod.collapse)
  then show ?thesis by (simp add: lru_remove_def filter_True)
qed

text \<open>Taking a key out of the queue, if it is there, and putting it at the end.\<close>

definition unqueued :: "('i, 'q) index_list \<Rightarrow> cache_key \<Rightarrow> ('i, 'q) read_cache \<Rightarrow> 'q" where
  "unqueued ops key c =
     (case roc_cache c key of None \<Rightarrow> roc_queue c | Some e \<Rightarrow> il_remove ops (roe_index e) (roc_queue c))"

lemma unqueued_items:
  assumes "index_list_laws ops items" and "queue_ok items c"
  shows "items (unqueued ops key c) = filter (\<lambda>x. snd x \<noteq> key) (items (roc_queue c))"
proof (cases "roc_cache c key")
  case None
  then have "\<forall>x \<in> set (items (roc_queue c)). snd x \<noteq> key"
    using assms(2) by (auto simp: queue_ok_def)
  then show ?thesis using None by (simp add: unqueued_def filter_True)
next
  case (Some e)
  then have "(roe_index e, key) \<in> set (items (roc_queue c))" using assms(2) by (auto simp: queue_ok_def)
  then show ?thesis
    using Some assms filter_pairs [of "items (roc_queue c)" "roe_index e" key]
    by (simp add: unqueued_def index_list_laws_def queue_ok_def)
qed

lemma requeue:
  assumes "index_list_laws ops items" and "queue_ok items c"
    and "il_insert_last ops key (unqueued ops key c) = (i, q)" and "roe_index e = i"
    and "roc_queue c' = q" and "roc_cache c' = (roc_cache c)(key \<mapsto> e)"
  shows "queue_ok items c' \<and> cache_lru items c' = lru_touch key (roe_account e) (roe_last_update_time e) (cache_lru items c)"
proof -
  let ?xs = "filter (\<lambda>x. snd x \<noteq> key) (items (roc_queue c))"
  have q: "items q = ?xs @ [(i, key)]" "i \<notin> fst ` set ?xs"
    using assms(1,3) unqueued_items [OF assms(1,2), of key] unfolding index_list_laws_def by (metis fst_conv snd_conv)+
  have "distinct (map fst (items q))" "distinct (map snd (items q))"
    using assms(2) q by (auto simp: queue_ok_def distinct_map_filter)
  moreover have "(j, k) \<in> set (items q) \<longleftrightarrow> (\<exists>e'. roc_cache c' k = Some e' \<and> roe_index e' = j)" for j k
    using assms(2,4) by (cases "k = key") (auto simp: queue_ok_def q(1) assms(6))
  ultimately have "queue_ok items c'" by (simp add: queue_ok_def assms(5))
  moreover have "cache_lru items c' = lru_touch key (roe_account e) (roe_last_update_time e) (cache_lru items c)"
    by (auto simp: cache_lru_def lru_touch_def lru_remove_def entry_view_def assms(5,6) q(1) filter_map comp_def case_prod_beta)
  ultimately show ?thesis by simp
qed

lemma roc_insert_inv:
  assumes "index_list_laws ops items" and "roc_inv items c"
  shows "roc_inv items (roc_insert ops now key account c) \<and>
    cache_lru items (roc_insert ops now key account c) =
      lru_touch key account (lru_time now key (cache_lru items c)) (cache_lru items c) \<and>
    roc_params (roc_insert ops now key account c) = roc_params c"
proof -
  let ?c = "roc_insert ops now key account c"
  have ok: "queue_ok items c" and size: "roc_data_size c = lru_size (roc_entry_size c) (cache_lru items c)"
    using assms(2) by (simp_all add: roc_inv_def)
  obtain i q where iq: "il_insert_last ops key (unqueued ops key c) = (i, q)" by force
  have params: "roc_params ?c = roc_params c" "roc_entry_size ?c = roc_entry_size c"
    by (simp_all add: roc_insert_def roc_params_def Let_def split: option.split prod.split)
  show ?thesis
  proof (cases "roc_cache c key")
    case None
    have new: "roc_queue ?c = q" "roc_cache ?c = (roc_cache c)(key \<mapsto> \<lparr>roe_account = account, roe_index = i, roe_last_update_time = now\<rparr>)"
        "roc_data_size ?c = roc_data_size c + roc_account_size c account"
      using iq None by (simp_all add: roc_insert_def unqueued_def Let_def)
    have "lru_time now key (cache_lru items c) = now" by (simp add: lru_time_def cache_lru_find [OF ok] None)
    with requeue [OF assms(1) ok iq _ new(1,2)] new(3) params size remove_absent [OF ok None]
    show ?thesis by (simp add: roc_inv_def roc_account_size_def lru_touch_def)
  next
    case (Some e)
    have new: "roc_queue ?c = q" "roc_cache ?c = (roc_cache c)(key \<mapsto> e\<lparr>roe_account := account, roe_index := i\<rparr>)"
        "roc_data_size ?c = roc_data_size c + roc_account_size c account - roc_account_size c (roe_account e)"
      using iq Some by (simp_all add: roc_insert_def unqueued_def Let_def)
    have "lru_time now key (cache_lru items c) = roe_last_update_time e"
      by (simp add: lru_time_def cache_lru_find [OF ok] Some entry_view_def)
    with requeue [OF assms(1) ok iq _ new(1,2)] new(3) params size cache_size_remove [OF ok Some, of "roc_entry_size c"]
    show ?thesis by (simp add: roc_inv_def roc_account_size_def lru_touch_def)
  qed
qed

lemma roc_remove_inv:
  assumes "index_list_laws ops items" and "roc_inv items c" and "roc_remove ops key c = (r, c')"
  shows "r = map_option fst (map_of (cache_lru items c) key) \<and> roc_inv items c' \<and>
    cache_lru items c' = lru_remove key (cache_lru items c) \<and> roc_params c' = roc_params c"
proof -
  have ok: "queue_ok items c" and size: "roc_data_size c = lru_size (roc_entry_size c) (cache_lru items c)"
    using assms(2) by (simp_all add: roc_inv_def)
  show ?thesis
  proof (cases "roc_cache c key")
    case None
    then show ?thesis
      using assms(2,3) remove_absent [OF ok None] cache_lru_find [OF ok, of key] by (auto simp: roc_remove_def)
  next
    case (Some e)
    have c': "r = Some (roe_account e)" "roc_cache c' = (roc_cache c)(key := None)" "roc_params c' = roc_params c"
        "roc_queue c' = unqueued ops key c" "roc_data_size c' = roc_data_size c - roc_account_size c (roe_account e)"
      using assms(3) Some by (auto simp: roc_remove_def roc_params_def unqueued_def)
    let ?xs = "filter (\<lambda>x. snd x \<noteq> key) (items (roc_queue c))"
    have q: "items (roc_queue c') = ?xs" using unqueued_items [OF assms(1) ok] c'(4) by simp
    have lru: "cache_lru items c' = lru_remove key (cache_lru items c)"
      by (auto simp: cache_lru_def lru_remove_def q c'(2) filter_map comp_def case_prod_beta)
    have "(j, k) \<in> set ?xs \<longleftrightarrow> (\<exists>e'. roc_cache c' k = Some e' \<and> roe_index e' = j)" for j k
      using ok by (cases "k = key") (auto simp: queue_ok_def c'(2))
    then have "queue_ok items c'" using ok by (simp add: queue_ok_def q distinct_map_filter)
    moreover have "roc_entry_size c' = roc_entry_size c" using c'(3) by (simp add: roc_params_def)
    ultimately show ?thesis
      using cache_size_remove [OF ok Some, of "roc_entry_size c"] lru size c'(1,3,5) Some cache_lru_find [OF ok, of key]
      by (simp add: roc_inv_def roc_account_size_def entry_view_def)
  qed
qed

lemma lru_first:
  assumes "index_list_laws ops items" and "roc_inv items c" and "cache_lru items c = x # xs"
  shows "il_get_first ops (roc_queue c) = Some (fst x)" and "lru_remove (fst x) (cache_lru items c) = xs"
proof -
  obtain i rest where "items (roc_queue c) = (i, fst x) # rest" using assms(3) by (auto simp: cache_lru_def)
  then show "il_get_first ops (roc_queue c) = Some (fst x)" using assms(1) by (simp add: index_list_laws_def)
  have "distinct (map fst (x # xs))"
    using assms(2) cache_lru_keys [of items c] unfolding assms(3) by (simp add: roc_inv_def queue_ok_def)
  then show "lru_remove (fst x) (cache_lru items c) = xs"
    by (auto simp: assms(3) lru_remove_def image_iff filter_id_conv)
qed

lemma roc_evict_trims:
  assumes "index_list_laws ops items" and "roc_inv items c"
  shows "\<exists>c'. roc_evict ops c = Some c' \<and> roc_inv items c' \<and>
    cache_lru items c' = lru_trim (roc_entry_size c) (roc_max_data_size c) (cache_lru items c) \<and>
    roc_params c' = roc_params c"
  using assms(2)
proof (induction "cache_lru items c" arbitrary: c)
  case Nil
  then have "roc_data_size c = 0" by (simp add: roc_inv_def flip: Nil.hyps)
  then show ?case using Nil by (simp add: roc_evict.simps flip: Nil.hyps)
next
  case (Cons x xs)
  note first = lru_first [OF assms(1) Cons.prems Cons.hyps(2) [symmetric]]
  let ?c = "snd (roc_remove ops (fst x) c)"
  have removed: "roc_inv items ?c" "cache_lru items ?c = xs" "roc_params ?c = roc_params c"
    using roc_remove_inv [OF assms(1) Cons.prems surjective_pairing, of "fst x"] first(2) by simp_all
  have size: "roc_data_size c = lru_size (roc_entry_size c) (x # xs)"
    using Cons.prems Cons.hyps(2) by (simp add: roc_inv_def)
  show ?case
  proof (cases "roc_max_data_size c < roc_data_size c")
    case True
    then have "roc_evict ops c = roc_evict ops ?c" using first(1) by (simp add: roc_evict.simps [of ops c])
    moreover have "lru_trim (roc_entry_size c) (roc_max_data_size c) (x # xs) = lru_trim (roc_entry_size c) (roc_max_data_size c) xs"
      using True size by simp
    ultimately show ?thesis
      using Cons.hyps(1) [of ?c] removed Cons.hyps(2) by (simp add: roc_params_def)
  next
    case False
    then have "roc_evict ops c = Some c" by (simp add: roc_evict.simps [of ops c])
    moreover have "lru_trim (roc_entry_size c) (roc_max_data_size c) (x # xs) = x # xs" using False size by simp
    ultimately show ?thesis using Cons.prems Cons.hyps(2) by simp
  qed
qed

lemma lru_trim_bounded: "lru_size n (lru_trim n limit xs) \<le> limit"
  by (induction xs) auto

lemma roc_load_inv:
  assumes "index_list_laws ops items" and "roc_inv items c" and "roc_load ops now key slot c = (r, c')"
  shows "(r, cache_lru items c') =
      lru_load (roc_ms_to_skip_lru_update c) now (CacheKey key slot) (cache_lru items c) \<and>
    roc_inv items c' \<and> roc_params c' = roc_params c"
proof -
  have ok: "queue_ok items c" and size: "roc_data_size c = lru_size (roc_entry_size c) (cache_lru items c)"
    using assms(2) by (simp_all add: roc_inv_def)
  note find = cache_lru_find [OF ok, of "CacheKey key slot"]
  show ?thesis
  proof (cases "roc_cache c (CacheKey key slot)")
    case None
    then show ?thesis using assms(2,3) find by (simp add: roc_load_def lru_load_def)
  next
    case (Some e)
    show ?thesis
    proof (cases "roc_ms_to_skip_lru_update c \<le> now - roe_last_update_time e")
      case True
      obtain i q where iq: "il_insert_last ops (CacheKey key slot) (unqueued ops (CacheKey key slot) c) = (i, q)" by force
      have new: "r = Some (roe_account e)" "roc_queue c' = q"
          "roc_cache c' = (roc_cache c)(CacheKey key slot \<mapsto> e\<lparr>roe_index := i, roe_last_update_time := now\<rparr>)"
          "roc_data_size c' = roc_data_size c" "roc_params c' = roc_params c"
        using assms(3) iq Some True by (auto simp: roc_load_def roc_params_def unqueued_def Let_def)
      from requeue [OF assms(1) ok iq _ new(2,3)] new(1,4,5) size find Some True
        cache_size_remove [OF ok Some, of "roc_entry_size c"]
      show ?thesis by (simp add: roc_inv_def roc_params_def lru_load_def entry_view_def lru_touch_def)
    next
      case False
      then show ?thesis using assms(2,3) Some find by (auto simp: roc_load_def lru_load_def entry_view_def)
    qed
  qed
qed

text \<open>
  (C29) The read-only cache implements a least-recently-used list of bounded size.  Storing returns,
  puts the account at the end of the list and then drops accounts from the front until the size limit
  holds.  Loading returns the stored account, and moves it to the end of the list with the current time
  when at least the configured number of milliseconds has passed since its time; otherwise, and when
  the account is not found, the list stays as it is.  Removing returns the account and takes exactly it
  out of the list.  This holds for a cache whose queue and map agree, which every operation keeps.
\<close>

theorem read_cache_refines_lru:
  assumes "index_list_laws ops items" and "roc_inv items c"
  shows "(\<exists>c'. roc_store ops now key slot account c = Some c' \<and> roc_inv items c' \<and> roc_params c' = roc_params c \<and>
      cache_lru items c' = lru_store (roc_entry_size c) (roc_max_data_size c) now (CacheKey key slot) account (cache_lru items c) \<and>
      roc_data_size c' \<le> roc_max_data_size c) \<and>
    (\<exists>r c'. roc_load ops now key slot c = (r, c') \<and> roc_inv items c' \<and> roc_params c' = roc_params c \<and>
      (r, cache_lru items c') = lru_load (roc_ms_to_skip_lru_update c) now (CacheKey key slot) (cache_lru items c)) \<and>
    (\<exists>r c'. roc_remove ops (CacheKey key slot) c = (r, c') \<and> roc_inv items c' \<and> roc_params c' = roc_params c \<and>
      r = map_option fst (map_of (cache_lru items c) (CacheKey key slot)) \<and>
      cache_lru items c' = lru_remove (CacheKey key slot) (cache_lru items c))"
proof (intro conjI)
  let ?c = "roc_insert ops now (CacheKey key slot) account c"
  note ins = roc_insert_inv [OF assms, of now "CacheKey key slot" account]
  obtain c' where c': "roc_evict ops ?c = Some c'" "roc_inv items c'" "roc_params c' = roc_params c"
      "cache_lru items c' = lru_store (roc_entry_size c) (roc_max_data_size c) now (CacheKey key slot) account (cache_lru items c)"
    using roc_evict_trims [OF assms(1), of ?c] ins by (auto simp: lru_store_def roc_params_def)
  moreover from c' have "roc_data_size c' \<le> roc_max_data_size c"
    using lru_trim_bounded by (simp add: roc_inv_def roc_params_def lru_store_def)
  ultimately show "\<exists>c'. roc_store ops now key slot account c = Some c' \<and> roc_inv items c' \<and> roc_params c' = roc_params c \<and>
      cache_lru items c' = lru_store (roc_entry_size c) (roc_max_data_size c) now (CacheKey key slot) account (cache_lru items c) \<and>
      roc_data_size c' \<le> roc_max_data_size c"
    by (simp add: roc_store_def)
  show "\<exists>r c'. roc_load ops now key slot c = (r, c') \<and> roc_inv items c' \<and> roc_params c' = roc_params c \<and>
      (r, cache_lru items c') = lru_load (roc_ms_to_skip_lru_update c) now (CacheKey key slot) (cache_lru items c)"
    using roc_load_inv [OF assms surjective_pairing] by (metis surjective_pairing)
  show "\<exists>r c'. roc_remove ops (CacheKey key slot) c = (r, c') \<and> roc_inv items c' \<and> roc_params c' = roc_params c \<and>
      r = map_option fst (map_of (cache_lru items c) (CacheKey key slot)) \<and>
      cache_lru items c' = lru_remove (CacheKey key slot) (cache_lru items c)"
    using roc_remove_inv [OF assms surjective_pairing] by (metis surjective_pairing)
qed

text \<open>An instance of the queue: the list itself, with an index above all those in use for a new entry.\<close>

definition list_index_list :: "(nat, (nat \<times> cache_key) list) index_list" where
  "list_index_list =
     \<lparr>il_insert_last = \<lambda>key es. (sum_list (map fst es) + 1, es @ [(sum_list (map fst es) + 1, key)]),
      il_remove = \<lambda>i es. filter (\<lambda>e. fst e \<noteq> i) es,
      il_get_first = \<lambda>es. case es of [] \<Rightarrow> None | e # _ \<Rightarrow> Some (snd e)\<rparr>"

lemma list_index_list_laws: "index_list_laws list_index_list (\<lambda>es. es)"
proof -
  have "sum_list (map fst es) + 1 \<notin> fst ` set es" for es :: "(nat \<times> cache_key) list"
    using member_le_sum_list [of _ "map fst es"] by fastforce
  then show ?thesis by (simp add: index_list_laws_def list_index_list_def)
qed

definition read_cache_demo :: "(nat, (nat \<times> cache_key) list) read_cache" where
  "read_cache_demo =
     \<lparr>roc_cache = Map.empty, roc_queue = [], roc_max_data_size = 250, roc_data_size = 0,
      roc_ms_to_skip_lru_update = 0, roc_entry_size = 100\<rparr>"

theorem read_cache_refines_lru_witness:
  "\<exists>c. roc_store list_index_list 5 pubkey_default 7 shared_default read_cache_demo = Some c \<and>
     cache_lru (\<lambda>es. es) c = [(CacheKey pubkey_default 7, shared_default, 5)] \<and> roc_data_size c \<le> 250"
proof -
  have inv: "roc_inv (\<lambda>es. es) read_cache_demo"
    by (simp add: roc_inv_def queue_ok_def read_cache_demo_def cache_lru_def)
  have "lru_store 100 250 5 (CacheKey pubkey_default 7) shared_default (cache_lru (\<lambda>es. es) read_cache_demo) =
      [(CacheKey pubkey_default 7, shared_default, 5)]"
    by (simp add: lru_store_def lru_time_def lru_touch_def lru_remove_def cache_lru_def read_cache_demo_def
        shared_default_def shared_create_def)
  moreover have "roc_entry_size read_cache_demo = 100" "roc_max_data_size read_cache_demo = 250"
    by (simp_all add: read_cache_demo_def)
  ultimately show ?thesis
    using read_cache_refines_lru [OF list_index_list_laws inv, of 5 pubkey_default 7 shared_default, THEN conjunct1] by auto
qed

end
