(* ===== verification/Accounts_Db.thy ===== *)
theory Accounts_Db
  imports Accounts_Index Read_Cache Accounts_Cache
begin

text \<open>
  How the accounts database reads an account (\<^verbatim>\<open>accounts-db/src/accounts_db.rs\<close>): the index says where the
  account is, in the write cache or in a storage, or, in this fork, that it comes from the base layer;
  the read-only cache short-cuts storages; and a retry loop handles what other threads did between the
  lookup and the access.

  What other threads do is an argument: before its k-th access to the shared state, the reader applies
  \<open>sched k\<close> to it.  A storage is a map from offsets to accounts; its file format is left out.  The
  loop may run forever, so it is a partial function, and the result tells a panic from a return.  The
  maximal root is absent, as the code asserts outside its tests, and the mode that returns accounts
  without lamports, which only tests use, is left out.
\<close>

section \<open>The state\<close>

type_synonym storage_entry = "nat \<rightharpoonup> account"

record ('b, 'i, 'q) accounts_db =
  adb_index :: "'b accounts_index"
  adb_cache :: accounts_cache
  adb_read_cache :: "('i, 'q) read_cache"
  adb_storage :: "u64 \<times> u32 \<rightharpoonup> storage_entry"

record ('b, 'i, 'q, 'w) db_env =
  de_bits :: "'b bit_vec"
  de_queue :: "('i, 'q) index_list"
  de_remote :: "'w remote_env"
  de_now :: u32

datatype load_hint = FixedMaxRoot | Unspecified

datatype account_accessor =
  Stored "(storage_entry \<times> nat) option" | InCache "account_shared_data option"

datatype 'a outcome = Panic | Done 'a

section \<open>Access\<close>

definition get_account_accessor ::
    "('b, 'i, 'q, 'w) db_env \<Rightarrow> u64 \<Rightarrow> pubkey \<Rightarrow> storage_location \<Rightarrow> ('b, 'i, 'q) accounts_db \<Rightarrow>
     account_accessor \<times> ('b, 'i, 'q) accounts_db" where
  "get_account_accessor env slot key l db =
     (case l of
        Cached \<Rightarrow>
          (case ac_load (de_remote env) slot key (adb_cache db) of
             (r, cache) \<Rightarrow> (InCache r, db\<lparr>adb_cache := cache\<rparr>))
      | AppendVec store_id offset \<Rightarrow>
          (Stored (map_option (\<lambda>entry. (entry, offset)) (adb_storage db (slot, store_id))), db))"

text \<open>An account that the index does not know but the loader has is read at the dummy slot 0.\<close>

definition read_index_for_accessor_or_load_slow ::
    "('b, 'i, 'q, 'w) db_env \<Rightarrow> 'b ancestors \<Rightarrow> pubkey \<Rightarrow> bool \<Rightarrow> ('b, 'i, 'q) accounts_db \<Rightarrow>
     (u64 \<times> storage_location \<times> account_accessor option) option \<times> ('b, 'i, 'q) accounts_db" where
  "read_index_for_accessor_or_load_slow env ancestors key clone_in_lock db =
     (case index_get (de_bits env) (adb_index db) key (Some ancestors) None of
        None \<Rightarrow>
          (if 1 < rbf_count ancestors \<and> has_account_from_remote (de_remote env) key (adb_cache db)
           then (Some (0, Cached, None), db) else (None, db))
      | Some (slot_list, index) \<Rightarrow>
          (let (slot, info) = slot_list ! index;
               l = info_storage_location info
           in if clone_in_lock
              then (case get_account_accessor env slot key l db of
                      (accessor, db') \<Rightarrow> (Some (slot, l, Some accessor), db'))
              else (Some (slot, l, None), db)))"

abbreviation ABSURD_CONSECUTIVE_FAILED_ITERATIONS :: nat where
  "ABSURD_CONSECUTIVE_FAILED_ITERATIONS \<equiv> 100"

fun accessor_found :: "account_accessor \<Rightarrow> bool" where
  "accessor_found (Stored r) = (r \<noteq> None)"
| "accessor_found (InCache r) = (r \<noteq> None)"

text \<open>The number of failed iterations after a miss, or a failed assertion.\<close>

fun count_failure :: "load_hint \<Rightarrow> account_accessor \<Rightarrow> nat \<Rightarrow> nat outcome" where
  "count_failure hint (InCache _) n = (if hint = FixedMaxRoot \<and> 1 < n + 1 then Panic else Done (n + 1))"
| "count_failure FixedMaxRoot (Stored _) n = Done n"
| "count_failure Unspecified (Stored _) n = Done (n + 1)"

type_synonym ('b, 'i, 'q) schedule = "nat \<Rightarrow> ('b, 'i, 'q) accounts_db \<Rightarrow> ('b, 'i, 'q) accounts_db"

partial_function (option) retry_to_get_account_accessor ::
    "('b, 'i, 'q, 'w) db_env \<Rightarrow> ('b, 'i, 'q) schedule \<Rightarrow> nat \<Rightarrow> nat \<Rightarrow> u64 \<Rightarrow> storage_location \<Rightarrow> 'b ancestors \<Rightarrow>
     pubkey \<Rightarrow> load_hint \<Rightarrow> ('b, 'i, 'q) accounts_db \<Rightarrow>
     ((account_accessor \<times> u64) option outcome \<times> ('b, 'i, 'q) accounts_db) option" where
  "retry_to_get_account_accessor env sched k n slot l ancestors key hint db =
     (case get_account_accessor env slot key l (sched k db) of
        (accessor, db1) \<Rightarrow>
          if accessor_found accessor then Some (Done (Some (accessor, slot)), db1)
          else (case count_failure hint accessor n of
                  Panic \<Rightarrow> Some (Panic, db1)
                | Done n' \<Rightarrow>
                    (let fallback = (ABSURD_CONSECUTIVE_FAILED_ITERATIONS \<le> n')
                     in case read_index_for_accessor_or_load_slow env ancestors key fallback (sched (k + 1) db1) of
                          (None, db2) \<Rightarrow> Some (Done None, db2)
                        | (Some (new_slot, new_l, accessor'), db2) \<Rightarrow>
                            if new_slot = slot \<and> is_store_id_equal new_l l then Some (Panic, db2)
                            else if fallback
                            then Some (case accessor' of Some a \<Rightarrow> Done (Some (a, new_slot)) | None \<Rightarrow> Panic, db2)
                            else retry_to_get_account_accessor env sched (k + 2) n' new_slot new_l ancestors key hint db2)))"

text \<open>The account of an accessor and whether it came from the write cache.\<close>

fun check_and_get_loaded_account :: "account_accessor \<Rightarrow> (account_shared_data \<times> bool) outcome" where
  "check_and_get_loaded_account (InCache (Some a)) = Done (a, True)"
| "check_and_get_loaded_account (Stored (Some (entry, offset))) =
     (case entry offset of Some a \<Rightarrow> Done (to_account_shared_data a, False) | None \<Rightarrow> Panic)"
| "check_and_get_loaded_account _ = Panic"

section \<open>Loading\<close>

definition nonzero :: "account_shared_data \<times> u64 \<Rightarrow> (account_shared_data \<times> u64) option" where
  "nonzero r = (if acct_lamports (fst r) = 0 then None else Some r)"

type_synonym ('b, 'i, 'q) load_result =
  "((account_shared_data \<times> u64) option outcome \<times> ('b, 'i, 'q) accounts_db) option"

text \<open>What follows the lookup in the index and in the read-only cache.\<close>

definition load_from_accessor ::
    "('b, 'i, 'q, 'w) db_env \<Rightarrow> ('b, 'i, 'q) schedule \<Rightarrow> u64 \<Rightarrow> storage_location \<Rightarrow> 'b ancestors \<Rightarrow> pubkey \<Rightarrow>
     load_hint \<Rightarrow> ('b, 'i, 'q) accounts_db \<Rightarrow> ('b, 'i, 'q) load_result" where
  "load_from_accessor env sched slot l ancestors key hint db =
     (case retry_to_get_account_accessor env sched 1 0 slot l ancestors key hint db of
        None \<Rightarrow> None
      | Some (Panic, db1) \<Rightarrow> Some (Panic, db1)
      | Some (Done None, db1) \<Rightarrow> Some (Done None, db1)
      | Some (Done (Some (accessor, slot')), db1) \<Rightarrow>
          (case check_and_get_loaded_account accessor of
             Panic \<Rightarrow> Some (Panic, db1)
           | Done (account, is_cached) \<Rightarrow>
               if acct_lamports account = 0 then Some (Done None, db1)
               else if is_cached then Some (Done (Some (account, slot')), db1)
               else map_option (\<lambda>rc. (Done (Some (account, slot')), db1\<lparr>adb_read_cache := rc\<rparr>))
                      (roc_store (de_queue env) (de_now env) key slot' account (adb_read_cache db1))))"

definition do_load_with_populate_read_cache ::
    "('b, 'i, 'q, 'w) db_env \<Rightarrow> ('b, 'i, 'q) schedule \<Rightarrow> bool \<Rightarrow> 'b ancestors \<Rightarrow> pubkey \<Rightarrow> load_hint \<Rightarrow>
     ('b, 'i, 'q) accounts_db \<Rightarrow> ('b, 'i, 'q) load_result" where
  "do_load_with_populate_read_cache env sched load_into_read_cache_only ancestors key hint db =
     (case read_index_for_accessor_or_load_slow env ancestors key False (sched 0 db) of
        (None, db1) \<Rightarrow> Some (Done None, db1)
      | (Some (slot, l, _), db1) \<Rightarrow>
          (if load_into_read_cache_only then
             (if location_is_cached l \<or> roc_in_cache key slot (adb_read_cache db1) then Some (Done None, db1)
              else load_from_accessor env sched slot l ancestors key hint db1)
           else if location_is_cached l then load_from_accessor env sched slot l ancestors key hint db1
           else (case roc_load (de_queue env) (de_now env) key slot (adb_read_cache db1) of
                   (Some account, rc) \<Rightarrow> Some (Done (nonzero (account, slot)), db1\<lparr>adb_read_cache := rc\<rparr>)
                 | (None, rc) \<Rightarrow>
                     load_from_accessor env sched slot l ancestors key hint (db1\<lparr>adb_read_cache := rc\<rparr>))))"

definition do_load ::
    "('b, 'i, 'q, 'w) db_env \<Rightarrow> ('b, 'i, 'q) schedule \<Rightarrow> 'b ancestors \<Rightarrow> pubkey \<Rightarrow> load_hint \<Rightarrow>
     ('b, 'i, 'q) accounts_db \<Rightarrow> ('b, 'i, 'q) load_result" where
  "do_load env sched = do_load_with_populate_read_cache env sched False"

definition load_with_fixed_root ::
    "('b, 'i, 'q, 'w) db_env \<Rightarrow> ('b, 'i, 'q) schedule \<Rightarrow> 'b ancestors \<Rightarrow> pubkey \<Rightarrow>
     ('b, 'i, 'q) accounts_db \<Rightarrow> ('b, 'i, 'q) load_result" where
  "load_with_fixed_root env sched ancestors key = do_load env sched ancestors key FixedMaxRoot"

section \<open>Matching owners\<close>

datatype match_owner_error = NoMatch | UnableToLoad

definition owner_position :: "'a account_scheme \<Rightarrow> pubkey list \<Rightarrow> match_owner_error + nat" where
  "owner_position account owners =
     (if acct_lamports account = 0 then Inl NoMatch
      else (case position (\<lambda>entry. acct_owner account = entry) owners of Some i \<Rightarrow> Inr i | None \<Rightarrow> Inl NoMatch))"

fun accessor_matches_owners :: "account_accessor \<Rightarrow> pubkey list \<Rightarrow> match_owner_error + nat" where
  "accessor_matches_owners (InCache None) owners = Inl NoMatch"
| "accessor_matches_owners (InCache (Some a)) owners = owner_position a owners"
| "accessor_matches_owners (Stored None) owners = Inl UnableToLoad"
| "accessor_matches_owners (Stored (Some (entry, offset))) owners =
     (case entry offset of None \<Rightarrow> Inl UnableToLoad | Some a \<Rightarrow> owner_position a owners)"

definition account_matches_owners ::
    "('b, 'i, 'q, 'w) db_env \<Rightarrow> ('b, 'i, 'q) schedule \<Rightarrow> 'b ancestors \<Rightarrow> pubkey \<Rightarrow> pubkey list \<Rightarrow>
     ('b, 'i, 'q) accounts_db \<Rightarrow> ((match_owner_error + nat) outcome \<times> ('b, 'i, 'q) accounts_db) option" where
  "account_matches_owners env sched ancestors account owners db =
     (let retry = (\<lambda>slot l db1.
        case retry_to_get_account_accessor env sched 1 0 slot l ancestors account Unspecified db1 of
          None \<Rightarrow> None
        | Some (Panic, db2) \<Rightarrow> Some (Panic, db2)
        | Some (Done None, db2) \<Rightarrow> Some (Done (Inl UnableToLoad), db2)
        | Some (Done (Some (accessor, _)), db2) \<Rightarrow> Some (Done (accessor_matches_owners accessor owners), db2))
      in case read_index_for_accessor_or_load_slow env ancestors account False (sched 0 db) of
           (None, db1) \<Rightarrow> Some (Done (Inl UnableToLoad), db1)
         | (Some (slot, l, _), db1) \<Rightarrow>
             (if location_is_cached l then retry slot l db1
              else (case roc_load (de_queue env) (de_now env) account slot (adb_read_cache db1) of
                      (Some a, rc) \<Rightarrow> Some (Done (owner_position a owners), db1\<lparr>adb_read_cache := rc\<rparr>)
                    | (None, rc) \<Rightarrow> retry slot l (db1\<lparr>adb_read_cache := rc\<rparr>))))"

end
