(* ===== verification/Db_Properties.thy ===== *)
theory Db_Properties
  imports Accounts_Db Cache_Properties
begin

text \<open>
  Properties of reading an account: a reader that races with the flusher of the write cache returns the
  account without a panic, and an account of the base layer is read once and never refreshed.
\<close>

section \<open>Consistent states\<close>

text \<open>
  \<open>V slot\<close> is the account that the slot wrote under the reader's key.  In a consistent state every index
  entry of this key leads to it, and so do the write cache, for an indexed slot, and the read-only cache;
  and the set of roots satisfies its invariant.
\<close>

definition indexed :: "('b, 'i, 'q) accounts_db \<Rightarrow> pubkey \<Rightarrow> u64 \<Rightarrow> account_info \<Rightarrow> bool" where
  "indexed db key slot info \<longleftrightarrow>
     (\<exists>entries. ai_account_maps (adb_index db) key = Some entries \<and> (slot, info) \<in> set entries)"

definition leads_to ::
    "('b, 'i, 'q) accounts_db \<Rightarrow> pubkey \<Rightarrow> u64 \<Rightarrow> account_info \<Rightarrow> account_shared_data \<Rightarrow> bool" where
  "leads_to db key slot info a \<longleftrightarrow>
     (if info_is_cached info then ac_cached slot key (adb_cache db) = Some a
      else \<exists>entry acct. adb_storage db (slot, ainfo_store_id info) = Some entry \<and>
             entry (info_offset info) = Some acct \<and> to_account_shared_data acct = a)"

definition consistent ::
    "'b bit_vec \<Rightarrow> (u64 \<Rightarrow> account_shared_data) \<Rightarrow> pubkey \<Rightarrow> ('b, 'i, 'q) accounts_db \<Rightarrow> bool" where
  "consistent ops V key db \<longleftrightarrow>
     (\<forall>slot info. indexed db key slot info \<longrightarrow> leads_to db key slot info (V slot)) \<and>
     (\<forall>slot info a. indexed db key slot info \<longrightarrow> ac_cached slot key (adb_cache db) = Some a \<longrightarrow> a = V slot) \<and>
     (\<forall>slot e. roc_cache (adb_read_cache db) (CacheKey key slot) = Some e \<longrightarrow> roe_account e = V slot) \<and>
     rbf_inv ops (ai_alive_roots (adb_index db))"

section \<open>The flusher\<close>

text \<open>
  The steps of the flusher (\<^verbatim>\<open>do_flush_slot_cache\<close>), in the order of the source.  An account of the slot that a
  later root has written as well is not flushed but purged from the index; a slot none of whose
  accounts is left in the index is dead and stops being a root.  The other accounts are written to
  a new storage, then the index points to them, and only then the slot is removed from the write cache.
\<close>

inductive flush_step :: "'b bit_vec \<Rightarrow> ('b, 'i, 'q) accounts_db \<Rightarrow> ('b, 'i, 'q) accounts_db \<Rightarrow> bool" for ops where
  purge:
    "indexed db key later info \<Longrightarrow> slot_in ops (ai_alive_roots (adb_index db)) later \<Longrightarrow> slot < later \<Longrightarrow>
     purge_exact key {slot} (adb_index db) = (is_empty, idx, reclaims) \<Longrightarrow>
     flush_step ops db (db\<lparr>adb_index := idx\<rparr>)"
| dead_slot:
    "(\<And>key info. \<not> indexed db key slot info) \<Longrightarrow>
     flush_step ops db (db\<lparr>adb_index := snd (clean_dead_slot ops slot (adb_index db))\<rparr>)"
| write_storage:
    "adb_storage db (slot, store_id) = None \<Longrightarrow>
     flush_step ops db (db\<lparr>adb_storage := (adb_storage db)((slot, store_id) \<mapsto> entry)\<rparr>)"
| update_index:
    "ai_account_maps (adb_index db) key = Some entries \<Longrightarrow> j < length entries \<Longrightarrow> entries ! j = (slot, info) \<Longrightarrow>
     info_is_cached info \<Longrightarrow> ac_cached slot key (adb_cache db) = Some a \<Longrightarrow>
     \<not> info_is_cached info' \<Longrightarrow> adb_storage db (slot, ainfo_store_id info') = Some entry \<Longrightarrow>
     entry (info_offset info') = Some (account_of_shared a) \<Longrightarrow>
     flush_step ops db (db\<lparr>adb_index := (adb_index db)\<lparr>ai_account_maps :=
       (ai_account_maps (adb_index db))(key \<mapsto> entries[j := (slot, info')])\<rparr>\<rparr>)"
| remove_slot:
    "(\<And>key info. indexed db key slot info \<Longrightarrow> \<not> info_is_cached info) \<Longrightarrow>
     flush_step ops db (db\<lparr>adb_cache := snd (ac_remove_slot slot (adb_cache db))\<rparr>)"

text \<open>What a reader relies on: nothing it could have seen moves in a way that loses it.\<close>

definition flushed :: "'b bit_vec \<Rightarrow> ('b, 'i, 'q) accounts_db \<Rightarrow> ('b, 'i, 'q) accounts_db \<Rightarrow> bool" where
  "flushed ops db db' \<longleftrightarrow>
     (\<forall>key ancestors. map_option fst (index_lookup ops (adb_index db') key ancestors None) =
            map_option fst (index_lookup ops (adb_index db) key ancestors None)) \<and>
     ac_remote_loader (adb_cache db') = ac_remote_loader (adb_cache db) \<and>
     adb_read_cache db' = adb_read_cache db \<and> adb_storage db \<subseteq>\<^sub>m adb_storage db' \<and>
     (\<forall>slot key a. ac_cached slot key (adb_cache db') = Some a \<longrightarrow> ac_cached slot key (adb_cache db) = Some a)"

lemma flushed_refl: "flushed ops db db"
  by (simp add: flushed_def)

lemma flushed_trans: "flushed ops s t \<Longrightarrow> flushed ops t u \<Longrightarrow> flushed ops s u"
  unfolding flushed_def by (metis map_le_trans)

lemma flushed_index:
  assumes "\<And>key ancestors. visible_slots ops idx key ancestors \<subseteq> visible_slots ops (adb_index db) key ancestors"
    and "\<And>key ancestors slot. slot \<in> visible_slots ops (adb_index db) key ancestors \<Longrightarrow>
      \<exists>slot' \<in> visible_slots ops idx key ancestors. slot \<le> slot'"
  shows "flushed ops db (db\<lparr>adb_index := idx\<rparr>)"
  using lookup_slot_same [OF assms] by (simp add: flushed_def)

lemma cached_remove:
  "ac_cached slot' key (snd (ac_remove_slot slot ac)) = (if slot' = slot then None else ac_cached slot' key ac)"
  by (simp add: ac_cached_def ac_remove_slot_def ac_slot_cache_def delete_conv')

lemma to_shared_local: "\<not> acct_remote a \<Longrightarrow> to_account_shared_data (account_of_shared a) = a"
  by (simp add: to_account_shared_data_def account_of_shared_def shared_create_def)

lemma visible_slots_indexed:
  "visible_slots ops (adb_index db) key ancestors =
     {slot. (\<exists>info. indexed db key slot info) \<and> visible ops (adb_index db) ancestors None slot}"
  by (force simp: visible_slots_def indexed_def)

lemma purge_exact_facts:
  assumes "purge_exact key slots (adb_index db) = (is_empty, idx, reclaims)"
  shows "indexed (db\<lparr>adb_index := idx\<rparr>) k s i \<longleftrightarrow> indexed db k s i \<and> (k = key \<longrightarrow> s \<notin> slots)"
    and "ai_alive_roots idx = ai_alive_roots (adb_index db)"
proof -
  have idx: "idx = (case ai_account_maps (adb_index db) key of
      None \<Rightarrow> adb_index db
    | Some l \<Rightarrow> (adb_index db)\<lparr>ai_account_maps := (ai_account_maps (adb_index db))(key \<mapsto> filter (\<lambda>(slot, _). slot \<notin> slots) l)\<rparr>)"
    using assms by (simp add: purge_exact_def Let_def split: option.splits)
  show "indexed (db\<lparr>adb_index := idx\<rparr>) k s i \<longleftrightarrow> indexed db k s i \<and> (k = key \<longrightarrow> s \<notin> slots)"
    by (cases "k = key") (auto simp: idx indexed_def split: option.splits)
  show "ai_alive_roots idx = ai_alive_roots (adb_index db)" by (simp add: idx split: option.split)
qed

lemma purge_flushed:
  assumes "indexed db key later info" and "slot_in ops (ai_alive_roots (adb_index db)) later" and "slot < later"
    and "purge_exact key {slot} (adb_index db) = (is_empty, idx, reclaims)"
  shows "flushed ops db (db\<lparr>adb_index := idx\<rparr>)"
proof (rule flushed_index)
  note facts = purge_exact_facts [OF assms(4)]
  have vis: "visible ops idx ancestors None = visible ops (adb_index db) ancestors None" for ancestors
    using facts(2) by (simp add: visible_def fun_eq_iff)
  have slots: "visible_slots ops idx k ancestors = {s \<in> visible_slots ops (adb_index db) k ancestors. k = key \<longrightarrow> s \<noteq> slot}" for k ancestors
    using visible_slots_indexed [of ops "db\<lparr>adb_index := idx\<rparr>" k ancestors] vis facts(1)
    unfolding visible_slots_indexed [of ops db] by auto
  show "visible_slots ops idx k ancestors \<subseteq> visible_slots ops (adb_index db) k ancestors" for k ancestors
    unfolding slots by blast
  have "later \<in> visible_slots ops idx key ancestors" for ancestors
    using assms(1-3) unfolding slots visible_slots_indexed by (auto simp: visible_def)
  then show "\<exists>s' \<in> visible_slots ops idx k ancestors. s \<le> s'" if "s \<in> visible_slots ops (adb_index db) k ancestors" for k s ancestors
    using that assms(3) less_imp_le [of slot later] by (cases "k = key \<and> s = slot") (blast, use slots in auto)
qed

lemma dead_slot_flushed:
  assumes "bit_vec_laws ops" and "rbf_inv ops (ai_alive_roots (adb_index db))" and "\<And>key info. \<not> indexed db key slot info"
  shows "flushed ops db (db\<lparr>adb_index := snd (clean_dead_slot ops slot (adb_index db))\<rparr>)"
proof -
  let ?idx = "snd (clean_dead_slot ops slot (adb_index db))"
  have maps: "ai_account_maps ?idx = ai_account_maps (adb_index db)" by (simp add: clean_dead_slot_def split_beta)
  have "slot_in ops (ai_alive_roots ?idx) s \<longleftrightarrow> slot_in ops (ai_alive_roots (adb_index db)) s \<and> s \<noteq> slot" for s
    using clean_dead_slot_alive(3) [OF assms(1,2), of slot s] by (simp add: index_is_alive_root_def)
  then have "visible_slots ops ?idx k ancestors = visible_slots ops (adb_index db) k ancestors" for k ancestors
    using assms(3) [of k] unfolding visible_slots_indexed
    by (auto simp: visible_slots_def visible_def indexed_def maps image_iff) fastforce+
  then show ?thesis by (intro flushed_index) auto
qed

lemma flush_step_flushed:
  assumes "flush_step ops db db'" and "bit_vec_laws ops" and "rbf_inv ops (ai_alive_roots (adb_index db))"
  shows "flushed ops db db'"
  using assms(1,3)
proof (induction rule: flush_step.induct)
  case (purge db key later info slot is_empty idx reclaims)
  then show ?case by (intro purge_flushed)
next
  case (dead_slot db slot)
  then show ?case by (intro dead_slot_flushed [OF assms(2)])
next
  case (write_storage db slot store_id entry)
  then show ?case by (auto simp: flushed_def map_le_def)
next
  case (update_index db key entries j slot info a info' entry)
  have "map fst (entries[j := (slot, info')]) = map fst entries"
    using update_index(2,3) by (metis (no_types, lifting) fst_conv list_update_id map_update nth_map)
  then have "fst ` set (entries[j := (slot, info')]) = fst ` set entries" by (metis set_map)
  then have "visible_slots ops ((adb_index db)\<lparr>ai_account_maps :=
      (ai_account_maps (adb_index db))(key \<mapsto> entries[j := (slot, info')])\<rparr>) k ancestors = visible_slots ops (adb_index db) k ancestors" for k ancestors
    using update_index(1) by (simp add: visible_slots_def visible_def)
  then show ?case by (intro flushed_index) auto
next
  case (remove_slot db slot)
  have "ac_remote_loader (snd (ac_remove_slot slot (adb_cache db))) = ac_remote_loader (adb_cache db)"
    by (simp add: ac_remove_slot_def)
  then show ?case by (auto simp: flushed_def cached_remove split: if_splits)
qed

lemma leads_to_grows:
  assumes "leads_to db key slot info a" and "adb_storage db \<subseteq>\<^sub>m adb_storage db'" and "adb_cache db' = adb_cache db"
  shows "leads_to db' key slot info a"
proof (cases "info_is_cached info")
  case False
  then obtain entry acct where e: "adb_storage db (slot, ainfo_store_id info) = Some entry"
      "entry (info_offset info) = Some acct" "to_account_shared_data acct = a"
    using assms(1) by (auto simp: leads_to_def)
  then have "adb_storage db' (slot, ainfo_store_id info) = Some entry"
    using assms(2) by (metis domI map_le_def)
  with e False show ?thesis by (auto simp: leads_to_def)
qed (use assms in \<open>simp add: leads_to_def\<close>)

text \<open>A smaller index stays consistent.\<close>

lemma consistent_shrinks:
  assumes "consistent ops V key db" and "\<And>slot info. indexed (db\<lparr>adb_index := idx\<rparr>) key slot info \<Longrightarrow> indexed db key slot info"
    and "rbf_inv ops (ai_alive_roots idx)"
  shows "consistent ops V key (db\<lparr>adb_index := idx\<rparr>)"
proof -
  have same: "leads_to (db\<lparr>adb_index := idx\<rparr>) k sl i b = leads_to db k sl i b" for k sl i b by (simp add: leads_to_def)
  show ?thesis
    unfolding consistent_def same
  proof (intro conjI)
    show "\<forall>slot info a. indexed (db\<lparr>adb_index := idx\<rparr>) key slot info \<longrightarrow>
        ac_cached slot key (adb_cache (db\<lparr>adb_index := idx\<rparr>)) = Some a \<longrightarrow> a = V slot"
      using assms(1,2) unfolding consistent_def by auto metis
  qed (use assms in \<open>simp_all add: consistent_def\<close>)
qed

lemma update_index_consistent:
  assumes "consistent ops V reader db" and "\<forall>slot. \<not> acct_remote (V slot)"
    and "ai_account_maps (adb_index db) key = Some entries" and "j < length entries" and "entries ! j = (slot, info)"
    and "ac_cached slot key (adb_cache db) = Some a" and "\<not> info_is_cached info'"
    and "adb_storage db (slot, ainfo_store_id info') = Some entry" and "entry (info_offset info') = Some (account_of_shared a)"
  shows "consistent ops V reader (db\<lparr>adb_index := (adb_index db)\<lparr>ai_account_maps :=
    (ai_account_maps (adb_index db))(key \<mapsto> entries[j := (slot, info')])\<rparr>\<rparr>)" (is "consistent _ _ _ ?db")
proof -
  have "(slot, info) \<in> set entries" using assms(4,5) nth_mem by metis
  then have here: "indexed db key slot info" using assms(3) unfolding indexed_def by blast
  have new: "indexed db reader sl i \<or> reader = key \<and> sl = slot \<and> i = info'" if "indexed ?db reader sl i" for sl i
  proof (cases "reader = key")
    case True
    then have "(sl, i) \<in> set (entries[j := (slot, info')])" using that by (simp add: indexed_def)
    then have "(sl, i) \<in> insert (slot, info') (set entries)" using set_update_subset_insert by fast
    then show ?thesis using True assms(3) unfolding indexed_def by blast
  qed (use that in \<open>simp add: indexed_def\<close>)
  have same: "leads_to ?db k sl i b = leads_to db k sl i b" for k sl i b by (simp add: leads_to_def)
  have moved: "leads_to db key slot info' (V slot)" if "reader = key"
  proof -
    have "a = V slot" using that here assms(1,6) unfolding consistent_def by blast
    then show ?thesis unfolding leads_to_def using assms(2,7-9) to_shared_local [of a] by simp
  qed
  have "leads_to ?db reader sl i (V sl)" if "indexed ?db reader sl i" for sl i
    unfolding same using new [OF that] moved assms(1) unfolding consistent_def by blast
  moreover have "b = V sl" if "indexed ?db reader sl i" "ac_cached sl reader (adb_cache db) = Some b" for sl i b
    using new [OF that(1)] that(2) here assms(1) unfolding consistent_def by blast
  ultimately show ?thesis using assms(1) unfolding consistent_def by simp
qed

lemma remove_slot_consistent:
  assumes "consistent ops V key db" and "\<And>key info. indexed db key slot info \<Longrightarrow> \<not> info_is_cached info"
  shows "consistent ops V key (db\<lparr>adb_cache := snd (ac_remove_slot slot (adb_cache db))\<rparr>)" (is "consistent _ _ _ ?db")
proof -
  have same: "indexed ?db k sl i = indexed db k sl i" for k sl i by (simp add: indexed_def)
  have "leads_to ?db key sl i (V sl)" if i: "indexed db key sl i" for sl i
  proof -
    have "leads_to db key sl i (V sl)" using assms(1) i unfolding consistent_def by blast
    moreover have "sl \<noteq> slot \<or> \<not> info_is_cached i" using assms(2) i by blast
    ultimately show ?thesis by (auto simp: leads_to_def cached_remove)
  qed
  moreover have "b = V sl" if "indexed db key sl i" "ac_cached sl key (adb_cache ?db) = Some b" for sl i b
  proof -
    have "ac_cached sl key (adb_cache db) = Some b" using that(2) by (simp add: cached_remove split: if_splits)
    then show ?thesis using that(1) assms(1) unfolding consistent_def by blast
  qed
  ultimately show ?thesis using assms(1) unfolding consistent_def same by simp
qed

lemma flush_step_consistent:
  assumes "flush_step ops db db'" and "bit_vec_laws ops" and "\<forall>slot. \<not> acct_remote (V slot)" and "consistent ops V key db"
  shows "consistent ops V key db'"
  using assms(1,4)
proof (induction rule: flush_step.induct)
  case (purge db k later info slot is_empty idx reclaims)
  note facts = purge_exact_facts [OF purge(4)]
  show ?case
    by (rule consistent_shrinks [OF purge(5)]) (use facts purge(5) in \<open>auto simp: consistent_def\<close>)
next
  case (dead_slot db slot)
  have "rbf_inv ops (ai_alive_roots (adb_index db))" using dead_slot(2) by (simp add: consistent_def)
  then show ?case
    by (intro consistent_shrinks [OF dead_slot(2)] clean_dead_slot_alive(2) [OF assms(2)])
      (auto simp: indexed_def clean_dead_slot_def split_beta)
next
  case (write_storage db slot store_id entry)
  let ?db = "db\<lparr>adb_storage := (adb_storage db)((slot, store_id) \<mapsto> entry)\<rparr>"
  have "adb_storage db \<subseteq>\<^sub>m adb_storage ?db" using write_storage(1) by (auto simp: map_le_def)
  then have "leads_to db k sl i a \<Longrightarrow> leads_to ?db k sl i a" for k sl i a
    by (rule leads_to_grows [rotated]) simp_all
  moreover have "indexed ?db = indexed db" by (simp add: indexed_def fun_eq_iff)
  ultimately show ?case using write_storage(2) by (simp add: consistent_def)
next
  case (update_index db k entries j slot info a info' entry)
  then show ?case by (intro update_index_consistent [OF _ assms(3)])
next
  case (remove_slot db slot)
  then show ?case by (intro remove_slot_consistent)
qed

lemma flush_steps:
  assumes "(flush_step ops)\<^sup>*\<^sup>* db db'" and "bit_vec_laws ops" and "\<forall>slot. \<not> acct_remote (V slot)" and "consistent ops V key db"
  shows "consistent ops V key db' \<and> flushed ops db db'"
  using assms(1)
proof (induction rule: rtranclp_induct)
  case (step t u)
  then have "rbf_inv ops (ai_alive_roots (adb_index t))" by (simp add: consistent_def)
  with step show ?case
    using flush_step_consistent [OF step(2) assms(2,3)] flush_step_flushed [OF step(2) assms(2)] flushed_trans by blast
qed (simp add: flushed_refl assms(4))

section \<open>Reading during a flush\<close>

lemma flushed_lookup:
  "flushed ops db db' \<Longrightarrow> map_option fst (index_lookup ops (adb_index db') key ancestors None) =
    map_option fst (index_lookup ops (adb_index db) key ancestors None)"
  by (simp add: flushed_def)

lemma index_lookup_indexed:
  assumes "index_lookup ops (adb_index db) key ancestors m = Some (slot, info)"
  shows "indexed db key slot info"
proof -
  obtain entries where "ai_account_maps (adb_index db) key = Some entries"
    using assms by (auto simp: index_lookup_def index_get_def split: option.splits)
  with index_lookup_spec [OF this, of ops ancestors m] assms show ?thesis
    by (auto simp: indexed_def latest_visible_def)
qed

lemma read_index_found:
  assumes "index_lookup (de_bits env) (adb_index db) key (Some ancestors) None = Some (slot, info)"
  shows "read_index_for_accessor_or_load_slow env ancestors key False db = (Some (slot, info_storage_location info, None), db)"
  using assms by (auto simp: read_index_for_accessor_or_load_slow_def index_lookup_def)

text \<open>
  Other threads may take any number of flush steps before each access.  The account is one of the grid:
  the loader does not have it, and no version of it is marked as remote.
\<close>

definition only_flushes :: "'b bit_vec \<Rightarrow> ('b, 'i, 'q) schedule \<Rightarrow> bool" where
  "only_flushes ops sched \<longleftrightarrow> (\<forall>k db. (flush_step ops)\<^sup>*\<^sup>* db (sched k db))"

definition not_remote :: "('b, 'i, 'q, 'w) db_env \<Rightarrow> pubkey \<Rightarrow> ('b, 'i, 'q) accounts_db \<Rightarrow> bool" where
  "not_remote env key db \<longleftrightarrow> rl_get_account (de_remote env) (ac_remote_loader (adb_cache db)) key = None"

definition flush_race ::
    "('b, 'i, 'q, 'w) db_env \<Rightarrow> ('b, 'i, 'q) schedule \<Rightarrow> (u64 \<Rightarrow> account_shared_data) \<Rightarrow> bool" where
  "flush_race env sched V \<longleftrightarrow>
     bit_vec_laws (de_bits env) \<and> only_flushes (de_bits env) sched \<and> (\<forall>slot. \<not> acct_remote (V slot))"

lemma only_flushes_step:
  assumes "flush_race env sched V" and "consistent (de_bits env) V key db"
  shows "consistent (de_bits env) V key (sched k db)" "flushed (de_bits env) db (sched k db)"
  using flush_steps [OF _ _ _ assms(2), of "sched k db"] assms(1) by (simp_all add: only_flushes_def flush_race_def)

lemma not_remote_flushed: "flushed ops db db' \<Longrightarrow> not_remote env key db' = not_remote env key db"
  by (simp add: not_remote_def flushed_def)

lemma accessor_cached:
  assumes "not_remote env key db"
  shows "get_account_accessor env slot key Cached db = (InCache (ac_cached slot key (adb_cache db)), db)"
  using assms
  by (auto simp: get_account_accessor_def ac_load_def ac_load_with_def not_remote_def split: option.splits)

definition reads_value ::
    "'b bit_vec \<Rightarrow> ('b, 'i, 'q) accounts_db \<Rightarrow> account_shared_data \<Rightarrow> u64 \<Rightarrow>
     ((account_accessor \<times> u64) option outcome \<times> ('b, 'i, 'q) accounts_db) option \<Rightarrow> bool" where
  "reads_value ops db a slot r \<longleftrightarrow>
     (\<exists>accessor db' is_cached. r = Some (Done (Some (accessor, slot)), db') \<and>
        check_and_get_loaded_account accessor = Done (a, is_cached) \<and> flushed ops db db')"

lemma retry_stored:
  fixes n :: nat
  assumes "flush_race env sched V" and "consistent (de_bits env) V key db" and "leads_to db key slot info a" and "\<not> info_is_cached info"
  shows "reads_value (de_bits env) db a slot
    (retry_to_get_account_accessor env sched k n slot (info_storage_location info) ancestors key hint db)"
proof -
  obtain entry acct where e: "adb_storage db (slot, ainfo_store_id info) = Some entry"
      "entry (info_offset info) = Some acct" "to_account_shared_data acct = a"
    using assms(3,4) by (auto simp: leads_to_def)
  have kept: "flushed (de_bits env) db (sched k db)" using only_flushes_step [OF assms(1,2)] by blast
  then have "adb_storage (sched k db) (slot, ainfo_store_id info) = Some entry"
    using e(1) unfolding flushed_def by (metis domI map_le_def)
  then have access: "get_account_accessor env slot key (info_storage_location info) (sched k db) =
      (Stored (Some (entry, info_offset info)), sched k db)"
    using assms(4) by (simp add: get_account_accessor_def info_storage_location_def)
  have "retry_to_get_account_accessor env sched k n slot (info_storage_location info) ancestors key hint db =
      Some (Done (Some (Stored (Some (entry, info_offset info)), slot)), sched k db)"
    by (subst retry_to_get_account_accessor.simps) (simp add: access)
  with e kept show ?thesis by (auto simp: reads_value_def)
qed

lemma retry_finds:
  assumes "flush_race env sched V" and "consistent (de_bits env) V key db" and "not_remote env key db"
    and "index_lookup (de_bits env) (adb_index db) key (Some ancestors) None = Some (slot, info)"
  shows "reads_value (de_bits env) db (V slot) slot
    (retry_to_get_account_accessor env sched 1 0 slot (info_storage_location info) ancestors key hint db)"
proof (cases "info_is_cached info")
  case False
  have "leads_to db key slot info (V slot)"
    using assms(2) index_lookup_indexed [OF assms(4)] unfolding consistent_def by blast
  then show ?thesis by (rule retry_stored [OF assms(1,2) _ False])
next
  case True
  let ?db1 = "sched 1 db" and ?db2 = "sched 2 (sched 1 db)"
  note one = only_flushes_step [OF assms(1,2), of 1]
  note two = only_flushes_step [OF assms(1) one(1), of 2]
  have l: "info_storage_location info = Cached" using True by (simp add: info_storage_location_def)
  have slot1: "\<exists>i. indexed ?db1 key slot i"
    using flushed_lookup [OF one(2), of key "Some ancestors"] assms(4) index_lookup_indexed by fastforce
  have access: "get_account_accessor env slot key Cached ?db1 = (InCache (ac_cached slot key (adb_cache ?db1)), ?db1)"
    using accessor_cached not_remote_flushed [OF one(2)] assms(3) by blast
  show ?thesis
  proof (cases "ac_cached slot key (adb_cache ?db1)")
    case (Some a)
    then have "a = V slot" using one(1) slot1 unfolding consistent_def by blast
    moreover have "retry_to_get_account_accessor env sched 1 0 slot Cached ancestors key hint db =
        Some (Done (Some (InCache (Some a), slot)), ?db1)"
      by (subst retry_to_get_account_accessor.simps) (simp add: access Some del: One_nat_def)
    ultimately show ?thesis using one(2) l by (auto simp: reads_value_def)
  next
    case None
    obtain info2 where info2: "index_lookup (de_bits env) (adb_index ?db2) key (Some ancestors) None = Some (slot, info2)"
      using flushed_lookup [OF flushed_trans [OF one(2) two(2)], of key "Some ancestors"] assms(4)
      by auto
    have lead: "leads_to ?db2 key slot info2 (V slot)"
      using two(1) index_lookup_indexed [OF info2] unfolding consistent_def by blast
    have stored: "\<not> info_is_cached info2"
      using lead None two(2) unfolding leads_to_def flushed_def by (metis option.distinct(1))
    then have other: "\<not> is_store_id_equal (info_storage_location info2) Cached"
      by (simp add: info_storage_location_def is_store_id_equal_def)
    have "retry_to_get_account_accessor env sched 1 0 slot Cached ancestors key hint db =
        retry_to_get_account_accessor env sched 3 1 slot (info_storage_location info2) ancestors key hint ?db2"
      by (subst retry_to_get_account_accessor.simps)
        (simp add: access None read_index_found [OF info2] other del: One_nat_def)
    with retry_stored [OF assms(1) two(1) lead stored, of 3 1 ancestors hint] show ?thesis
      using l flushed_trans [OF flushed_trans [OF one(2) two(2)]] by (auto simp: reads_value_def)
  qed
qed

lemma store_returns:
  assumes "index_list_laws ops items" and "roc_inv items c"
  shows "\<exists>c'. roc_store ops now key slot a c = Some c'"
  using roc_evict_trims [OF assms(1)] roc_insert_inv [OF assms] unfolding roc_store_def by blast

lemma load_from_accessor_value:
  assumes "index_list_laws (de_queue env) items" and "roc_inv items (adb_read_cache db)"
    and "reads_value (de_bits env) db a slot (retry_to_get_account_accessor env sched 1 0 slot l ancestors key hint db)"
  shows "\<exists>db'. load_from_accessor env sched slot l ancestors key hint db = Some (Done (nonzero (a, slot)), db')"
proof -
  obtain accessor db1 is_cached where r:
      "retry_to_get_account_accessor env sched 1 0 slot l ancestors key hint db = Some (Done (Some (accessor, slot)), db1)"
      "check_and_get_loaded_account accessor = Done (a, is_cached)" "flushed (de_bits env) db db1"
    using assms(3) by (auto simp: reads_value_def)
  have "adb_read_cache db1 = adb_read_cache db" using r(3) by (simp add: flushed_def)
  then obtain c where "roc_store (de_queue env) (de_now env) key slot a (adb_read_cache db1) = Some c"
    using store_returns [OF assms(1,2)] by metis
  with r show ?thesis by (auto simp: load_from_accessor_def nonzero_def)
qed

text \<open>
  (C8) A reader of an account of the grid, which the loader does not have and no version of which is marked as
  remote, always returns the right account when it races with the flusher of the write cache.  However
  purging, the removal of dead slots, the writing of storages, the updates of the index and the removals of
  cached slots interleave with its accesses, it returns without a panic, and what it returns is the
  account of the latest slot that the index showed it, unless that account is empty.  At the start
  the index, the caches and the storages agree on the account, the read-only cache satisfies its invariant,
  and the crates behind it and behind the roots behave as documented.
\<close>

theorem load_during_flush:
  assumes "index_list_laws (de_queue env) items" and "roc_inv items (adb_read_cache db)"
    and "flush_race env sched V" and "consistent (de_bits env) V key db" and "not_remote env key db"
  shows "\<exists>db'. do_load env sched ancestors key hint db =
    Some (Done (case index_lookup (de_bits env) (adb_index db) key (Some ancestors) None of
                  None \<Rightarrow> None | Some (slot, info) \<Rightarrow> nonzero (V slot, slot)), db')"
proof -
  let ?db = "sched 0 db"
  note zero = only_flushes_step [OF assms(3,4), of 0]
  have rc: "adb_read_cache ?db = adb_read_cache db" using zero(2) by (simp add: flushed_def)
  have nr: "not_remote env key ?db" using not_remote_flushed [OF zero(2)] assms(5) by blast
  have same: "map_option fst (index_lookup (de_bits env) (adb_index ?db) key (Some ancestors) None) =
      map_option fst (index_lookup (de_bits env) (adb_index db) key (Some ancestors) None)"
    by (rule flushed_lookup [OF zero(2)])
  show ?thesis
  proof (cases "index_lookup (de_bits env) (adb_index ?db) key (Some ancestors) None")
    case None
    then have "read_index_for_accessor_or_load_slow env ancestors key False ?db = (None, ?db)"
      using nr
      by (auto simp: read_index_for_accessor_or_load_slow_def index_lookup_def has_account_from_remote_def
          not_remote_def has_account_iff)
    moreover have "index_lookup (de_bits env) (adb_index db) key (Some ancestors) None = None" using same None by simp
    ultimately show ?thesis by (simp add: do_load_def do_load_with_populate_read_cache_def)
  next
    case (Some r)
    then obtain slot info where found: "index_lookup (de_bits env) (adb_index ?db) key (Some ancestors) None = Some (slot, info)"
      by (cases r) auto
    then obtain info0 where start: "index_lookup (de_bits env) (adb_index db) key (Some ancestors) None = Some (slot, info0)"
      using same by (cases "index_lookup (de_bits env) (adb_index db) key (Some ancestors) None") auto
    have load: "\<exists>db'. load_from_accessor env sched slot (info_storage_location info) ancestors key hint ?db =
        Some (Done (nonzero (V slot, slot)), db')"
      using load_from_accessor_value [OF assms(1) _ retry_finds [OF assms(3) zero(1) nr found]] assms(2) rc by simp
    obtain r c where miss: "roc_load (de_queue env) (de_now env) key slot (adb_read_cache ?db) = (r, c)" by force
    have r: "r = map_option roe_account (roc_cache (adb_read_cache ?db) (CacheKey key slot))"
      using miss by (auto simp: roc_load_def Let_def split: option.splits if_splits prod.splits)
    have hit: "a = V slot" if "r = Some a" for a
      using that zero(1) unfolding r consistent_def by auto
    have "c = adb_read_cache ?db" if "r = None"
      using that miss by (auto simp: roc_load_def Let_def split: option.splits if_splits prod.splits)
    then have "?db\<lparr>adb_read_cache := c\<rparr> = ?db" if "r = None" using that by simp
    with load miss hit start show ?thesis
      by (cases r)
        (auto simp: do_load_def do_load_with_populate_read_cache_def read_index_found [OF found])
  qed
qed

text \<open>
  A database with one account, written by slot 2 and again by the rooted slot 3 and both times still in the
  write cache, and a flusher that does all its work between the reader's look into the index and
  its look into the cache: it purges the version of slot 2 and flushes the one of slot 3.
\<close>

definition db_demo_version :: "u64 \<Rightarrow> account_shared_data" where
  "db_demo_version slot = shared_create slot [] pubkey_default False 0"

definition db_demo_cached_info :: account_info where
  "db_demo_cached_info = \<lparr>ainfo_store_id = CACHE_VIRTUAL_STORAGE_ID, ainfo_offset_reduced = 2147483647, ainfo_is_zero_lamport = False\<rparr>"

definition db_demo :: "(nat \<times> (nat \<Rightarrow> bool), nat, (nat \<times> cache_key) list) accounts_db" where
  "db_demo =
     \<lparr>adb_index = index_demo\<lparr>ai_account_maps := [pubkey_default \<mapsto> [(2, db_demo_cached_info), (3, db_demo_cached_info)]]\<rparr>,
      adb_cache = ac_store 3 pubkey_default (db_demo_version 3)
        (ac_store 2 pubkey_default (db_demo_version 2) (accounts_cache_new remote_demo_loader)),
      adb_read_cache = read_cache_demo, adb_storage = Map.empty\<rparr>"

definition db_demo_purged :: "(nat \<times> (nat \<Rightarrow> bool), nat, (nat \<times> cache_key) list) accounts_db" where
  "db_demo_purged = db_demo\<lparr>adb_index := index_demo\<lparr>ai_account_maps := [pubkey_default \<mapsto> [(3, db_demo_cached_info)]]\<rparr>\<rparr>"

definition db_demo_flushed :: "(nat \<times> (nat \<Rightarrow> bool), nat, (nat \<times> cache_key) list) accounts_db" where
  "db_demo_flushed =
     (let db = db_demo_purged\<lparr>adb_storage := [(3, 1) \<mapsto> [0 \<mapsto> account_of_shared (db_demo_version 3)]],
                       adb_index := index_demo\<lparr>ai_account_maps := [pubkey_default \<mapsto> [(3, index_demo_info)]]\<rparr>\<rparr>
      in db\<lparr>adb_cache := snd (ac_remove_slot 3 (adb_cache db))\<rparr>)"

definition db_demo_schedule :: "(nat \<times> (nat \<Rightarrow> bool), nat, (nat \<times> cache_key) list) schedule" where
  "db_demo_schedule k db = (if k = 1 \<and> db = db_demo then db_demo_flushed else db)"

definition db_demo_env :: "(nat \<times> (nat \<Rightarrow> bool), nat, (nat \<times> cache_key) list, unit) db_env" where
  "db_demo_env = \<lparr>de_bits = fun_bit_vec, de_queue = list_index_list, de_remote = remote_demo_env, de_now = 0\<rparr>"

lemma db_demo_infos: "info_is_cached db_demo_cached_info" "\<not> info_is_cached index_demo_info"
  "info_offset index_demo_info = 0" "ainfo_store_id index_demo_info = 1"
  by (simp_all add: info_is_cached_def db_demo_cached_info_def index_demo_info_def CACHED_OFFSET_def info_offset_def
      reduced_offset_to_offset_def)

lemma db_demo_cache:
  "ac_cached slot key (adb_cache db_demo) =
     (if (slot = 2 \<or> slot = 3) \<and> key = pubkey_default then Some (db_demo_version slot) else None)"
  by (simp add: db_demo_def cached_store)

lemma db_demo_indexed:
  "indexed db_demo key slot info \<longleftrightarrow> key = pubkey_default \<and> (slot = 2 \<or> slot = 3) \<and> info = db_demo_cached_info"
  by (auto simp: indexed_def db_demo_def split: if_splits)

lemma db_demo_purges: "flush_step fun_bit_vec db_demo db_demo_purged"
proof -
  have "purge_exact pubkey_default {2} (adb_index db_demo) = (False, adb_index db_demo_purged, [(2, db_demo_cached_info)])"
    by (simp add: purge_exact_def db_demo_def db_demo_purged_def index_demo_def)
  moreover have "slot_in fun_bit_vec (ai_alive_roots (adb_index db_demo)) 3"
    using index_demo_roots(1) by (simp add: db_demo_def)
  ultimately show ?thesis
    using flush_step.purge [of db_demo pubkey_default 3 db_demo_cached_info fun_bit_vec 2 False]
    by (simp add: db_demo_indexed db_demo_purged_def)
qed

lemma db_demo_flushes: "only_flushes fun_bit_vec db_demo_schedule"
proof -
  let ?db1 = "db_demo_purged\<lparr>adb_storage := (adb_storage db_demo_purged)((3, 1) \<mapsto> [0 \<mapsto> account_of_shared (db_demo_version 3)])\<rparr>"
  let ?db2 = "?db1\<lparr>adb_index := (adb_index ?db1)\<lparr>ai_account_maps :=
    (ai_account_maps (adb_index ?db1))(pubkey_default \<mapsto> [(3, db_demo_cached_info)][0 := (3, index_demo_info)])\<rparr>\<rparr>"
  have "flush_step fun_bit_vec db_demo_purged ?db1" by (rule write_storage) (simp add: db_demo_purged_def db_demo_def)
  moreover have "flush_step fun_bit_vec ?db1 ?db2"
    by (rule update_index [where a = "db_demo_version 3" and info = db_demo_cached_info
          and entry = "[0 \<mapsto> account_of_shared (db_demo_version 3)]"])
      (use db_demo_infos db_demo_cache [of 3 pubkey_default] in \<open>simp_all add: db_demo_purged_def\<close>)
  moreover have "flush_step fun_bit_vec ?db2 (?db2\<lparr>adb_cache := snd (ac_remove_slot 3 (adb_cache ?db2))\<rparr>)"
    by (rule remove_slot) (use db_demo_infos in \<open>auto simp: indexed_def db_demo_purged_def split: if_splits\<close>)
  moreover have "?db2\<lparr>adb_cache := snd (ac_remove_slot 3 (adb_cache ?db2))\<rparr> = db_demo_flushed"
    by (simp add: db_demo_flushed_def Let_def db_demo_purged_def db_demo_def)
  ultimately have "(flush_step fun_bit_vec)\<^sup>*\<^sup>* db_demo db_demo_flushed"
    using db_demo_purges by (metis (no_types, lifting) converse_rtranclp_into_rtranclp rtranclp.rtrancl_refl)
  then show ?thesis by (simp add: only_flushes_def db_demo_schedule_def)
qed

lemma index_demo_inv: "rbf_inv fun_bit_vec (ai_alive_roots index_demo)"
proof -
  let ?r = "ai_alive_roots index_demo"
  have r: "rbf_max_width ?r = 4" "rbf_bits ?r = (4, (\<lambda>_. False)(3 := True))" "rbf_min ?r = 3" "rbf_max_exclusive ?r = 4"
      "rbf_count ?r = 1" "rbf_excess ?r = []"
    by (simp_all add: index_demo_def rbf_empty_def)
  have keys: "bit_keys fun_bit_vec ?r = {3}" by (auto simp: bit_keys_def r contains_assume_in_range_def fun_bit_vec_def get_address_def)
  show ?thesis
    unfolding rbf_inv_def rbf_shape_def rbf_items_def keys by (auto simp: r get_address_def fun_bit_vec_def)
qed

lemma db_demo_consistent: "consistent fun_bit_vec db_demo_version pubkey_default db_demo"
proof -
  have "rbf_inv fun_bit_vec (ai_alive_roots index_demo)" by (rule index_demo_inv)
  then show ?thesis
    using db_demo_infos db_demo_cache
    by (auto simp: consistent_def db_demo_indexed leads_to_def) (simp_all add: db_demo_def read_cache_demo_def)
qed

theorem load_during_flush_witness:
  "\<exists>db. do_load db_demo_env db_demo_schedule (rbf_empty fun_bit_vec 4) pubkey_default FixedMaxRoot db_demo =
     Some (Done (Some (db_demo_version 3, 3)), db)"
proof -
  have env: "de_bits db_demo_env = fun_bit_vec" "de_queue db_demo_env = list_index_list" by (simp_all add: db_demo_env_def)
  have race: "flush_race db_demo_env db_demo_schedule db_demo_version"
    using db_demo_flushes fun_bit_vec_laws by (simp add: flush_race_def env db_demo_version_def shared_create_def)
  have local: "not_remote db_demo_env pubkey_default db_demo"
    by (simp add: not_remote_def db_demo_env_def db_demo_def ac_store_def Let_def accounts_cache_new_def
        rl_get_account_def remote_demo_loader_def
        remote_loader_new_def split: prod.splits)
  have inv: "roc_inv (\<lambda>es. es) (adb_read_cache db_demo)"
    by (simp add: roc_inv_def queue_ok_def db_demo_def read_cache_demo_def cache_lru_def)
  obtain db where run: "do_load db_demo_env db_demo_schedule (rbf_empty fun_bit_vec 4) pubkey_default FixedMaxRoot db_demo =
      Some (Done (case index_lookup fun_bit_vec (adb_index db_demo) pubkey_default (Some (rbf_empty fun_bit_vec 4)) None of
                  None \<Rightarrow> None | Some (slot, info) \<Rightarrow> nonzero (db_demo_version slot, slot)), db)"
    using load_during_flush [of db_demo_env "\<lambda>es. es" db_demo db_demo_schedule db_demo_version pubkey_default
        "rbf_empty fun_bit_vec 4" FixedMaxRoot, unfolded env, OF list_index_list_laws inv race db_demo_consistent local]
    by blast
  have "3 \<in> visible_slots fun_bit_vec (adb_index db_demo) pubkey_default (Some (rbf_empty fun_bit_vec 4))"
    using index_demo_roots by (simp add: visible_slots_indexed db_demo_indexed visible_def) (simp add: db_demo_def)
  moreover have "visible_slots fun_bit_vec (adb_index db_demo) pubkey_default (Some (rbf_empty fun_bit_vec 4)) \<subseteq> {2, 3}"
    by (auto simp: visible_slots_indexed db_demo_indexed)
  ultimately have "map_option fst (index_lookup fun_bit_vec (adb_index db_demo) pubkey_default (Some (rbf_empty fun_bit_vec 4)) None) = Some 3"
    using lookup_slot [of fun_bit_vec "adb_index db_demo" pubkey_default "Some (rbf_empty fun_bit_vec 4)"]
    by (cases "index_lookup fun_bit_vec (adb_index db_demo) pubkey_default (Some (rbf_empty fun_bit_vec 4)) None") force+
  with run show ?thesis by (auto simp: nonzero_def db_demo_version_def shared_create_def)
qed

section \<open>Accounts of the base layer\<close>

text \<open>Without interference an account that only the loader has is read through slot 0 of the write cache.\<close>

lemma remote_load:
  assumes "index_lookup (de_bits env) (adb_index db) key (Some ancestors) None = None" and "1 < rbf_count ancestors"
    and "has_account_from_remote (de_remote env) key (adb_cache db)"
  shows "\<exists>a. fst (ac_load (de_remote env) 0 key (adb_cache db)) = Some a \<and>
    do_load env (\<lambda>_ s. s) ancestors key hint db =
      Some (Done (nonzero (a, 0)), db\<lparr>adb_cache := snd (ac_load (de_remote env) 0 key (adb_cache db))\<rparr>)"
proof -
  obtain r c where load: "ac_load (de_remote env) 0 key (adb_cache db) = (r, c)" by force
  obtain b where b: "rl_get_account (de_remote env) (ac_remote_loader (adb_cache db)) key = Some b"
    using assms(3) by (auto simp: has_account_from_remote_def has_account_iff)
  have "fst (ac_load (de_remote env) 0 key (adb_cache db)) \<noteq> None"
    using b by (auto simp: ac_load_def ac_load_with_def split: option.split)
  then obtain a where r: "r = Some a" using load by auto
  have "read_index_for_accessor_or_load_slow env ancestors key False db = (Some (0, Cached, None), db)"
    using assms by (auto simp: read_index_for_accessor_or_load_slow_def index_lookup_def)
  moreover have "retry_to_get_account_accessor env (\<lambda>_ s. s) 1 0 0 Cached ancestors key hint db =
      Some (Done (Some (InCache (Some a), 0)), db\<lparr>adb_cache := c\<rparr>)"
    using load r by (subst retry_to_get_account_accessor.simps) (simp add: get_account_accessor_def)
  ultimately show ?thesis
    using load r
    by (simp add: do_load_def do_load_with_populate_read_cache_def location_is_cached_def load_from_accessor_def nonzero_def)
qed

lemma ac_load_kept:
  assumes "ac_load env slot key ac = (Some a, ac')"
  shows "ac_cached slot key ac' = Some a"
  using assms by (auto simp: ac_load_def ac_load_with_def cached_store split: option.splits)

lemma cached_of_loader: "ac_cached slot key (ac\<lparr>ac_remote_loader := rl\<rparr>) = ac_cached slot key ac"
  by (simp add: ac_cached_def ac_slot_cache_def)

text \<open>
  (C16) An account of the base layer is read once and never refreshed: after it was read through the accounts
  database, deactivated and migrated again, possibly with a different content by then, the database
  still returns the account of the first read.
\<close>

theorem remigration_serves_stale:
  assumes "index_lookup (de_bits env) (adb_index db) key (Some ancestors) None = None" and "1 < rbf_count ancestors"
    and "has_account_from_remote (de_remote env) key (adb_cache db)"
    and "do_load env (\<lambda>_ s. s) ancestors key hint db = Some (Done (Some (a, slot)), db1)"
    and "load_accounts_from_remote (de_remote env) [key]
      (deactivate_remote_accounts (de_remote env) [key] (adb_cache db1), w) = Some (cache, w')"
    and "has_account_from_remote (de_remote env) key cache"
  shows "\<exists>db2. do_load env (\<lambda>_ s. s) ancestors key hint (db1\<lparr>adb_cache := cache\<rparr>) = Some (Done (Some (a, slot)), db2)"
proof -
  obtain r c where load: "ac_load (de_remote env) 0 key (adb_cache db) = (r, c)" by force
  have first: "r = Some a" "slot = 0" "db1 = db\<lparr>adb_cache := c\<rparr>" "acct_lamports a \<noteq> 0"
    using remote_load [OF assms(1-3), of hint] assms(4) load by (auto simp: nonzero_def split: if_splits)
  have "ac_cached 0 key c = Some a" using ac_load_kept load first(1) by blast
  moreover obtain rl where "cache = (deactivate_remote_accounts (de_remote env) [key] c)\<lparr>ac_remote_loader := rl\<rparr>"
    using assms(5) first(3) by (auto simp: load_accounts_from_remote_def)
  ultimately have "ac_cached 0 key cache = Some a"
    by (simp add: cached_of_loader deactivate_remote_accounts_def)
  then have again: "ac_load (de_remote env) 0 key cache = (Some a, cache)"
    by (simp add: ac_load_def ac_load_with_def)
  have "index_lookup (de_bits env) (adb_index (db1\<lparr>adb_cache := cache\<rparr>)) key (Some ancestors) None = None"
    using assms(1) first(3) by simp
  from remote_load [OF this assms(2), of hint] assms(6) again first(2,4) show ?thesis
    by (auto simp: nonzero_def)
qed

text \<open>
  The loader of this database still has an old version of the account at \<open>demo_key 2\<close>; the base layer
  has a new one.
\<close>

definition stale_demo_old :: account_shared_data where
  "stale_demo_old = remote_account (account_create 77 [] bpf_loader_upgradeable_id False 0)"

definition stale_demo :: "(nat \<times> (nat \<Rightarrow> bool), nat, (nat \<times> cache_key) list) accounts_db" where
  "stale_demo =
     db_demo\<lparr>adb_index := index_demo\<lparr>ai_account_maps := Map.empty\<rparr>,
             adb_cache := accounts_cache_new (remote_demo_loader\<lparr>rl_account_cache := [demo_key 2 \<mapsto> stale_demo_old]\<rparr>)\<rparr>"

abbreviation stale_demo_ancestors :: "(nat \<times> (nat \<Rightarrow> bool)) ancestors" where
  "stale_demo_ancestors \<equiv>
     \<lparr>rbf_max_width = 4, rbf_min = 3, rbf_max_exclusive = 5, rbf_bits = (4, \<lambda>i. i \<in> {0, 3}),
      rbf_count = 2, rbf_excess = []\<rparr>"

theorem remigration_serves_stale_witness:
  "\<exists>db1 cache db2.
     load_accounts_from_remote remote_demo_env [demo_key 2]
       (deactivate_remote_accounts remote_demo_env [demo_key 2] (adb_cache db1), ()) = Some (cache, ()) \<and>
     rl_get_account remote_demo_env (ac_remote_loader cache) (demo_key 2) =
       Some (remote_account (account_create 6 [3] bpf_loader_upgradeable_id False 0)) \<and>
     do_load db_demo_env (\<lambda>_ s. s) stale_demo_ancestors (demo_key 2) FixedMaxRoot stale_demo =
       Some (Done (Some (stale_demo_old, 0)), db1) \<and>
     do_load db_demo_env (\<lambda>_ s. s) stale_demo_ancestors (demo_key 2) FixedMaxRoot (db1\<lparr>adb_cache := cache\<rparr>) =
       Some (Done (Some (stale_demo_old, 0)), db2)"
proof -
  let ?new = "remote_account (account_create 6 [3] bpf_loader_upgradeable_id False 0)"
  have env: "de_remote db_demo_env = remote_demo_env" by (simp add: db_demo_env_def)
  have on: "rl_enable remote_demo_loader" by (rule remote_demo_stable(2))
  have none: "index_lookup (de_bits db_demo_env) (adb_index stale_demo) (demo_key 2) (Some stale_demo_ancestors) None = None"
    by (simp add: index_lookup_def index_get_def stale_demo_def)
  have has: "has_account_from_remote (de_remote db_demo_env) (demo_key 2) (adb_cache stale_demo)"
    using on remote_demo_not_ignored
    by (simp add: has_account_from_remote_def rl_has_account_def stale_demo_def accounts_cache_new_def env)
  define db1 where "db1 = stale_demo\<lparr>adb_cache := snd (ac_load remote_demo_env 0 (demo_key 2) (adb_cache stale_demo))\<rparr>"
  have "fst (ac_load remote_demo_env 0 (demo_key 2) (adb_cache stale_demo)) = Some stale_demo_old"
    using on remote_demo_not_ignored
    by (simp add: ac_load_def ac_load_with_def stale_demo_def accounts_cache_new_def ac_cached_def ac_slot_cache_def
        rl_get_account_def)
  then have first: "do_load db_demo_env (\<lambda>_ s. s) stale_demo_ancestors (demo_key 2) FixedMaxRoot stale_demo =
      Some (Done (Some (stale_demo_old, 0)), db1)"
    using remote_load [OF none _ has, of FixedMaxRoot]
    by (simp add: env db1_def nonzero_def stale_demo_old_def remote_account_def account_create_def shared_create_def)
  let ?ac = "deactivate_remote_accounts remote_demo_env [demo_key 2] (adb_cache db1)"
  have on1: "rl_enable (ac_remote_loader ?ac)"
    using on by (simp add: db1_def ac_load_def ac_load_with_def ac_store_def stale_demo_def accounts_cache_new_def Let_def
        deactivate_remote_accounts_def deactivate_account_def split: option.splits prod.splits)
  have ends: "chain_ends remote_demo_env remote_demo_base (demo_key 2)"
    by (rule chain_ends.final [OF remote_demo_view(2) remote_demo_programdata(2)])
  obtain r rl where run: "load_account remote_demo_env (demo_key 2) (ac_remote_loader ?ac, ()) = Some (r, rl, ())"
    using chain_ends_loads [OF ends remote_demo_stable(1) on1] by (metis prod.exhaust old.unit.exhaust)
  note co = load_account_coherence [OF run remote_demo_stable(1)]
  have cache: "load_accounts_from_remote remote_demo_env [demo_key 2] (?ac, ()) = Some (?ac\<lparr>ac_remote_loader := rl\<rparr>, ())"
    using run by (simp add: load_accounts_from_remote_def)
  have new: "rl_get_account remote_demo_env rl (demo_key 2) = Some ?new"
    using co on1 remote_demo_view(2) remote_demo_not_ignored by (simp add: rl_get_account_def)
  then have "has_account_from_remote remote_demo_env (demo_key 2) (?ac\<lparr>ac_remote_loader := rl\<rparr>)"
    by (simp add: has_account_from_remote_def has_account_iff)
  then obtain db2 where "do_load db_demo_env (\<lambda>_ s. s) stale_demo_ancestors (demo_key 2) FixedMaxRoot
      (db1\<lparr>adb_cache := ?ac\<lparr>ac_remote_loader := rl\<rparr>\<rparr>) = Some (Done (Some (stale_demo_old, 0)), db2)"
    using remigration_serves_stale [OF none _ has first, unfolded env, OF _ cache] by auto
  with cache new first show ?thesis by (intro exI conjI) simp_all
qed

text \<open>
  A flushed slot can serve an account of the base layer: when the loader has the key of a local account
  and the flusher removes its slot between the two looks of the reader, the cache falls back to the
  loader.
\<close>

lemma flushed_slot_reads_remote:
  assumes "ac_cached slot key (adb_cache (sched k db)) = None"
    and "rl_get_account (de_remote env) (ac_remote_loader (adb_cache (sched k db))) key = Some b"
  shows "\<exists>db'. retry_to_get_account_accessor env sched k n slot Cached ancestors key hint db =
    Some (Done (Some (InCache (Some b), slot)), db')"
  using assms
  by (subst retry_to_get_account_accessor.simps) (simp add: get_account_accessor_def ac_load_def ac_load_with_def)

end
