(* ===== verification/Account_Locks.thy ===== *)
theory Account_Locks
  imports Bank_Remote Message_Properties "HOL-Library.Multiset"
begin

text \<open>
  The account locks that keep transactions in flight apart (\<^verbatim>\<open>AccountLocks\<close> and the locking
  operations of \<^verbatim>\<open>accounts-db/src/accounts.rs\<close>, with the lists of keys to lock of
  \<^verbatim>\<open>sdk/src/transaction/sanitized.rs\<close>).  The reader counts are 64-bit words.  Each batch runs under
  the mutex of the table, so a batch is one step.  \<open>None\<close> is a panic.

  Shown: whatever batches are locked and unlocked, no two transactions that hold their locks conflict,
  the table is exact, and a transaction is refused only when it conflicts with one in flight.
\<close>

section \<open>The lock table\<close>

record account_locks =
  al_write_locks :: "pubkey set"
  al_readonly_locks :: "pubkey \<rightharpoonup> u64"

definition is_locked_readonly :: "account_locks \<Rightarrow> pubkey \<Rightarrow> bool" where
  "is_locked_readonly l key = (case al_readonly_locks l key of Some c \<Rightarrow> 0 < c | None \<Rightarrow> False)"

definition is_locked_write :: "account_locks \<Rightarrow> pubkey \<Rightarrow> bool" where
  "is_locked_write l key \<longleftrightarrow> key \<in> al_write_locks l"

definition insert_new_readonly :: "pubkey \<Rightarrow> account_locks \<Rightarrow> account_locks option" where
  "insert_new_readonly key l =
     (if al_readonly_locks l key = None
      then Some (l\<lparr>al_readonly_locks := (al_readonly_locks l)(key \<mapsto> 1)\<rparr>) else None)"

definition lock_readonly :: "pubkey \<Rightarrow> account_locks \<Rightarrow> bool \<times> account_locks" where
  "lock_readonly key l =
     (case al_readonly_locks l key of
        None \<Rightarrow> (False, l)
      | Some c \<Rightarrow> (True, l\<lparr>al_readonly_locks := (al_readonly_locks l)(key \<mapsto> c + 1)\<rparr>))"

definition unlock_readonly :: "pubkey \<Rightarrow> account_locks \<Rightarrow> account_locks" where
  "unlock_readonly key l =
     (case al_readonly_locks l key of
        None \<Rightarrow> l
      | Some c \<Rightarrow>
          l\<lparr>al_readonly_locks := (al_readonly_locks l)(key := (if c - 1 = 0 then None else Some (c - 1)))\<rparr>)"

definition unlock_write :: "pubkey \<Rightarrow> account_locks \<Rightarrow> account_locks" where
  "unlock_write key l = l\<lparr>al_write_locks := al_write_locks l - {key}\<rparr>"

definition lock_account ::
    "pubkey list \<Rightarrow> pubkey list \<Rightarrow> account_locks \<Rightarrow> ((transaction_error + unit) \<times> account_locks) option" where
  "lock_account writable_keys readonly_keys l =
     (if list_ex (\<lambda>k. is_locked_write l k \<or> is_locked_readonly l k) writable_keys then Some (Inl TE_AccountInUse, l)
      else if list_ex (is_locked_write l) readonly_keys then Some (Inl TE_AccountInUse, l)
      else map_option (Pair (Inr ()))
        (fold (\<lambda>k r. Option.bind r (\<lambda>l. case lock_readonly k l of
                 (True, l') \<Rightarrow> Some l' | (False, l') \<Rightarrow> insert_new_readonly k l'))
           readonly_keys (Some (l\<lparr>al_write_locks := al_write_locks l \<union> set writable_keys\<rparr>))))"

definition unlock_account :: "pubkey list \<Rightarrow> pubkey list \<Rightarrow> account_locks \<Rightarrow> account_locks" where
  "unlock_account writable_keys readonly_keys l = fold unlock_readonly readonly_keys (fold unlock_write writable_keys l)"

section \<open>The locks of a transaction\<close>

definition validate_account_locks :: "sanitized_message \<Rightarrow> nat \<Rightarrow> transaction_error + unit" where
  "validate_account_locks message tx_account_lock_limit =
     (if sm_has_duplicates message then Inl TE_AccountLoadedTwice
      else if tx_account_lock_limit < ak_len (sm_account_keys message) then Inl TE_TooManyAccountLocks
      else Inr ())"

text \<open>The writable keys and the read-only ones.\<close>

definition get_account_locks_unchecked :: "sanitized_transaction \<Rightarrow> pubkey list \<times> pubkey list" where
  "get_account_locks_unchecked tx =
     (let keys = enumerate 0 (ak_iter (sm_account_keys (stx_message tx)))
      in (map snd (filter (\<lambda>(i, _). sm_is_writable (stx_message tx) i) keys),
          map snd (filter (\<lambda>(i, _). \<not> sm_is_writable (stx_message tx) i) keys)))"

definition get_account_locks :: "nat \<Rightarrow> sanitized_transaction \<Rightarrow> transaction_error + pubkey list \<times> pubkey list" where
  "get_account_locks tx_account_lock_limit tx =
     (case validate_account_locks (stx_message tx) tx_account_lock_limit of
        Inl e \<Rightarrow> Inl e | Inr _ \<Rightarrow> Inr (get_account_locks_unchecked tx))"

section \<open>Batches\<close>

fun lock_accounts_inner ::
    "(transaction_error + pubkey list \<times> pubkey list) list \<Rightarrow> account_locks \<Rightarrow>
     ((transaction_error + unit) list \<times> account_locks) option" where
  "lock_accounts_inner [] l = Some ([], l)"
| "lock_accounts_inner (r # rs) l =
     Option.bind (case r of Inr (writable, readonly) \<Rightarrow> lock_account writable readonly l | Inl e \<Rightarrow> Some (Inl e, l))
       (\<lambda>(res, l1). map_option (\<lambda>(ress, l2). (res # ress, l2)) (lock_accounts_inner rs l1))"

definition lock_accounts ::
    "nat \<Rightarrow> sanitized_transaction list \<Rightarrow> account_locks \<Rightarrow> ((transaction_error + unit) list \<times> account_locks) option" where
  "lock_accounts limit txs = lock_accounts_inner (map (get_account_locks limit) txs)"

definition lock_accounts_with_results ::
    "nat \<Rightarrow> sanitized_transaction list \<Rightarrow> (transaction_error + unit) list \<Rightarrow> account_locks \<Rightarrow>
     ((transaction_error + unit) list \<times> account_locks) option" where
  "lock_accounts_with_results limit txs results =
     lock_accounts_inner (map (\<lambda>(tx, result). case result of Inr _ \<Rightarrow> get_account_locks limit tx | Inl e \<Rightarrow> Inl e)
       (zip txs results))"

definition unlock_accounts ::
    "sanitized_transaction list \<Rightarrow> (transaction_error + unit) list \<Rightarrow> account_locks \<Rightarrow> account_locks" where
  "unlock_accounts txs results l =
     fold (\<lambda>(tx, _). case get_account_locks_unchecked tx of (writable, readonly) \<Rightarrow> unlock_account writable readonly)
       (filter (\<lambda>(_, res). \<not> isl res) (zip txs results)) l"

section \<open>What a transaction locks\<close>

definition tx_writes :: "sanitized_transaction \<Rightarrow> pubkey set" where
  "tx_writes tx = set (fst (get_account_locks_unchecked tx))"

definition tx_reads :: "sanitized_transaction \<Rightarrow> pubkey set" where
  "tx_reads tx = set (snd (get_account_locks_unchecked tx))"

definition conflict :: "sanitized_transaction \<Rightarrow> sanitized_transaction \<Rightarrow> bool" where
  "conflict a b \<longleftrightarrow> tx_writes a \<inter> (tx_writes b \<union> tx_reads b) \<noteq> {} \<or> tx_reads a \<inter> tx_writes b \<noteq> {}"

lemma conflict_sym: "conflict a b \<longleftrightarrow> conflict b a"
  by (auto simp: conflict_def)

lemma locks_split:
  assumes "\<not> sm_has_duplicates (stx_message tx)"
  shows "distinct (snd (get_account_locks_unchecked tx))" and "tx_writes tx \<inter> tx_reads tx = {}"
proof -
  let ?keys = "ak_iter (sm_account_keys (stx_message tx))"
  have d: "distinct ?keys" using assms by (simp add: has_duplicates_distinct)
  then have "distinct (map snd (enumerate 0 ?keys))" by simp
  then show "distinct (snd (get_account_locks_unchecked tx))"
    by (simp add: get_account_locks_unchecked_def Let_def distinct_map_filter)
  have "i = j" if "(i, k) \<in> set (enumerate 0 ?keys)" "(j, k) \<in> set (enumerate 0 ?keys)" for i j k
    using that d by (auto simp: in_set_enumerate_eq nth_eq_iff_index_eq)
  then show "tx_writes tx \<inter> tx_reads tx = {}"
    by (force simp: tx_writes_def tx_reads_def get_account_locks_unchecked_def Let_def)
qed

lemma readonly_fold:
  assumes "distinct rs"
  shows "\<exists>l'. fold (\<lambda>k r. Option.bind r (\<lambda>l. case lock_readonly k l of
      (True, l') \<Rightarrow> Some l' | (False, l') \<Rightarrow> insert_new_readonly k l')) rs (Some l) = Some l' \<and>
    al_write_locks l' = al_write_locks l \<and>
    (\<forall>k. al_readonly_locks l' k =
      (if k \<in> set rs then Some (case al_readonly_locks l k of None \<Rightarrow> 1 | Some c \<Rightarrow> c + 1) else al_readonly_locks l k))"
  using assms
proof (induction rs arbitrary: l)
  case (Cons r rs)
  define l1 where "l1 = l\<lparr>al_readonly_locks := (al_readonly_locks l)
    (r \<mapsto> (case al_readonly_locks l r of None \<Rightarrow> 1 | Some c \<Rightarrow> c + 1))\<rparr>"
  have "(case lock_readonly r l of (True, l') \<Rightarrow> Some l' | (False, l') \<Rightarrow> insert_new_readonly r l') = Some l1"
    by (auto simp: lock_readonly_def insert_new_readonly_def l1_def split: option.splits)
  with Cons.IH [of l1] Cons.prems show ?case by (auto simp: l1_def)
qed simp

lemma unlock_account_fields:
  assumes "distinct rs"
  shows "al_write_locks (unlock_account ws rs l) = al_write_locks l - set ws"
    and "al_readonly_locks (unlock_account ws rs l) k =
      (if k \<in> set rs then Option.bind (al_readonly_locks l k) (\<lambda>c. if c - 1 = 0 then None else Some (c - 1))
       else al_readonly_locks l k)"
proof -
  have w: "al_write_locks (fold unlock_write ws l) = al_write_locks l - set ws \<and>
      al_readonly_locks (fold unlock_write ws l) = al_readonly_locks l" for l
    by (induction ws arbitrary: l) (auto simp: unlock_write_def)
  have r: "al_write_locks (fold unlock_readonly rs l) = al_write_locks l \<and>
    (\<forall>k. al_readonly_locks (fold unlock_readonly rs l) k =
      (if k \<in> set rs then Option.bind (al_readonly_locks l k) (\<lambda>c. if c - 1 = 0 then None else Some (c - 1))
       else al_readonly_locks l k))" for l
    using assms
  proof (induction rs arbitrary: l)
    case (Cons r rs)
    have "al_write_locks (unlock_readonly r l) = al_write_locks l"
      "al_readonly_locks (unlock_readonly r l) = (al_readonly_locks l)
        (r := Option.bind (al_readonly_locks l r) (\<lambda>c. if c - 1 = 0 then None else Some (c - 1)))"
      by (auto simp: unlock_readonly_def fun_eq_iff split: option.splits)
    with Cons.IH [of "unlock_readonly r l"] Cons.prems show ?case by auto
  qed simp
  show "al_write_locks (unlock_account ws rs l) = al_write_locks l - set ws"
    using w r by (simp add: unlock_account_def)
  show "al_readonly_locks (unlock_account ws rs l) k =
      (if k \<in> set rs then Option.bind (al_readonly_locks l k) (\<lambda>c. if c - 1 = 0 then None else Some (c - 1))
       else al_readonly_locks l k)"
    using w r by (simp add: unlock_account_def)
qed

section \<open>Exclusion\<close>

text \<open>\<open>held\<close> are the transactions in flight.\<close>

definition readers :: "sanitized_transaction multiset \<Rightarrow> pubkey \<Rightarrow> nat" where
  "readers held k = size (filter_mset (\<lambda>tx. k \<in> tx_reads tx) held)"

definition locks_exact :: "account_locks \<Rightarrow> sanitized_transaction multiset \<Rightarrow> bool" where
  "locks_exact l held \<longleftrightarrow>
     al_write_locks l = (\<Union>tx \<in> set_mset held. tx_writes tx) \<and>
     (\<forall>k. al_readonly_locks l k = (if readers held k = 0 then None else Some (of_nat (readers held k))))"

definition exclusive :: "sanitized_transaction multiset \<Rightarrow> bool" where
  "exclusive held \<longleftrightarrow> (\<forall>tx \<in># held. \<forall>other \<in># held - {#tx#}. \<not> conflict tx other)"

definition locks_ok :: "account_locks \<Rightarrow> sanitized_transaction multiset \<Rightarrow> bool" where
  "locks_ok l held \<longleftrightarrow> locks_exact l held \<and> exclusive held \<and>
     (\<forall>tx \<in># held. \<not> sm_has_duplicates (stx_message tx)) \<and> size held < 2 ^ 64"

lemma exclusive_add: "exclusive (add_mset tx held) \<longleftrightarrow> exclusive held \<and> (\<forall>other \<in># held. \<not> conflict tx other)"
proof
  assume ex: "exclusive (add_mset tx held)"
  have "\<not> conflict a b" if "a \<in># held" "b \<in># held - {#a#}" for a b
  proof -
    have "b \<in># add_mset tx held - {#a#}" using that by (cases "a = tx") (auto dest: in_diffD)
    then show ?thesis using ex that(1) by (auto simp: exclusive_def)
  qed
  moreover have "\<not> conflict tx b" if "b \<in># held" for b using ex that by (auto simp: exclusive_def)
  ultimately show "exclusive held \<and> (\<forall>other \<in># held. \<not> conflict tx other)" by (simp add: exclusive_def)
next
  assume ex: "exclusive held \<and> (\<forall>other \<in># held. \<not> conflict tx other)"
  have "\<not> conflict a b" if "a \<in># add_mset tx held" "b \<in># add_mset tx held - {#a#}" for a b
  proof (cases "a = tx")
    case True
    then show ?thesis using that ex by simp
  next
    case False
    then have a: "a \<in># held" using that by simp
    then have "b = tx \<or> b \<in># held - {#a#}" using that(2) False by (auto simp: add_mset_commute)
    then show ?thesis using ex a conflict_sym by (auto simp: exclusive_def)
  qed
  then show "exclusive (add_mset tx held)" by (simp add: exclusive_def)
qed

lemma readers_add: "readers (add_mset tx held) k = readers held k + (if k \<in> tx_reads tx then 1 else 0)"
  by (simp add: readers_def)

lemma readers_le: "readers held k \<le> size held"
  by (simp add: readers_def size_filter_mset_lesseq)

lemma readers_pos: "0 < readers held k \<longleftrightarrow> (\<exists>tx \<in># held. k \<in> tx_reads tx)"
  by (induction held) (auto simp: readers_def)

lemma of_nat_u64_0: "n < 2 ^ 64 \<Longrightarrow> (of_nat n :: u64) = 0 \<longleftrightarrow> n = 0"
  using unat_of_nat_u64 [of n] unat_eq_0 [of "of_nat n :: u64"] by simp

lemma locked_iff:
  assumes "locks_ok l held"
  shows "is_locked_write l k \<longleftrightarrow> (\<exists>tx \<in># held. k \<in> tx_writes tx)"
    and "is_locked_readonly l k \<longleftrightarrow> (\<exists>tx \<in># held. k \<in> tx_reads tx)"
proof -
  show "is_locked_write l k \<longleftrightarrow> (\<exists>tx \<in># held. k \<in> tx_writes tx)"
    using assms by (simp add: locks_ok_def locks_exact_def is_locked_write_def)
  have "readers held k < 2 ^ 64" using assms readers_le [of held k] by (simp add: locks_ok_def)
  then show "is_locked_readonly l k \<longleftrightarrow> (\<exists>tx \<in># held. k \<in> tx_reads tx)"
    using assms readers_pos [of held k] of_nat_u64_0 [of "readers held k"]
    by (auto simp: locks_ok_def locks_exact_def is_locked_readonly_def word_neq_0_conv split: if_splits)
qed

lemma lock_account_ok:
  assumes "locks_ok l held" and "\<not> sm_has_duplicates (stx_message tx)" and "size held + 1 < 2 ^ 64"
    and "get_account_locks_unchecked tx = (ws, rs)"
  shows "if \<exists>other \<in># held. conflict tx other then lock_account ws rs l = Some (Inl TE_AccountInUse, l)
    else \<exists>l'. lock_account ws rs l = Some (Inr (), l') \<and> locks_ok l' (add_mset tx held)"
proof -
  have sets: "set ws = tx_writes tx" "set rs = tx_reads tx" using assms(4) by (simp_all add: tx_writes_def tx_reads_def)
  have busy: "(list_ex (\<lambda>k. is_locked_write l k \<or> is_locked_readonly l k) ws \<or> list_ex (is_locked_write l) rs) \<longleftrightarrow>
      (\<exists>other \<in># held. conflict tx other)"
    unfolding list_ex_iff locked_iff [OF assms(1)] sets conflict_def by blast
  show ?thesis
  proof (cases "\<exists>other \<in># held. conflict tx other")
    case True
    with busy show ?thesis by (auto simp: lock_account_def)
  next
    case False
    have free: "\<not> list_ex (\<lambda>k. is_locked_write l k \<or> is_locked_readonly l k) ws" "\<not> list_ex (is_locked_write l) rs"
      using busy False by blast+
    have "distinct rs" using locks_split(1) [OF assms(2)] assms(4) by simp
    define l0 where "l0 = l\<lparr>al_write_locks := al_write_locks l \<union> set ws\<rparr>"
    then have l0: "al_write_locks l0 = al_write_locks l \<union> set ws" "al_readonly_locks l0 = al_readonly_locks l" by simp_all
    have "\<exists>l'. lock_account ws rs l = Some (Inr (), l') \<and> al_write_locks l' = al_write_locks l \<union> set ws \<and>
        (\<forall>k. al_readonly_locks l' k = (if k \<in> set rs
           then Some (case al_readonly_locks l k of None \<Rightarrow> 1 | Some c \<Rightarrow> c + 1) else al_readonly_locks l k))"
      using readonly_fold [OF \<open>distinct rs\<close>, of l0, unfolded l0]
      by (elim exE conjE, intro exI conjI) (simp_all only: lock_account_def free if_False l0_def option.map)
    then obtain l' where l': "lock_account ws rs l = Some (Inr (), l')" "al_write_locks l' = al_write_locks l \<union> set ws"
        "\<forall>k. al_readonly_locks l' k = (if k \<in> set rs
           then Some (case al_readonly_locks l k of None \<Rightarrow> 1 | Some c \<Rightarrow> c + 1) else al_readonly_locks l k)"
      by blast
    have exact: "al_write_locks l = (\<Union>tx \<in> set_mset held. tx_writes tx)"
        "al_readonly_locks l k = (if readers held k = 0 then None else Some (of_nat (readers held k)))" for k
      using assms(1) by (simp_all add: locks_ok_def locks_exact_def)
    have "al_readonly_locks l' k = (if readers (add_mset tx held) k = 0 then None
        else Some (of_nat (readers (add_mset tx held) k)))" for k
      using l'(3) sets(2) by (simp add: exact(2) readers_add add.commute)
    moreover have "al_write_locks l' = (\<Union>tx \<in> set_mset (add_mset tx held). tx_writes tx)"
      using l'(2) sets(1) by (simp add: exact(1) Un_commute)
    ultimately have "locks_exact l' (add_mset tx held)" by (simp add: locks_exact_def)
    moreover have "exclusive (add_mset tx held)" using assms(1) False by (simp add: exclusive_add locks_ok_def)
    ultimately have "locks_ok l' (add_mset tx held)" using assms(1-3) by (simp add: locks_ok_def)
    with l'(1) False show ?thesis by auto
  qed
qed

lemma unlock_account_ok:
  assumes "locks_ok l (add_mset tx held)" and "get_account_locks_unchecked tx = (ws, rs)"
  shows "locks_ok (unlock_account ws rs l) held"
proof -
  have sets: "set ws = tx_writes tx" "set rs = tx_reads tx" using assms(2) by (simp_all add: tx_writes_def tx_reads_def)
  have d: "distinct rs" using locks_split(1) [of tx] assms by (simp add: locks_ok_def)
  have ex: "exclusive held" "\<forall>other \<in># held. \<not> conflict tx other" and size: "size held + 1 < 2 ^ 64"
    using assms(1) by (simp_all add: locks_ok_def exclusive_add)
  have "readers held k < 2 ^ 64" for k using readers_le [of held k] size by linarith
  then have zero: "(of_nat (readers held k) :: u64) = 0 \<longleftrightarrow> readers held k = 0" for k by (rule of_nat_u64_0)
  have "(\<Union>tx \<in> set_mset held. tx_writes tx) \<inter> tx_writes tx = {}"
    using ex(2) by (auto simp: conflict_def)
  then have "al_write_locks (unlock_account ws rs l) = (\<Union>tx \<in> set_mset held. tx_writes tx)"
    using assms(1) sets by (auto simp: unlock_account_fields(1) [OF d] locks_ok_def locks_exact_def)
  moreover have "al_readonly_locks (unlock_account ws rs l) k =
      (if readers held k = 0 then None else Some (of_nat (readers held k)))" for k
    using assms(1) sets zero [of k] by (simp add: unlock_account_fields(2) [OF d] locks_ok_def locks_exact_def readers_add)
  ultimately show ?thesis using assms(1) ex(1) size by (simp add: locks_ok_def locks_exact_def)
qed

text \<open>The transactions of a batch that have their result.\<close>

definition granted :: "sanitized_transaction list \<Rightarrow> (transaction_error + unit) list \<Rightarrow> sanitized_transaction multiset" where
  "granted txs results = mset (map fst (filter (\<lambda>(_, res). \<not> isl res) (zip txs results)))"

text \<open>
  The runs of the lock table: batches are locked, with and without earlier results, and batches of
  transactions in flight are unlocked.  There are never \<open>2 ^ 64\<close> transactions in flight or in a batch.
\<close>

inductive locks_reachable :: "nat \<Rightarrow> account_locks \<Rightarrow> sanitized_transaction multiset \<Rightarrow> bool" for limit where
  start: "locks_reachable limit \<lparr>al_write_locks = {}, al_readonly_locks = Map.empty\<rparr> {#}"
| lock: "locks_reachable limit l held \<Longrightarrow> size held + length txs < 2 ^ 64 \<Longrightarrow>
    lock_accounts limit txs l = Some (results, l') \<Longrightarrow> locks_reachable limit l' (held + granted txs results)"
| relock: "locks_reachable limit l held \<Longrightarrow> size held + length txs < 2 ^ 64 \<Longrightarrow> length earlier = length txs \<Longrightarrow>
    lock_accounts_with_results limit txs earlier l = Some (results, l') \<Longrightarrow>
    locks_reachable limit l' (held + granted txs results)"
| unlock: "locks_reachable limit l (held + granted txs results) \<Longrightarrow>
    locks_reachable limit (unlock_accounts txs results l) held"

lemma lock_inner_ok:
  assumes "locks_ok l held" and "size held + length rs < 2 ^ 64" and "length txs = length rs"
    and "lock_accounts_inner rs l = Some (results, l')"
    and "\<And>i. i < length rs \<Longrightarrow> \<not> isl (rs ! i) \<Longrightarrow> get_account_locks limit (txs ! i) = rs ! i"
  shows "locks_ok l' (held + granted txs results)"
  using assms
proof (induction rs arbitrary: txs l held results)
  case Nil
  then show ?case by (simp add: granted_def)
next
  case (Cons r rs)
  from Cons.prems(3) obtain tx txs' where txs: "txs = tx # txs'" "length txs' = length rs" by (cases txs) auto
  from Cons.prems(4) obtain res l1 ress where
      one: "(case r of Inr (writable, readonly) \<Rightarrow> lock_account writable readonly l | Inl e \<Rightarrow> Some (Inl e, l)) = Some (res, l1)"
      and rest: "lock_accounts_inner rs l1 = Some (ress, l')" "results = res # ress"
    by (auto simp: bind_eq_Some_conv)
  have rs: "get_account_locks limit (txs' ! i) = rs ! i" if "i < length rs" "\<not> isl (rs ! i)" for i
    using Cons.prems(5) [of "Suc i"] that txs(1) by simp
  have step: "locks_ok l1 (if isl res then held else add_mset tx held)"
  proof (cases r)
    case (Inl e)
    with one Cons.prems(1) show ?thesis by auto
  next
    case (Inr locks)
    then have "get_account_locks limit tx = Inr locks" using Cons.prems(5) [of 0] txs(1) by simp
    then have locks: "get_account_locks_unchecked tx = (fst locks, snd locks)" "\<not> sm_has_duplicates (stx_message tx)"
      by (auto simp: get_account_locks_def validate_account_locks_def split: if_splits)
    have "size held + 1 < 2 ^ 64" using Cons.prems(2) by simp
    from lock_account_ok [OF Cons.prems(1) locks(2) this locks(1)] one Inr Cons.prems(1) show ?thesis
      by (auto split: if_splits prod.splits)
  qed
  have small: "size (if isl res then held else add_mset tx held) + length rs < 2 ^ 64"
    using Cons.prems(2) by simp
  from Cons.IH [OF step small txs(2) rest(1) rs] show ?case
    by (simp add: rest(2) txs(1) granted_def split: if_splits)
qed

lemma unlock_ok:
  assumes "locks_ok l (held + granted txs results)"
  shows "locks_ok (unlock_accounts txs results l) held"
proof -
  have "locks_ok (fold (\<lambda>(tx, _). case get_account_locks_unchecked tx of (writable, readonly) \<Rightarrow> unlock_account writable readonly)
      ps l) held" if "locks_ok l (held + mset (map fst ps))" for ps :: "(sanitized_transaction \<times> (transaction_error + unit)) list"
    using that
  proof (induction ps arbitrary: l)
    case (Cons p ps)
    obtain ws rs where locks: "get_account_locks_unchecked (fst p) = (ws, rs)" by fastforce
    have "locks_ok (unlock_account ws rs l) (held + mset (map fst ps))"
      using unlock_account_ok [OF _ locks] Cons.prems by simp
    from Cons.IH [OF this] locks show ?case by (simp add: split_beta)
  qed simp
  with assms show ?thesis by (simp add: granted_def unlock_accounts_def)
qed

lemma locks_reachable_ok: "locks_reachable limit l held \<Longrightarrow> locks_ok l held"
proof (induction rule: locks_reachable.induct)
  case start
  show ?case by (simp add: locks_ok_def locks_exact_def exclusive_def readers_def)
next
  case (lock l held txs results l')
  show ?case
    using lock.hyps(2) by (intro lock_inner_ok [OF lock.IH _ _ lock.hyps(3) [unfolded lock_accounts_def]]) simp_all
next
  case (relock l held txs earlier results l')
  show ?case
    using relock.hyps(2,3)
    by (intro lock_inner_ok [OF relock.IH _ _ relock.hyps(4) [unfolded lock_accounts_with_results_def]])
      (auto split: sum.splits)
next
  case (unlock l held txs results)
  then show ?case by (intro unlock_ok)
qed

text \<open>
  (C7) Account locks exclude conflicts: whatever batches were locked and unlocked, no transaction in flight
  writes an account that another one reads or writes, the table says exactly which accounts are
  written and read, and locking one more transaction never panics and succeeds exactly when it is
  valid and conflicts with none in flight.
\<close>

theorem locks_exclusive:
  assumes "locks_reachable limit l held" and "size held + 1 < 2 ^ 64"
  shows "(\<forall>tx \<in># held. \<forall>other \<in># held - {#tx#}. \<not> conflict tx other) \<and>
    (\<forall>k. is_locked_write l k = (\<exists>tx \<in># held. k \<in> tx_writes tx)) \<and>
    (\<forall>k. is_locked_readonly l k = (\<exists>tx \<in># held. k \<in> tx_reads tx)) \<and>
    (\<forall>tx. map_option fst (lock_accounts limit [tx] l) =
       Some [case validate_account_locks (stx_message tx) limit of
               Inl e \<Rightarrow> Inl e
             | Inr _ \<Rightarrow> if \<exists>other \<in># held. conflict tx other then Inl TE_AccountInUse else Inr ()])"
proof -
  note ok = locks_reachable_ok [OF assms(1)]
  have "map_option fst (lock_accounts limit [tx] l) =
       Some [case validate_account_locks (stx_message tx) limit of
               Inl e \<Rightarrow> Inl e
             | Inr _ \<Rightarrow> if \<exists>other \<in># held. conflict tx other then Inl TE_AccountInUse else Inr ()]" for tx
  proof (cases "validate_account_locks (stx_message tx) limit")
    case (Inl e)
    then show ?thesis by (simp add: lock_accounts_def get_account_locks_def)
  next
    case (Inr u)
    obtain ws rs where locks: "get_account_locks_unchecked tx = (ws, rs)" by fastforce
    have "\<not> sm_has_duplicates (stx_message tx)" using Inr by (auto simp: validate_account_locks_def split: if_splits)
    from lock_account_ok [OF ok this assms(2) locks] Inr locks show ?thesis
      by (auto simp: lock_accounts_def get_account_locks_def split: if_splits)
  qed
  then show ?thesis using ok locked_iff [OF ok] by (simp add: locks_ok_def exclusive_def)
qed

text \<open>A transaction that writes account \<open>n\<close> and reads account 9.\<close>

definition lock_demo_tx :: "u8 \<Rightarrow> sanitized_transaction" where
  "lock_demo_tx n =
     \<lparr>stx_message = LegacyMsg
        \<lparr>clm_message =
           \<lparr>lm_header = \<lparr>mh_num_required_signatures = 1, mh_num_readonly_signed_accounts = 0,
                         mh_num_readonly_unsigned_accounts = 1\<rparr>,
            lm_account_keys = [sample_key n, sample_key 9], lm_recent_blockhash = hash_default, lm_instructions = []\<rparr>,
         clm_is_writable_cache = [True, False]\<rparr>,
      stx_is_simple_vote = False\<rparr>"

lemma lock_demo_locks:
  "get_account_locks_unchecked (lock_demo_tx n) = ([sample_key n], [sample_key 9])"
  "n \<noteq> 9 \<Longrightarrow> validate_account_locks (stx_message (lock_demo_tx n)) 64 = Inr ()"
  by (simp_all add: get_account_locks_unchecked_def lock_demo_tx_def ak_iter_def key_segments_def get_def
      validate_account_locks_def legacy_has_duplicates_iff ak_len_def)

theorem locks_exclusive_witness:
  "\<exists>l. locks_reachable 64 l {#lock_demo_tx 1#} \<and> is_locked_readonly l (sample_key 9) \<and>
     map_option fst (lock_accounts 64 [lock_demo_tx 1] l) = Some [Inl TE_AccountInUse] \<and>
     map_option fst (lock_accounts 64 [lock_demo_tx 2] l) = Some [Inr ()]"
proof -
  let ?l = "\<lparr>al_write_locks = {sample_key 1}, al_readonly_locks = [sample_key 9 \<mapsto> 1]\<rparr>"
  have "lock_accounts 64 [lock_demo_tx 1] \<lparr>al_write_locks = {}, al_readonly_locks = Map.empty\<rparr> = Some ([Inr ()], ?l)"
    by (simp add: lock_accounts_def get_account_locks_def lock_demo_locks lock_account_def is_locked_write_def
        is_locked_readonly_def lock_readonly_def insert_new_readonly_def)
  from locks_reachable.lock [OF locks_reachable.start _ this] have run: "locks_reachable 64 ?l {#lock_demo_tx 1#}"
    by (simp add: granted_def)
  have "\<not> conflict (lock_demo_tx 2) (lock_demo_tx 1)" "conflict (lock_demo_tx 1) (lock_demo_tx 1)"
      "sample_key 9 \<in> tx_reads (lock_demo_tx 1)"
    by (simp_all add: conflict_def tx_writes_def tx_reads_def lock_demo_locks)
  moreover have "size {#lock_demo_tx 1#} + 1 < (2 :: nat) ^ 64" by simp
  note ex = locks_exclusive [OF run this]
  have "is_locked_readonly ?l (sample_key 9) = (sample_key 9 \<in> tx_reads (lock_demo_tx 1))"
    using ex by simp
  moreover have one: "map_option fst (lock_accounts 64 [tx] ?l) =
      Some [if conflict tx (lock_demo_tx 1) then Inl TE_AccountInUse else Inr ()]"
    if "validate_account_locks (stx_message tx) 64 = Inr ()" for tx
    using ex [THEN conjunct2, THEN conjunct2, THEN conjunct2, rule_format, of tx] that by simp
  ultimately show ?thesis
    using run one [OF lock_demo_locks(2) [of 1]] one [OF lock_demo_locks(2) [of 2]] by (intro exI [of _ ?l]) simp
qed

end
