(* ===== verification/Blockhash_Queue.thy ===== *)
theory Blockhash_Queue
  imports Sysvars "HOL-Library.AList"
begin

text \<open>
  The queue of recent blockhashes (\<^verbatim>\<open>accounts-db/src/blockhash_queue.rs\<close>), which bounds the age of the
  blockhash a transaction names.  The hash map is an association list, so that its length is the
  number of entries; the indices are 64-bit words with wrapping subtraction; the current time is an
  argument.

  Shown: the queue answers exactly whether a hash is among the latest ones, with the fee of its last
  registration, and it stays bounded.
\<close>

record hash_age =
  ha_fee_calculator :: fee_calculator
  ha_hash_index :: u64
  ha_timestamp :: u64

record blockhash_queue =
  bq_last_hash_index :: u64
  bq_last_hash :: "hash option"
  bq_ages :: "(hash \<times> hash_age) list"
  bq_max_age :: u64

definition bq_new :: "u64 \<Rightarrow> blockhash_queue" where
  "bq_new max_age = \<lparr>bq_last_hash_index = 0, bq_last_hash = None, bq_ages = [], bq_max_age = max_age\<rparr>"

definition bq_get_lamports_per_signature :: "blockhash_queue \<Rightarrow> hash \<Rightarrow> u64 option" where
  "bq_get_lamports_per_signature q hash =
     map_option (\<lambda>age. fc_lamports_per_signature (ha_fee_calculator age)) (map_of (bq_ages q) hash)"

definition is_hash_valid :: "blockhash_queue \<Rightarrow> hash \<Rightarrow> bool" where
  "is_hash_valid q hash \<longleftrightarrow> map_of (bq_ages q) hash \<noteq> None"

definition is_hash_index_valid :: "u64 \<Rightarrow> u64 \<Rightarrow> u64 \<Rightarrow> bool" where
  "is_hash_index_valid last_hash_index max_age hash_index \<longleftrightarrow> last_hash_index - hash_index \<le> max_age"

definition is_hash_valid_for_age :: "blockhash_queue \<Rightarrow> hash \<Rightarrow> u64 \<Rightarrow> bool" where
  "is_hash_valid_for_age q hash max_age =
     (case map_of (bq_ages q) hash of
        Some age \<Rightarrow> is_hash_index_valid (bq_last_hash_index q) max_age (ha_hash_index age) | None \<Rightarrow> False)"

definition get_hash_age :: "blockhash_queue \<Rightarrow> hash \<Rightarrow> u64 option" where
  "get_hash_age q hash = map_option (\<lambda>age. bq_last_hash_index q - ha_hash_index age) (map_of (bq_ages q) hash)"

definition genesis_hash :: "u64 \<Rightarrow> hash \<Rightarrow> u64 \<Rightarrow> blockhash_queue \<Rightarrow> blockhash_queue" where
  "genesis_hash now hash lamports_per_signature q =
     q\<lparr>bq_ages := AList.update hash
         \<lparr>ha_fee_calculator = \<lparr>fc_lamports_per_signature = lamports_per_signature\<rparr>, ha_hash_index = 0, ha_timestamp = now\<rparr>
         (bq_ages q),
       bq_last_hash := Some hash\<rparr>"

definition register_hash :: "u64 \<Rightarrow> hash \<Rightarrow> u64 \<Rightarrow> blockhash_queue \<Rightarrow> blockhash_queue" where
  "register_hash now hash lamports_per_signature q =
     (let index = bq_last_hash_index q + 1;
          kept = (if unat (bq_max_age q) \<le> length (bq_ages q)
                  then filter (\<lambda>(_, age). is_hash_index_valid index (bq_max_age q) (ha_hash_index age)) (bq_ages q)
                  else bq_ages q)
      in q\<lparr>bq_last_hash_index := index,
           bq_ages := AList.update hash
             \<lparr>ha_fee_calculator = \<lparr>fc_lamports_per_signature = lamports_per_signature\<rparr>, ha_hash_index = index,
              ha_timestamp = now\<rparr> kept,
           bq_last_hash := Some hash\<rparr>)"

section \<open>The window of recent hashes\<close>

text \<open>The history is the list of hashes and fees, latest first; the age of a hash is its first position.\<close>

abbreviation hash_position :: "hash \<Rightarrow> (hash \<times> u64) list \<Rightarrow> nat option" where
  "hash_position h \<equiv> position (\<lambda>e. fst e = h)"

definition queue_ok :: "blockhash_queue \<Rightarrow> (hash \<times> u64) list \<Rightarrow> bool" where
  "queue_ok q H \<longleftrightarrow> distinct (map fst (bq_ages q)) \<and>
     (\<forall>h. case hash_position h H of
        None \<Rightarrow> map_of (bq_ages q) h = None
      | Some j \<Rightarrow>
          map_of (bq_ages q) h = None \<and> unat (bq_max_age q) < j \<or>
          (\<exists>age. map_of (bq_ages q) h = Some age \<and> ha_hash_index age = bq_last_hash_index q - of_nat j \<and>
             fc_lamports_per_signature (ha_fee_calculator age) = snd (H ! j)))"

lemma position_take: "(\<exists>x \<in> set (take n xs). P x) \<longleftrightarrow> (\<exists>j < n. position P xs = Some j)"
proof (induction xs arbitrary: n)
  case (Cons x xs)
  show ?case using Cons.IH by (cases n) auto
qed simp

lemma map_of_filter_distinct:
  "distinct (map fst al) \<Longrightarrow>
   map_of (filter P al) k = (case map_of al k of Some v \<Rightarrow> if P (k, v) then Some v else None | None \<Rightarrow> None)"
  by (induction al) (auto split: option.splits simp: map_of_eq_None_iff image_iff)

definition retained :: "blockhash_queue \<Rightarrow> (hash \<times> hash_age) list" where
  "retained q =
     (if unat (bq_max_age q) \<le> length (bq_ages q)
      then filter (\<lambda>(_, age). is_hash_index_valid (bq_last_hash_index q + 1) (bq_max_age q) (ha_hash_index age)) (bq_ages q)
      else bq_ages q)"

lemma valid_position:
  assumes "Suc j < 2 ^ 64" and "ha_hash_index age = bq_last_hash_index q - of_nat j"
  shows "is_hash_index_valid (bq_last_hash_index q + 1) m (ha_hash_index age) \<longleftrightarrow> Suc j \<le> unat m"
proof -
  have "bq_last_hash_index q + 1 - ha_hash_index age = of_nat (Suc j)" using assms(2) by simp
  moreover have "unat (of_nat (Suc j) :: u64) = Suc j" using assms(1) by (simp only: unsigned_of_nat) (simp add: take_bit_nat_eq_self)
  ultimately show ?thesis by (simp only: is_hash_index_valid_def word_le_nat_alt)
qed

lemma retained_ok:
  assumes "queue_ok q H" and "length H < 2 ^ 64"
  shows "distinct (map fst (retained q))" and "length (retained q) \<le> unat (bq_max_age q)"
    and "hash_position h H = None \<Longrightarrow> map_of (retained q) h = None"
    and "hash_position h H = Some j \<Longrightarrow>
      map_of (retained q) h = None \<and> unat (bq_max_age q) < Suc j \<or>
      (\<exists>age. map_of (retained q) h = Some age \<and> ha_hash_index age = bq_last_hash_index q + 1 - of_nat (Suc j) \<and>
         fc_lamports_per_signature (ha_fee_calculator age) = snd (H ! j))"
proof -
  have d: "distinct (map fst (bq_ages q))" using assms(1) by (simp add: queue_ok_def)
  then show dr: "distinct (map fst (retained q))" by (simp add: retained_def distinct_map_filter)
  have of: "map_of (retained q) h = (case map_of (bq_ages q) h of None \<Rightarrow> None | Some age \<Rightarrow>
      if length (bq_ages q) < unat (bq_max_age q) \<or>
         is_hash_index_valid (bq_last_hash_index q + 1) (bq_max_age q) (ha_hash_index age) then Some age else None)" for h
    by (auto simp: retained_def map_of_filter_distinct [OF d] split: option.splits)
  have len: "Suc j < 2 ^ 64" if "hash_position h H = Some j" for h j
    using that assms(2) by (auto simp: position_Some)
  show "hash_position h H = None \<Longrightarrow> map_of (retained q) h = None"
    using assms(1) by (auto simp: queue_ok_def of split: option.splits dest: spec [of _ h])
  show "map_of (retained q) h = None \<and> unat (bq_max_age q) < Suc j \<or>
      (\<exists>age. map_of (retained q) h = Some age \<and> ha_hash_index age = bq_last_hash_index q + 1 - of_nat (Suc j) \<and>
         fc_lamports_per_signature (ha_fee_calculator age) = snd (H ! j))" if j: "hash_position h H = Some j" for h j
  proof -
    from assms(1) j consider "map_of (bq_ages q) h = None" "unat (bq_max_age q) < j"
      | age where "map_of (bq_ages q) h = Some age" "ha_hash_index age = bq_last_hash_index q - of_nat j"
          "fc_lamports_per_signature (ha_fee_calculator age) = snd (H ! j)"
      by (auto simp: queue_ok_def dest!: spec [of _ h])
    then show ?thesis
    proof cases
      case 2
      then show ?thesis using valid_position [OF _ 2(2)] of [of h] len [OF j] by auto
    qed (simp add: of)
  qed
  show "length (retained q) \<le> unat (bq_max_age q)"
  proof (cases "length (bq_ages q) < unat (bq_max_age q)")
    case False
    have "fst ` set (retained q) \<subseteq> fst ` set (take (unat (bq_max_age q)) H)"
    proof
      fix h
      assume "h \<in> fst ` set (retained q)"
      then obtain age where "map_of (retained q) h = Some age"
        using dr by (auto simp: map_of_eq_Some_iff)
      then have "map_of (bq_ages q) h = Some age"
        and valid: "is_hash_index_valid (bq_last_hash_index q + 1) (bq_max_age q) (ha_hash_index age)"
        using of [of h] False by (auto split: option.splits if_splits)
      then obtain j where j: "hash_position h H = Some j" "ha_hash_index age = bq_last_hash_index q - of_nat j"
        using assms(1) [unfolded queue_ok_def, THEN conjunct2, THEN spec [of _ h]] by (cases "hash_position h H") auto
      then have "j < unat (bq_max_age q)" using valid valid_position [OF len [OF j(1)] j(2)] by simp
      then show "h \<in> fst ` set (take (unat (bq_max_age q)) H)"
        using j(1) position_take [of "unat (bq_max_age q)" H "\<lambda>e. fst e = h"] by auto
    qed
    then have "card (fst ` set (retained q)) \<le> card (fst ` set (take (unat (bq_max_age q)) H))" by (simp add: card_mono)
    also have "\<dots> \<le> length (take (unat (bq_max_age q)) H)"
      using card_length [of "map fst (take (unat (bq_max_age q)) H)"] by simp
    finally show ?thesis using distinct_card [OF dr] by simp
  qed (simp add: retained_def)
qed

lemma register_ok:
  assumes "queue_ok q H" and "length H < 2 ^ 64"
  shows "queue_ok (register_hash now hash lps q) ((hash, lps) # H)"
    and "length (bq_ages (register_hash now hash lps q)) \<le> unat (bq_max_age q) + 1"
proof -
  note r = retained_ok [OF assms]
  have q': "register_hash now hash lps q =
      q\<lparr>bq_last_hash_index := bq_last_hash_index q + 1,
        bq_ages := AList.update hash \<lparr>ha_fee_calculator = \<lparr>fc_lamports_per_signature = lps\<rparr>,
          ha_hash_index = bq_last_hash_index q + 1, ha_timestamp = now\<rparr> (retained q),
        bq_last_hash := Some hash\<rparr>"
    by (simp add: register_hash_def retained_def Let_def)
  have "case hash_position h ((hash, lps) # H) of
        None \<Rightarrow> map_of (bq_ages (register_hash now hash lps q)) h = None
      | Some j \<Rightarrow>
          map_of (bq_ages (register_hash now hash lps q)) h = None \<and> unat (bq_max_age (register_hash now hash lps q)) < j \<or>
          (\<exists>age. map_of (bq_ages (register_hash now hash lps q)) h = Some age \<and>
             ha_hash_index age = bq_last_hash_index (register_hash now hash lps q) - of_nat j \<and>
             fc_lamports_per_signature (ha_fee_calculator age) = snd (((hash, lps) # H) ! j))" for h
  proof (cases "h = hash")
    case False
    then show ?thesis using r(3,4) [of h] by (cases "hash_position h H") (auto simp: q' AList.update_conv)
  qed (simp add: q' AList.update_conv)
  moreover have "distinct (map fst (bq_ages (register_hash now hash lps q)))"
    using r(1) by (simp add: q' AList.distinct_update)
  ultimately show "queue_ok (register_hash now hash lps q) ((hash, lps) # H)" by (simp add: queue_ok_def)
  have "length (AList.update k v al) \<le> length al + 1" for k :: hash and v :: hash_age and al by (induction al) auto
  from this [of hash _ "retained q"] r(2)
  have "length (AList.update hash age (retained q)) \<le> unat (bq_max_age q) + 1" for age
    by (meson add_le_cancel_right le_trans)
  then show "length (bq_ages (register_hash now hash lps q)) \<le> unat (bq_max_age q) + 1" by (simp add: q')
qed

text \<open>A queue with a genesis hash and the registrations that followed, each with its time, hash and fee.\<close>

definition queue_run :: "u64 \<Rightarrow> u64 \<times> hash \<times> u64 \<Rightarrow> (u64 \<times> hash \<times> u64) list \<Rightarrow> blockhash_queue" where
  "queue_run max_age genesis regs =
     fold (\<lambda>(now, hash, lps). register_hash now hash lps) regs
       (case genesis of (now, hash, lps) \<Rightarrow> genesis_hash now hash lps (bq_new max_age))"

lemma queue_run_ok:
  assumes "length regs < 2 ^ 64"
  shows "queue_ok (queue_run max_age genesis regs) (rev (map snd (genesis # regs))) \<and>
    length (bq_ages (queue_run max_age genesis regs)) \<le> unat max_age + 1 \<and>
    bq_max_age (queue_run max_age genesis regs) = max_age"
  using assms
proof (induction regs rule: rev_induct)
  case Nil
  show ?case
    by (cases genesis) (auto simp: queue_run_def queue_ok_def genesis_hash_def bq_new_def split: option.splits)
next
  case (snoc reg regs)
  obtain now hash lps where reg: "reg = (now, hash, lps)" by (cases reg)
  let ?q = "queue_run max_age genesis regs"
  have q: "queue_ok ?q (rev (map snd (genesis # regs)))" "bq_max_age ?q = max_age" using snoc by simp_all
  have "length (rev (map snd (genesis # regs))) < 2 ^ 64" using snoc.prems by simp
  note step = register_ok [OF q(1) this, of now hash lps]
  moreover have "queue_run max_age genesis (regs @ [reg]) = register_hash now hash lps ?q"
    by (simp add: queue_run_def reg)
  moreover have "bq_max_age (register_hash now hash lps ?q) = max_age"
    using q(2) by (simp add: register_hash_def Let_def)
  ultimately show ?case using q(2) by (simp add: reg)
qed

lemma map_of_position: "map_of H h = map_option (\<lambda>j. snd (H ! j)) (hash_position h H)"
  by (induction H) (auto simp: option.map_comp comp_def)

lemma window_of_ok:
  assumes "queue_ok q H" and "length H \<le> 2 ^ 64" and "age \<le> bq_max_age q"
  shows "is_hash_valid_for_age q h age \<longleftrightarrow> h \<in> fst ` set (take (unat age + 1) H)"
    and "is_hash_valid_for_age q h age \<Longrightarrow> bq_get_lamports_per_signature q h = map_of H h"
proof -
  have window: "h \<in> fst ` set (take (unat age + 1) H) \<longleftrightarrow> (\<exists>j < unat age + 1. hash_position h H = Some j)"
    using position_take [of "unat age + 1" H "\<lambda>e. fst e = h"] by (auto simp: image_iff)
  have h: "case hash_position h H of
      None \<Rightarrow> map_of (bq_ages q) h = None
    | Some j \<Rightarrow> map_of (bq_ages q) h = None \<and> unat (bq_max_age q) < j \<or>
        (\<exists>a. map_of (bq_ages q) h = Some a \<and> ha_hash_index a = bq_last_hash_index q - of_nat j \<and>
           fc_lamports_per_signature (ha_fee_calculator a) = snd (H ! j))"
    using assms(1) by (simp only: queue_ok_def)
  have "(is_hash_valid_for_age q h age \<longleftrightarrow> h \<in> fst ` set (take (unat age + 1) H)) \<and>
    (is_hash_valid_for_age q h age \<longrightarrow> bq_get_lamports_per_signature q h = map_of H h)"
  proof (cases "map_of (bq_ages q) h")
    case None
    then have "\<not> (\<exists>j < unat age + 1. hash_position h H = Some j)"
      using h assms(3) by (auto simp: word_le_nat_alt)
    with None show ?thesis unfolding window by (simp add: is_hash_valid_for_age_def)
  next
    case (Some a)
    then obtain j where j: "hash_position h H = Some j" "ha_hash_index a = bq_last_hash_index q - of_nat j"
        "fc_lamports_per_signature (ha_fee_calculator a) = snd (H ! j)"
      using h by (cases "hash_position h H") auto
    then have "j < 2 ^ 64" using assms(2) by (auto simp: position_Some)
    then have "unat (of_nat j :: u64) = j" by (simp only: unsigned_of_nat) (simp add: take_bit_nat_eq_self)
    then have "is_hash_valid_for_age q h age \<longleftrightarrow> j \<le> unat age"
      using j(2) Some by (simp add: is_hash_valid_for_age_def is_hash_index_valid_def word_le_nat_alt)
    moreover have "bq_get_lamports_per_signature q h = map_of H h"
      using j Some by (simp add: map_of_position bq_get_lamports_per_signature_def)
    ultimately show ?thesis unfolding window by (simp add: j(1) less_Suc_eq_le)
  qed
  then show "is_hash_valid_for_age q h age \<longleftrightarrow> h \<in> fst ` set (take (unat age + 1) H)"
      "is_hash_valid_for_age q h age \<Longrightarrow> bq_get_lamports_per_signature q h = map_of H h" by blast+
qed

text \<open>
  (C30) The blockhash queue is an exact window: after a genesis hash and any registrations, a hash is valid
  for an age within the limit exactly when at most that many hashes are newer than its last
  registration, its fee is the one it was last registered with, and the queue has at most one entry more than
  the limit.
\<close>

theorem blockhash_window:
  assumes "length regs < 2 ^ 64" and "age \<le> max_age"
  shows "is_hash_valid_for_age (queue_run max_age genesis regs) h age =
      (h \<in> fst ` set (take (unat age + 1) (rev (map snd (genesis # regs))))) \<and>
    (is_hash_valid_for_age (queue_run max_age genesis regs) h age \<longrightarrow>
      bq_get_lamports_per_signature (queue_run max_age genesis regs) h = map_of (rev (map snd (genesis # regs))) h) \<and>
    length (bq_ages (queue_run max_age genesis regs)) \<le> unat max_age + 1"
proof -
  note ok = queue_run_ok [OF assms(1), of max_age genesis]
  have "length (rev (map snd (genesis # regs))) \<le> 2 ^ 64" using assms(1) by simp
  note window = window_of_ok [OF _ this, of "queue_run max_age genesis regs" age h]
  moreover have "age \<le> bq_max_age (queue_run max_age genesis regs)" using ok assms(2) by simp
  ultimately show ?thesis using ok by blast
qed

abbreviation demo_hash :: "u8 \<Rightarrow> hash" where
  "demo_hash n \<equiv> Hash (replicate 32 n)"

theorem blockhash_window_witness:
  "\<not> is_hash_valid_for_age (queue_run 2 (0, demo_hash 0, 5) [(1, demo_hash 1, 6), (2, demo_hash 2, 7)]) (demo_hash 0) 1 \<and>
   is_hash_valid_for_age (queue_run 2 (0, demo_hash 0, 5) [(1, demo_hash 1, 6), (2, demo_hash 2, 7)]) (demo_hash 1) 1 \<and>
   bq_get_lamports_per_signature (queue_run 2 (0, demo_hash 0, 5) [(1, demo_hash 1, 6), (2, demo_hash 2, 7)]) (demo_hash 1) = Some 6"
  using blockhash_window [of "[(1, demo_hash 1, 6), (2, demo_hash 2, 7)]" 1 2 "(0, demo_hash 0, 5)" "demo_hash 0"]
    blockhash_window [of "[(1, demo_hash 1, 6), (2, demo_hash 2, 7)]" 1 2 "(0, demo_hash 0, 5)" "demo_hash 1"]
  by simp

end
