(* ===== verification/Spec2Isabelle.thy ===== *)
theory Spec2Isabelle
  imports Prelude Rent Errors Pubkeys Account Transaction_Context Borrowed_Account
    Context_Properties Sysvars Nonce System_Program System_Properties
    Epoch_Schedule Slot_History Message Message_Properties Log_Collector Invoke_Context
    Message_Processor Runtime_Properties Execution_Properties Call_Depth
    Remote_Loader Remote_Properties Accounts_Cache Cache_Properties Bank_Remote Bank_Properties
    Migrater Hgnft Sync_Properties
    Rolling_Bit_Field Accounts_Index Read_Cache Accounts_Db Db_Properties
    Account_Locks Blockhash_Queue
begin

text \<open>
  A verification library for the execution core of the Hypergrid coprocessor: the fork of the Solana
  validator under \<^verbatim>\<open>src/Base/grid_coprocessor\<close>, to which the paths below are relative, and the demonstration
  programs under \<^verbatim>\<open>src/Base/sonic-*-program\<close>.

  \<^bold>\<open>The program.\<close>  A grid runs transactions on accounts of its own and on accounts of a base layer.  A transaction
  names accounts in a message and locks them; the bank checks it, loads its accounts from the accounts
  database, and has the message processor run its instructions one after the other in a transaction
  context.  What the fork adds: a migrater instruction makes the bank load an account of the base layer into a
  loader; the accounts database serves it, marked as remote; the message processor never lets an
  instruction write it; and a new value that a program announces in its log is reported to the base
  layer in a transaction.

  \<^bold>\<open>The theories, from the bottom.\<close>

  \<^item> \<open>Prelude\<close>: Rust integers, slices, \<^verbatim>\<open>RefCell\<close> flags, actions (state and error, where a failing action keeps
    the state it reached) and the locale \<open>step_frame\<close> with the composition rules of properties that
    every step of an action keeps.
  \<^item> \<open>Errors\<close>, \<open>Pubkeys\<close>, \<open>Rent\<close>, \<open>Account\<close>: the error codes and their conversions, program derived addresses
    with the bump search, the minimum balance with its double arithmetic, and accounts with the
    remote flag (\<^verbatim>\<open>sdk/program/src\<close>, \<^verbatim>\<open>sdk/src/account.rs\<close>).
  \<^item> \<open>Transaction_Context\<close>, \<open>Borrowed_Account\<close>, \<open>Context_Properties\<close>: \<^verbatim>\<open>sdk/src/transaction_context.rs\<close>.  The
    reachable contexts have bounded stacks and consistent nesting, popping succeeds exactly for a balanced
    instruction without outstanding borrows, and every setter of a borrowed account keeps the access policy.
  \<^item> \<open>Sysvars\<close>, \<open>Epoch_Schedule\<close>, \<open>Slot_History\<close>, \<open>Nonce\<close>: sysvar data and cache, epochs, the ring of recent slots
    and durable nonces.
  \<^item> \<open>System_Program\<close>, \<open>System_Properties\<close>: \<^verbatim>\<open>programs/system/src\<close>, every instruction.
  \<^item> \<open>Message\<close>, \<open>Message_Properties\<close>: \<^verbatim>\<open>sdk/program/src/message\<close>, from compilation to the sanitized message.
  \<^item> \<open>Log_Collector\<close>, \<open>Invoke_Context\<close>, \<open>Message_Processor\<close>: \<^verbatim>\<open>program-runtime/src\<close>.  \<open>Runtime_Properties\<close> shows
    that an invocation escalates no privilege, \<open>Execution_Properties\<close> what an instruction and a message
    can change, \<open>Call_Depth\<close> that nested invocations end.
  \<^item> \<open>Remote_Loader\<close>, \<open>Remote_Properties\<close>: \<^verbatim>\<open>accounts-db/src/remote_loader.rs\<close>.
  \<^item> \<open>Accounts_Cache\<close>, \<open>Cache_Properties\<close>, \<open>Rolling_Bit_Field\<close>, \<open>Accounts_Index\<close>, \<open>Read_Cache\<close>, \<open>Accounts_Db\<close>,
    \<open>Db_Properties\<close>: \<^verbatim>\<open>accounts-db/src\<close>, the write cache, the slot sets, the index, the read-only cache
    and the read path over them, also while another thread takes the steps of the flusher of the write
    cache (\<open>flush_step\<close>).  The read-only cache implements a least-recently-used list.
  \<^item> \<open>Account_Locks\<close>, \<open>Blockhash_Queue\<close>: what admits a transaction (\<^verbatim>\<open>accounts-db/src/accounts.rs\<close> and
    \<^verbatim>\<open>blockhash_queue.rs\<close>).
  \<^item> \<open>Bank_Remote\<close>, \<open>Bank_Properties\<close>: the functions the fork adds to \<^verbatim>\<open>runtime/src/bank.rs\<close>.
  \<^item> \<open>Migrater\<close>, \<open>Hgnft\<close>, \<open>Sync_Properties\<close>: the migrater program, the NFT, inbox and game programs, and the
    way of an announced value to the base layer, up to the execution of the reported message there.
  \<^item> This theory composes them: a migrated account goes from the base layer through the loader and the
    database to a transaction, which reads it and cannot change it.

  \<^bold>\<open>Correspondence.\<close>  Structs are records and enums are datatypes with the names of the source; a prefix
  tells the struct of a field or method apart where names repeat (\<open>tc_push\<close>, \<open>rbf_insert\<close>, \<open>roc_load\<close>).  A method
  that changes \<^verbatim>\<open>self\<close> takes and returns the state.  \<^verbatim>\<open>Result\<close> is a sum with the error on the left, a panic is
  \<^const>\<open>None\<close> or the outcome \<open>Panic\<close>.  Machine integers are words, or numbers with the wrap-around written
  out.  Hash maps are maps, or association lists where their size or order is observed.  Other threads
  appear as steps between the accesses of a reader (\<open>Accounts_Db\<close>) or as batches under a mutex
  (\<open>Account_Locks\<close>).

  \<^bold>\<open>Parameters.\<close>  Code outside the repository is an argument with its documented laws as a named predicate or
  hypothesis: SHA-256, the curve test, \<^verbatim>\<open>bincode\<close>, base58, the RPC client (whose calls may change the
  world, with \<open>stable\<close> for a base layer that does not change), the regular expression (\<open>captures_ok\<close>), the
  dispatch generated for an anchor program (\<open>anchor_dispatches\<close>), the bit vector (\<open>bit_vec_laws\<close>), the index list (\<open>index_list_laws\<close>) and the clock.  Witnesses instantiate each of them.
  Programs are arguments of the runtime under the contract \<open>program_ok\<close>, which the system program and
  the migrater program are shown to keep.

  \<^bold>\<open>Bounds and fuel.\<close>  The only fuel is the nesting depth of \<open>process_instruction\<close>; \<open>Call_Depth\<close> shows that the room
  on the instruction stack is enough.  Loops that may run forever are partial functions whose return is
  proved: the loader exactly when the chain of program data accounts ends, the eviction loop under the
  invariant of its queue, the retry loop against a flusher.  Other loops have termination proofs.  The
  lock counters need fewer than \<open>2 ^ 64\<close> transactions in flight, the queue fewer than \<open>2 ^ 64\<close> registrations.

  \<^bold>\<open>Interfaces.\<close>  \<open>step_frame\<close> is interpreted on the access policy, \<open>account_source\<close> on the loader of the base
  layer, and \<open>slot_set\<close> on the rolling bit field.

  \<^bold>\<open>Not modelled.\<close>  Storing, flushing (apart from its effect on a reader), shrinking, hashing and snapshots of the accounts database, which run
  on memory-mapped files and background threads; the rest of the bank, which ties them together with
  thread pools and the program cache; the BPF loader, which is mostly the interface to the virtual machine
  of another crate; the stake, vote and config programs, which the modelled paths do not call; consensus, gossip, the ledger and RPC, which are
  threads, sockets and a key-value store; serialization, display and metrics throughout.
\<close>

section \<open>From the base layer to a transaction\<close>

lemma base_view_remote: "base_view env base key = Some a \<Longrightarrow> acct_remote a"
  by (auto simp: base_view_def remote_account_def split: if_splits)

lemma migrated_account_loads:
  assumes "index_lookup (de_bits denv) (adb_index db) key (Some ancestors) None = None" and "1 < rbf_count ancestors"
    and "ac_cached 0 key (adb_cache db) = None"
    and "rl_get_account (de_remote denv) (ac_remote_loader (adb_cache db)) key = Some a" and "acct_lamports a \<noteq> 0"
  shows "\<exists>db'. do_load denv (\<lambda>_ s. s) ancestors key hint db = Some (Done (Some (a, 0)), db')"
proof -
  have "has_account_from_remote (de_remote denv) key (adb_cache db)"
    using assms(4) by (simp add: has_account_from_remote_def has_account_iff)
  moreover have "fst (ac_load (de_remote denv) 0 key (adb_cache db)) = Some a"
    using assms(3,4) by (simp add: ac_load_def ac_load_with_def)
  ultimately show ?thesis
    using remote_load [OF assms(1,2), of hint] assms(5) by (auto simp: nonzero_def)
qed

text \<open>
  (C2) From the base layer to a transaction and not back.  Let the base layer be stable and the loader be enabled,
  let a transaction that is not a simple vote ask the migrater for an account that the base layer has, with
  lamports and under a key that the loader does not ignore and that is not the instructions sysvar; let
  every migrater instruction decode, and the chain of program data of every account asked for end.
  Let the account be new to the grid: the index shows no version of it to the ancestors, of which there is
  more than one, and slot 0 of the write cache has no earlier copy.  Then the check before the
  execution returns, the accounts database loads the account exactly as the base layer has it, at
  slot 0, and executing the transaction with the programs of the grid leaves it unchanged, on any
  fewer than 65536 distinct loaded accounts that contain it and start with the keys of the message.
\<close>

theorem migrated_account_read_only:
  fixes benv :: "'w bank_env" and denv :: "('b, 'i, 'q, 'w) db_env"
  assumes "stable (be_remote benv) base" and "migrates benv base (stx_message tx)"
    and "rl_enable (ac_remote_loader (adb_cache db))" and "\<not> stx_is_simple_vote tx"
    and "de_remote denv = be_remote benv"
    and "ix \<in> set (sm_instructions (stx_message tx))" and "requests (stx_message tx) ix key"
    and "base_view (be_remote benv) base key = Some a" and "acct_lamports a \<noteq> 0" and "key \<noteq> instructions_sysvar_id"
    and "index_lookup (de_bits denv) (adb_index db) key (Some ancestors) None = None" and "1 < rbf_count ancestors"
    and "ac_cached 0 key (adb_cache db) = None"
  shows "\<exists>cache. check_remote_accounts benv tx (adb_cache db, w) = Some (cache, w) \<and>
    (\<exists>db'. do_load denv (\<lambda>_ s. s) ancestors key hint (db\<lparr>adb_cache := cache\<rparr>) = Some (Done (Some (a, 0)), db')) \<and>
    (\<forall>accounts i tc. i < length accounts \<and> accounts ! i = (key, a) \<and> distinct (map fst accounts) \<and>
       length accounts < 65536 \<and> tc = transaction_context_new accounts rent stack_capacity trace_capacity \<and>
       keys_cover (stx_message tx) tc \<and>
       (\<forall>ci \<in> set (sm_instructions (stx_message tx)). \<forall>ps \<in> set program_indices. length (ci_accounts ci) + length ps < 65536) \<longrightarrow>
       (\<forall>r units' iv. process_message depth d (grid_programs senv menv) (stx_message tx) program_indices tc lc budget units =
          Some (r, units', iv) \<longrightarrow> account_at (iv_tc iv) i = a))"
proof -
  obtain cache where check: "check_remote_accounts benv tx (adb_cache db, w) = Some (cache, w)"
      "cache = (adb_cache db)\<lparr>ac_remote_loader := ac_remote_loader cache\<rparr>"
      "rl_get_account (be_remote benv) (ac_remote_loader cache) key = Some a"
    using migration_available [OF assms(1-4), where w = w] assms(6-8) by blast
  have "ac_cached 0 key cache = None"
    using assms(13) cached_of_loader [where slot = 0 and key = key and ac = "adb_cache db" and rl = "ac_remote_loader cache"] check(2) by simp
  then have "\<exists>db'. do_load denv (\<lambda>_ s. s) ancestors key hint (db\<lparr>adb_cache := cache\<rparr>) = Some (Done (Some (a, 0)), db')"
    using migrated_account_loads [of denv "db\<lparr>adb_cache := cache\<rparr>"] assms(5,9,11,12) check(3) by simp
  moreover have "account_at (iv_tc iv) i = a"
    if acc: "i < length accounts" "accounts ! i = (key, a)" "distinct (map fst accounts)" "length accounts < 65536"
      and tc: "tc = transaction_context_new accounts rent stack_capacity trace_capacity" "keys_cover (stx_message tx) tc"
      and small: "\<forall>ci \<in> set (sm_instructions (stx_message tx)). \<forall>ps \<in> set program_indices. length (ci_accounts ci) + length ps < 65536"
      and run: "process_message depth d (grid_programs senv menv) (stx_message tx) program_indices tc lc budget units =
        Some (r, units', iv)" for accounts i tc r units' iv
  proof -
    have "tc_inv tc" by (simp add: tc(1) tc_inv_new)
    moreover have "keys_ok tc" using acc(3,4) by (simp add: tc(1) keys_ok_def transaction_context_new_def)
    ultimately have "message_frame tc (iv_tc iv)"
      using process_message_frame [OF grid_programs_ok _ _ tc(2) small run] by blast
    moreover have here: "account_at tc i = a" "i < length (ta_accounts (tc_accounts tc))" "get (tc_account_keys tc) i = Some key"
      using acc(1,2) by (simp_all add: tc(1) transaction_context_new_def ta_new_def account_at_def ref_cell_new_def get_def)
    ultimately show ?thesis
      using base_view_remote [OF assms(8)] assms(10) by (simp add: message_frame_def is_remote_def)
  qed
  ultimately show ?thesis using check(1) by blast
qed

definition grid_demo :: "(nat \<times> (nat \<Rightarrow> bool), nat, (nat \<times> cache_key) list) accounts_db" where
  "grid_demo = stale_demo\<lparr>adb_cache := accounts_cache_new remote_demo_loader\<rparr>"

definition grid_demo_accounts :: "(pubkey \<times> account_shared_data) list" where
  "grid_demo_accounts =
     [(demo_key 4, shared_create 100 [] system_program_id False 0),
      (demo_key 1, remote_account (account_create 5 [2, 2] bpf_loader_upgradeable_id True 0)),
      (sonic_account_migrater_id, shared_create 1 [] native_loader_id True 0)]"

abbreviation grid_demo_tc :: transaction_context where
  "grid_demo_tc \<equiv> transaction_context_new grid_demo_accounts rent_default 4 8"

lemma grid_demo_keys:
  "demo_key 4 \<noteq> demo_key 1" "demo_key 4 \<noteq> sonic_account_migrater_id" "demo_key 1 \<noteq> sonic_account_migrater_id"
  "demo_key 4 \<noteq> instructions_sysvar_id" "sonic_account_migrater_id \<noteq> instructions_sysvar_id"
proof -
  show "demo_key 4 \<noteq> demo_key 1" by (rule pubkey_neqI [of last]) (simp add: demo_key_def)
  show "demo_key 4 \<noteq> sonic_account_migrater_id" "demo_key 1 \<noteq> sonic_account_migrater_id"
      "demo_key 4 \<noteq> instructions_sysvar_id"
    by (rule pubkey_neqI [of hd], simp add: demo_key_def sonic_account_migrater_id_def instructions_sysvar_id_def hd_append)+
  show "sonic_account_migrater_id \<noteq> instructions_sysvar_id"
    by (rule pubkey_neqI [of "\<lambda>bs. bs ! 1"]) (simp add: sonic_account_migrater_id_def instructions_sysvar_id_def)
qed

lemma grid_demo_runs:
  "\<exists>r. process_message depth d programs (stx_message migrate_demo_tx) [[2]] grid_demo_tc lc budget units = Some r"
proof -
  let ?iv = "invoke_context_new grid_demo_tc lc budget"
  have ixs: "sm_instructions (stx_message migrate_demo_tx) = [\<lparr>ci_program_id_index = 2, ci_accounts = [0, 1], ci_data = [0]\<rparr>]"
      "ak_get (sm_account_keys (stx_message migrate_demo_tx)) 2 = Some sonic_account_migrater_id"
    by (simp_all add: migrate_demo_tx_def ak_get_def key_segments_def)
  have fixup: "fixup_instructions_sysvar 0 grid_demo_tc = Some (Inr grid_demo_tc)"
    using grid_demo_keys demo_keys_hd
    by (simp add: fixup_instructions_sysvar_def transaction_context_new_def find_index_of_account_def grid_demo_accounts_def)
  have "message_accounts (stx_message migrate_demo_tx) grid_demo_tc [0, 1] \<noteq> None"
    using grid_demo_keys
    by (simp add: message_accounts_def message_account_def migrate_demo_tx_def ak_get_def key_segments_def
        is_remote_account_def transaction_context_new_def ta_new_def find_index_of_account_def grid_demo_accounts_def
        get_account_at_index_def ta_get_def ok_or_def get_def ref_cell_new_def can_borrow_def)
  then obtain accounts where "message_accounts (stx_message migrate_demo_tx) grid_demo_tc [0, 1] = Some accounts" by blast
  moreover have "iv_tc ?iv = grid_demo_tc" by (simp add: invoke_context_new_def)
  ultimately show ?thesis
    unfolding process_message_def using fixup
    by (auto simp: ixs process_one_def Let_def split: prod.splits sum.splits)
qed

theorem migrated_account_read_only_witness:
  "\<forall>senv menv. \<exists>cache.
    check_remote_accounts migrate_demo_env migrate_demo_tx (adb_cache grid_demo, ()) = Some (cache, ()) \<and>
    (\<exists>db'. do_load db_demo_env (\<lambda>_ s. s) stale_demo_ancestors (demo_key 1) FixedMaxRoot (grid_demo\<lparr>adb_cache := cache\<rparr>) =
       Some (Done (Some (remote_account (account_create 5 [2, 2] bpf_loader_upgradeable_id True 0), 0)), db')) \<and>
    (\<exists>r units' iv.
       process_message 1 cpi_display (grid_programs senv menv) (stx_message migrate_demo_tx) [[2]] grid_demo_tc None
         \<lparr>cb_compute_unit_limit = 1000\<rparr> 0 = Some (r, units', iv) \<and>
       account_at (iv_tc iv) 1 = remote_account (account_create 5 [2, 2] bpf_loader_upgradeable_id True 0))"
proof -
  let ?a = "remote_account (account_create 5 [2, 2] bpf_loader_upgradeable_id True 0)"
  have env: "de_remote db_demo_env = be_remote migrate_demo_env" by (simp add: db_demo_env_def migrate_demo_facts(1))
  have cache: "adb_cache grid_demo = accounts_cache_new remote_demo_loader" by (simp add: grid_demo_def)
  have none: "index_lookup (de_bits db_demo_env) (adb_index grid_demo) (demo_key 1) (Some stale_demo_ancestors) None = None"
    by (simp add: index_lookup_def index_get_def grid_demo_def stale_demo_def)
  have empty: "ac_cached 0 (demo_key 1) (adb_cache grid_demo) = None"
    by (simp add: cache accounts_cache_new_def ac_cached_def ac_slot_cache_def)
  have acc: "1 < length grid_demo_accounts" "grid_demo_accounts ! 1 = (demo_key 1, ?a)" "distinct (map fst grid_demo_accounts)"
      "length grid_demo_accounts < 65536"
    using grid_demo_keys by (simp_all add: grid_demo_accounts_def)
  have cover: "keys_cover (stx_message migrate_demo_tx) grid_demo_tc"
    by (auto simp: keys_cover_def migrate_demo_tx_def grid_demo_accounts_def transaction_context_new_def
        ak_get_def key_segments_def get_def nth_Cons' split: if_splits)
  have small: "\<forall>ci \<in> set (sm_instructions (stx_message migrate_demo_tx)). \<forall>ps \<in> set [[2 :: nat]].
      length (ci_accounts ci) + length ps < 65536"
    by (simp add: migrate_demo_tx_def)
  obtain ix where ix: "ix \<in> set (sm_instructions (stx_message migrate_demo_tx))" "requests (stx_message migrate_demo_tx) ix (demo_key 1)"
    using migrate_demo_facts(4) by blast
  have ok: "acct_lamports ?a \<noteq> 0" "demo_key 1 \<noteq> instructions_sysvar_id"
    using demo_keys_hd by (simp_all add: remote_account_def account_create_def shared_create_def)
  have run: "\<exists>r units' iv. process_message 1 cpi_display (grid_programs senv menv) (stx_message migrate_demo_tx) [[2]]
      grid_demo_tc None \<lparr>cb_compute_unit_limit = 1000\<rparr> 0 = Some (r, units', iv)" for senv menv
    using grid_demo_runs by (metis prod.exhaust)
  note all = migrated_account_read_only [where db = grid_demo and w = "()" and denv = db_demo_env and ancestors = stale_demo_ancestors,
      OF _ migrate_demo_migrates _ migrate_demo_facts(2) env ix _ ok none _ empty, unfolded migrate_demo_facts(1) cache,
      OF remote_demo_stable(1) migrate_demo_facts(3) remote_demo_view(1)]
  show ?thesis
    unfolding cache
    apply (intro allI)
    subgoal for senv menv
      apply (rule all [where hint = FixedMaxRoot and rent = rent_default and stack_capacity = 4 and trace_capacity = 8
            and program_indices = "[[2]]" and depth = 1 and d = cpi_display and senv = senv and menv = menv and lc = None
            and budget = "\<lparr>cb_compute_unit_limit = 1000\<rparr>" and units = 0, THEN ex_forward])
      subgoal by simp
      subgoal using acc cover small run [of senv menv] by blast
      done
    done
qed

end
